(* ===== verification/Go_Prelude.thy ===== *)
theory Go_Prelude
  imports Main "HOL-Library.Sublist" "HOL-Library.Char_ord"
begin

text \<open>
  The part of Go and of its standard library that the driver rests on: byte strings and the
  functions of package strings it calls, decimal numbers (strconv), and errors as values
  (fmt.Errorf with %w, errors.Join, errors.Is, errors.As).

  A Go string is a sequence of bytes, so it is a \<^typ>\<open>string\<close> (a list of 8-bit characters);
  text beyond ASCII is its UTF-8 bytes.
\<close>

named_theorems go_string \<open>characteristic equations of the modelled string functions\<close>
named_theorems go_error \<open>how the error operations act on each form of error\<close>

section \<open>Strings\<close>

text \<open>strings.HasPrefix is \<^const>\<open>prefix\<close>; strings.Contains looks for the pattern at each position.\<close>

fun go_contains :: "string \<Rightarrow> string \<Rightarrow> bool" where
  "go_contains [] sub = (sub = [])"
| "go_contains (c # s) sub = (prefix sub (c # s) \<or> go_contains s sub)"

lemma go_contains_iff [go_string]: "go_contains s sub \<longleftrightarrow> sublist sub s"
  by (induction s) (auto simp: sublist_Cons_right)

lemma go_contains_append1: "go_contains s sub \<Longrightarrow> go_contains (s @ t) sub"
  unfolding go_contains_iff by (meson sublist_append sublist_appendI sublist_def)

text \<open>strings.ReplaceAll for a pattern of one byte.\<close>

definition go_replace_byte :: "char \<Rightarrow> string \<Rightarrow> string \<Rightarrow> string" where
  "go_replace_byte old new s = concat (map (\<lambda>c. if c = old then new else [c]) s)"

lemma go_replace_byte_simps [simp]:
  "go_replace_byte old new [] = []"
  "go_replace_byte old new (c # s) =
     (if c = old then new @ go_replace_byte old new s else c # go_replace_byte old new s)"
  by (simp_all add: go_replace_byte_def)

text \<open>strings.Join.\<close>

fun go_join :: "string \<Rightarrow> string list \<Rightarrow> string" where
  "go_join sep [] = []"
| "go_join sep [x] = x"
| "go_join sep (x # y # xs) = x @ sep @ go_join sep (y # xs)"

lemma go_join_Cons: "go_join sep (x # xs) = x @ (if xs = [] then [] else sep @ go_join sep xs)"
  by (cases xs) auto

text \<open>
  strings.ToUpper and strings.ToLower. Go maps every letter of Unicode. The driver only compares
  the result with ASCII keywords (or applies the function to text a regular expression has
  already restricted to ASCII), so the model is exact on the ASCII letters of the result: besides
  the letters a to z, exactly two characters have an ASCII upper case, U+0131 (bytes C4 B1) and
  U+017F (bytes C5 BF). Other bytes beyond ASCII stay as they are here, where Go may map them to
  other bytes beyond ASCII.
\<close>

definition ascii_upper :: "char \<Rightarrow> char" where
  "ascii_upper c = (if CHR ''a'' \<le> c \<and> c \<le> CHR ''z'' then char_of (of_char c - (32 :: nat)) else c)"

definition ascii_lower :: "char \<Rightarrow> char" where
  "ascii_lower c = (if CHR ''A'' \<le> c \<and> c \<le> CHR ''Z'' then char_of (of_char c + (32 :: nat)) else c)"

fun go_to_upper :: "string \<Rightarrow> string" where
  "go_to_upper [] = []"
| "go_to_upper [c] = [ascii_upper c]"
| "go_to_upper (c # d # s) =
     (if c = CHR 0xC4 \<and> d = CHR 0xB1 then CHR ''I'' # go_to_upper s
      else if c = CHR 0xC5 \<and> d = CHR 0xBF then CHR ''S'' # go_to_upper s
      else ascii_upper c # go_to_upper (d # s))"

text \<open>
  strings.EqualFold against a keyword whose letters have no other form than their two ASCII ones
  (true of INTEGER, rowid, oid: the letters K and S, which have further forms, do not occur).
\<close>

definition go_equal_fold_ascii :: "string \<Rightarrow> string \<Rightarrow> bool" where
  "go_equal_fold_ascii s t \<longleftrightarrow> map ascii_lower s = map ascii_lower t"

text \<open>strings.TrimSpace: white space is what unicode.IsSpace accepts, here as its UTF-8 bytes.\<close>

definition space_runes :: "string list" where
  "space_runes =
     map (\<lambda>n. [char_of n]) [9, 10, 11, 12, 13, 32 :: nat] @
     [[CHR 0xC2, CHR 0x85], [CHR 0xC2, CHR 0xA0], [CHR 0xE1, CHR 0x9A, CHR 0x80]] @
     map (\<lambda>n. [CHR 0xE2, CHR 0x80, char_of n])
       [128, 129, 130, 131, 132, 133, 134, 135, 136, 137, 138, 168, 169, 175 :: nat] @
     [[CHR 0xE2, CHR 0x81, CHR 0x9F], [CHR 0xE3, CHR 0x80, CHR 0x80]]"

lemma space_runes_pos: "w \<in> set space_runes \<Longrightarrow> 0 < length w"
  by (auto simp: space_runes_def)

definition leading_space :: "string \<Rightarrow> nat" where
  "leading_space s = (case find (\<lambda>w. prefix w s) space_runes of None \<Rightarrow> 0 | Some w \<Rightarrow> length w)"

definition trailing_space :: "string \<Rightarrow> nat" where
  "trailing_space s = (case find (\<lambda>w. suffix w s) space_runes of None \<Rightarrow> 0 | Some w \<Rightarrow> length w)"

lemma find_Some_memD: "find P xs = Some x \<Longrightarrow> x \<in> set xs \<and> P x"
  by (auto simp: find_Some_iff)

lemma leading_space_le: "leading_space s \<le> length s"
  by (auto simp: leading_space_def split: option.splits dest!: find_Some_memD prefix_length_le)

lemma trailing_space_le: "trailing_space s \<le> length s"
  by (auto simp: trailing_space_def split: option.splits dest!: find_Some_memD suffix_length_le)

function trim_left :: "string \<Rightarrow> string" where
  "trim_left s = (if leading_space s = 0 then s else trim_left (drop (leading_space s) s))"
  by pat_completeness auto
termination
  by (relation "measure length") (use leading_space_le [of "[]"] in \<open>auto intro!: diff_less\<close>)

function trim_right :: "string \<Rightarrow> string" where
  "trim_right s =
     (if trailing_space s = 0 then s else trim_right (take (length s - trailing_space s) s))"
  by pat_completeness auto
termination
  by (relation "measure length") (use trailing_space_le [of "[]"] in \<open>auto intro!: diff_less\<close>)

declare trim_left.simps [simp del] trim_right.simps [simp del]

definition go_trim_space :: "string \<Rightarrow> string" where
  "go_trim_space s = trim_right (trim_left s)"

lemma go_trim_space_id [go_string]:
  "leading_space s = 0 \<Longrightarrow> trailing_space s = 0 \<Longrightarrow> go_trim_space s = s"
  by (simp add: go_trim_space_def trim_left.simps trim_right.simps)

text \<open>
  Letter case. White space has no letters, so trimming commutes with lowering the ASCII letters,
  and ToUpper forgets the difference.
\<close>

definition caseless :: "char \<Rightarrow> bool" where
  "caseless c \<longleftrightarrow> \<not> (CHR ''A'' \<le> c \<and> c \<le> CHR ''Z'') \<and> \<not> (CHR ''a'' \<le> c \<and> c \<le> CHR ''z'')"

lemma of_char_ascii_lower:
  "(of_char (ascii_lower c) :: nat) =
     (if 65 \<le> (of_char c :: nat) \<and> (of_char c :: nat) \<le> 90 then of_char c + 32 else of_char c)"
  by (simp add: ascii_lower_def less_eq_char_def)

lemma of_char_ascii_upper:
  "(of_char (ascii_upper c) :: nat) =
     (if 97 \<le> (of_char c :: nat) \<and> (of_char c :: nat) \<le> 122 then of_char c - 32 else of_char c)"
  by (auto simp: ascii_upper_def less_eq_char_def intro!: mod_less)

lemma char_eq_nat: "c = d \<longleftrightarrow> (of_char c :: nat) = of_char d"
  by simp

lemma caseless_iff:
  "caseless c \<longleftrightarrow> \<not> (65 \<le> (of_char c :: nat) \<and> (of_char c :: nat) \<le> 90) \<and>
     \<not> (97 \<le> (of_char c :: nat) \<and> (of_char c :: nat) \<le> 122)"
  by (simp add: caseless_def less_eq_char_def)

lemma ascii_lower_caseless: "caseless w \<Longrightarrow> ascii_lower w = w"
  by (auto simp: ascii_lower_def caseless_def)

lemma ascii_lower_eq_caseless: "caseless w \<Longrightarrow> ascii_lower c = w \<longleftrightarrow> c = w"
  unfolding char_eq_nat [of "ascii_lower c"] char_eq_nat [of c] of_char_ascii_lower caseless_iff
  by auto

lemma ascii_upper_lower [simp]: "ascii_upper (ascii_lower c) = ascii_upper c"
  unfolding char_eq_nat [of "ascii_upper (ascii_lower c)"] of_char_ascii_upper of_char_ascii_lower
  by auto

lemma prefix_lower: "list_all caseless w \<Longrightarrow> prefix w (map ascii_lower s) \<longleftrightarrow> prefix w s"
proof (induction w arbitrary: s)
  case (Cons x w)
  then show ?case
    by (cases s) (simp_all add: ascii_lower_eq_caseless eq_commute [of x])
qed simp

lemma suffix_lower: "list_all caseless w \<Longrightarrow> suffix w (map ascii_lower s) \<longleftrightarrow> suffix w s"
  using prefix_lower [of "rev w" "rev s"] by (simp add: suffix_to_prefix rev_map)

lemma space_runes_caseless: "w \<in> set space_runes \<Longrightarrow> list_all caseless w"
  by (auto simp: space_runes_def caseless_iff)

lemma leading_space_lower [simp]: "leading_space (map ascii_lower s) = leading_space s"
  unfolding leading_space_def
  by (rule arg_cong [of _ _ "case_option 0 length"], rule find_cong)
    (simp_all add: prefix_lower space_runes_caseless)

lemma trailing_space_lower [simp]: "trailing_space (map ascii_lower s) = trailing_space s"
  unfolding trailing_space_def
  by (rule arg_cong [of _ _ "case_option 0 length"], rule find_cong)
    (simp_all add: suffix_lower space_runes_caseless)

lemma trim_left_lower: "trim_left (map ascii_lower s) = map ascii_lower (trim_left s)"
proof (induction s rule: trim_left.induct)
  case (1 s)
  then show ?case
    by (simp add: trim_left.simps [of s] trim_left.simps [of "map ascii_lower s"] drop_map)
qed

lemma trim_right_lower: "trim_right (map ascii_lower s) = map ascii_lower (trim_right s)"
proof (induction s rule: trim_right.induct)
  case (1 s)
  then show ?case
    by (simp add: trim_right.simps [of s] trim_right.simps [of "map ascii_lower s"] take_map)
qed

lemma go_trim_space_lower [go_string]: "go_trim_space (map ascii_lower s) = map ascii_lower (go_trim_space s)"
  by (simp add: go_trim_space_def trim_left_lower trim_right_lower)

lemma go_to_upper_lower [go_string]: "go_to_upper (map ascii_lower s) = go_to_upper s"
proof (induction s rule: go_to_upper.induct)
  case (3 c d s)
  have "ascii_lower x = y \<longleftrightarrow> x = y" if "y \<in> {CHR 0xC4, CHR 0xB1, CHR 0xC5, CHR 0xBF}" for x y
    using that by (intro ascii_lower_eq_caseless) (auto simp: caseless_iff)
  with 3 show ?case by simp
qed simp_all

text \<open>Text that begins and ends with a letter has no white space to trim.\<close>

lemma leading_space_letter: "\<not> caseless c \<Longrightarrow> leading_space (c # s) = 0"
proof -
  assume c: "\<not> caseless c"
  have "\<not> prefix w (c # s)" if "w \<in> set space_runes" for w
    using c space_runes_caseless [OF that] space_runes_pos [OF that] by (cases w) auto
  then have "find (\<lambda>w. prefix w (c # s)) space_runes = None"
    by (simp add: find_None_iff)
  then show ?thesis by (simp add: leading_space_def)
qed

lemma trailing_space_letter: "s \<noteq> [] \<Longrightarrow> \<not> caseless (last s) \<Longrightarrow> trailing_space s = 0"
proof -
  assume s: "s \<noteq> []" "\<not> caseless (last s)"
  have "\<not> suffix w s" if "w \<in> set space_runes" for w
    using s space_runes_caseless [OF that] space_runes_pos [OF that]
    by (auto simp: suffix_def list_all_iff)
  then have "find (\<lambda>w. suffix w s) space_runes = None"
    by (simp add: find_None_iff)
  then show ?thesis by (simp add: trailing_space_def)
qed

lemma go_trim_space_letters [go_string]:
  "\<not> caseless c \<Longrightarrow> \<not> caseless (last (c # s)) \<Longrightarrow> go_trim_space (c # s) = c # s"
  by (simp only: go_trim_space_id leading_space_letter trailing_space_letter list.distinct not_False_eq_True)

section \<open>Decimal numbers\<close>

definition is_digit :: "char \<Rightarrow> bool" where
  "is_digit c \<longleftrightarrow> CHR ''0'' \<le> c \<and> c \<le> CHR ''9''"

definition digit_value :: "char \<Rightarrow> nat" where
  "digit_value c = of_char c - 48"

definition digits_value :: "string \<Rightarrow> nat" where
  "digits_value s = foldl (\<lambda>n c. 10 * n + digit_value c) 0 s"

fun show_nat :: "nat \<Rightarrow> string" where
  "show_nat n = (if n < 10 then [char_of (48 + n)] else show_nat (n div 10) @ [char_of (48 + n mod 10)])"

declare show_nat.simps [simp del]

definition show_int :: "int \<Rightarrow> string" where
  "show_int i = (if i < 0 then CHR ''-'' # show_nat (nat (- i)) else show_nat (nat i))"

text \<open>strconv.Atoi and strconv.ParseInt in base 10 for 64 bits: \<open>None\<close> is the error.\<close>

definition int64_range :: "int \<Rightarrow> bool" where
  "int64_range i \<longleftrightarrow> - (2 ^ 63) \<le> i \<and> i < 2 ^ 63"

definition go_atoi :: "string \<Rightarrow> int option" where
  "go_atoi s =
     (let (neg, ds) = (case s of
         [] \<Rightarrow> (False, [])
       | c # cs \<Rightarrow> if c = CHR ''-'' then (True, cs) else if c = CHR ''+'' then (False, cs) else (False, s));
       v = (if neg then - int (digits_value ds) else int (digits_value ds))
      in if ds \<noteq> [] \<and> list_all is_digit ds \<and> int64_range v then Some v else None)"

lemma is_digit_of_nat: "n < 10 \<Longrightarrow> is_digit (char_of (48 + n :: nat))"
  by (simp add: is_digit_def less_eq_char_def)

lemma digit_value_of_nat: "n < 10 \<Longrightarrow> digit_value (char_of (48 + n :: nat)) = n"
  by (simp add: digit_value_def)

lemma digits_value_snoc: "digits_value (s @ [c]) = 10 * digits_value s + digit_value c"
  by (simp add: digits_value_def)

lemma show_nat_nonempty [simp]: "show_nat n \<noteq> []"
  by (subst show_nat.simps) simp

lemma show_nat_digits: "list_all is_digit (show_nat n)"
proof (induction n rule: show_nat.induct)
  case (1 n)
  then show ?case
    by (subst show_nat.simps) (simp add: is_digit_of_nat)
qed

lemma digits_value_show_nat [simp]: "digits_value (show_nat n) = n"
proof (induction n rule: show_nat.induct)
  case (1 n)
  show ?case
  proof (cases "n < 10")
    case True
    then show ?thesis
      by (subst show_nat.simps) (simp add: digits_value_def digit_value_of_nat)
  next
    case False
    with 1 show ?thesis
      by (subst show_nat.simps) (simp add: digits_value_snoc digit_value_of_nat)
  qed
qed

lemma show_nat_inj: "show_nat m = show_nat n \<Longrightarrow> m = n"
  by (metis digits_value_show_nat)

lemma hd_show_nat: "show_nat n = c # cs \<Longrightarrow> is_digit c"
  using show_nat_digits [of n] by simp

lemma show_int_inj: "show_int i = show_int j \<Longrightarrow> i = j"
proof -
  assume eq: "show_int i = show_int j"
  have neq: "CHR ''-'' # s \<noteq> show_nat n" for s n
    using hd_show_nat [of n "CHR ''-''" s] by (auto simp: is_digit_def less_eq_char_def)
  then show "i = j"
    using eq by (auto simp: show_int_def split: if_splits dest!: show_nat_inj) (metis neq)+
qed

lemma go_atoi_show_int: "int64_range i \<Longrightarrow> go_atoi (show_int i) = Some i"
proof (cases "i < 0")
  case True
  assume "int64_range i"
  with True show ?thesis
    by (simp add: go_atoi_def show_int_def show_nat_digits)
next
  case False
  assume r: "int64_range i"
  obtain c cs where s: "show_nat (nat i) = c # cs"
    by (cases "show_nat (nat i)") auto
  then have "is_digit c" by (rule hd_show_nat)
  then have "c \<noteq> CHR ''-''" "c \<noteq> CHR ''+''"
    by (auto simp: is_digit_def less_eq_char_def)
  moreover have "list_all is_digit (c # cs)" "digits_value (c # cs) = nat i"
    using show_nat_digits [of "nat i"] digits_value_show_nat [of "nat i"] by (simp_all add: s)
  ultimately show ?thesis
    using False r by (simp add: go_atoi_def show_int_def s)
qed

section \<open>Errors\<close>

text \<open>
  An error is a value. \<open>Errorf f args cause\<close> is fmt.Errorf: the format string of the source with
  its arguments, and the error wrapped with %w when there is one. \<open>Join\<close> is errors.Join of errors
  that are not nil. The other forms are the errors the source tests for or creates itself;
  \<open>Foreign\<close> is any other error of a library. The Go value nil is \<open>None\<close> of \<open>err option\<close>.
\<close>

datatype fmt_arg = Str string | Num int | Type_of_value

datatype err =
    Errorf string "fmt_arg list" "err option"
  | Join "err list"
  | Sqlite_Error int
  | Not_Supported string string "fmt_arg list"
  | Err_No_Rows
  | Err_Tx_Done
  | Err_Canceled
  | Err_Deadline
  | Err_EOF
  | Err_Table_Read_Profile
  | Err_Nil_Sql_DB
  | Err_Not_Implemented_Yet
  | Foreign nat

abbreviation Wrapf :: "string \<Rightarrow> fmt_arg list \<Rightarrow> err \<Rightarrow> err" where
  "Wrapf f args e \<equiv> Errorf f args (Some e)"

abbreviation Newf :: "string \<Rightarrow> fmt_arg list \<Rightarrow> err" where
  "Newf f args \<equiv> Errorf f args None"

text \<open>errors.Is: the target occurs in the tree that Unwrap spans, searched depth first.\<close>

fun errors_is :: "err \<Rightarrow> err \<Rightarrow> bool" where
  "errors_is (Errorf f args None) t = (Errorf f args None = t)"
| "errors_is (Errorf f args (Some e)) t = (Errorf f args (Some e) = t \<or> errors_is e t)"
| "errors_is (Join es) t = (Join es = t \<or> list_ex (\<lambda>e. errors_is e t) es)"
| "errors_is e t = (e = t)"

text \<open>errors.As for a *sqlite.Error: the code of the first one in the same depth-first order.\<close>

fun errors_as_sqlite :: "err \<Rightarrow> int option" where
  "errors_as_sqlite (Sqlite_Error code) = Some code"
| "errors_as_sqlite (Errorf f args None) = None"
| "errors_as_sqlite (Errorf f args (Some e)) = errors_as_sqlite e"
| "errors_as_sqlite (Join es) =
     foldr (\<lambda>r acc. case r of Some code \<Rightarrow> Some code | None \<Rightarrow> acc) (map errors_as_sqlite es) None"
| "errors_as_sqlite _ = None"

text \<open>errors.Join drops the nil errors and is nil when nothing is left.\<close>

definition errors_join :: "err option list \<Rightarrow> err option" where
  "errors_join es = (case List.map_filter id es of [] \<Rightarrow> None | xs \<Rightarrow> Some (Join xs))"

lemma errors_join_None_iff [go_error]: "errors_join es = None \<longleftrightarrow> (\<forall>e \<in> set es. e = None)"
  by (induction es) (auto simp: errors_join_def List.map_filter_simps split: list.splits option.splits)

lemma map_filter_id_Some: "Some e \<in> set es \<Longrightarrow> e \<in> set (List.map_filter id es)"
  by (force simp: List.map_filter_def)

lemma errors_join_keeps [go_error]:
  assumes "Some e \<in> set es"
  shows "\<exists>j. errors_join es = Some (Join j) \<and> e \<in> set j"
proof -
  have "e \<in> set (List.map_filter id es)"
    using assms by (rule map_filter_id_Some)
  then show ?thesis
    by (auto simp: errors_join_def split: list.splits)
qed

lemma errors_is_refl [simp, go_error]: "errors_is e e"
  by (cases "(e, e)" rule: errors_is.cases) auto

lemma errors_is_wrap [go_error]: "errors_is (Wrapf f args e) t \<longleftrightarrow> Wrapf f args e = t \<or> errors_is e t"
  by simp

lemma errors_is_joined [go_error]: "e \<in> set es \<Longrightarrow> errors_is e t \<Longrightarrow> errors_is (Join es) t"
  by (auto simp: list_ex_iff)

section \<open>Results\<close>

text \<open>
  A function of the source that returns a value and an error is a sum: \<open>Inl\<close> the error, \<open>Inr\<close> the
  value. A loop that builds a slice and returns on the first error is \<open>map_result\<close>.
\<close>

fun map_result :: "('a \<Rightarrow> err + 'b) \<Rightarrow> 'a list \<Rightarrow> err + 'b list" where
  "map_result f [] = Inr []"
| "map_result f (x # xs) =
     (case f x of
        Inl e \<Rightarrow> Inl e
      | Inr y \<Rightarrow> (case map_result f xs of Inl e \<Rightarrow> Inl e | Inr ys \<Rightarrow> Inr (y # ys)))"

lemma map_result_Cons_Inr:
  "map_result f (x # xs) = Inr ys \<longleftrightarrow>
     (\<exists>y zs. ys = y # zs \<and> f x = Inr y \<and> map_result f xs = Inr zs)"
  by (auto split: sum.splits)

lemma map_result_Cons_Inl:
  "map_result f (x # xs) = Inl e \<longleftrightarrow> f x = Inl e \<or> (\<exists>y. f x = Inr y) \<and> map_result f xs = Inl e"
  by (auto split: sum.splits)

declare map_result.simps(2) [simp del]

lemma map_result_Inr_iff: "map_result f xs = Inr ys \<longleftrightarrow> list_all2 (\<lambda>x y. f x = Inr y) xs ys"
  by (induction xs arbitrary: ys) (auto simp: map_result_Cons_Inr list_all2_Cons1)

lemma map_result_total: "(\<And>x. x \<in> set xs \<Longrightarrow> f x = Inr (g x)) \<Longrightarrow> map_result f xs = Inr (map g xs)"
  by (induction xs) (auto simp: map_result_Cons_Inr)

text \<open>
  \<open>x, err := r; if err != nil { return err }; f(x)\<close>, and the wrapping of an error on its way out.
\<close>

definition result_bind :: "err + 'a \<Rightarrow> ('a \<Rightarrow> err + 'b) \<Rightarrow> err + 'b" where
  "result_bind r f = (case r of Inl e \<Rightarrow> Inl e | Inr x \<Rightarrow> f x)"

definition result_wrap :: "string \<Rightarrow> fmt_arg list \<Rightarrow> err + 'a \<Rightarrow> err + 'a" where
  "result_wrap f args r = (case r of Inl e \<Rightarrow> Inl (Wrapf f args e) | Inr x \<Rightarrow> Inr x)"

lemma result_simps [simp]:
  "result_bind (Inl e) f = Inl e" "result_bind (Inr x) f = f x"
  "result_wrap fm args (Inl e) = Inl (Wrapf fm args e)" "result_wrap fm args (Inr x) = Inr x"
  by (simp_all add: result_bind_def result_wrap_def)

lemma result_bind_Inr_iff: "result_bind r f = Inr y \<longleftrightarrow> (\<exists>x. r = Inr x \<and> f x = Inr y)"
  by (cases r) simp_all

text \<open>The first element with a property, as a split of the list.\<close>

definition first_split :: "('a \<Rightarrow> bool) \<Rightarrow> ('a \<Rightarrow> bool) \<Rightarrow> 'a list \<Rightarrow> bool" where
  "first_split P Q xs \<longleftrightarrow> (\<exists>ys x zs. xs = ys @ x # zs \<and> list_all P ys \<and> Q x)"

lemma first_split_Nil [simp]: "\<not> first_split P Q []"
  by (simp add: first_split_def)

lemma first_split_Cons [simp]: "first_split P Q (x # xs) \<longleftrightarrow> Q x \<or> P x \<and> first_split P Q xs"
proof
  assume "first_split P Q (x # xs)"
  then obtain ys y zs where eq: "x # xs = ys @ y # zs" and "list_all P ys" "Q y"
    unfolding first_split_def by blast
  then show "Q x \<or> P x \<and> first_split P Q xs"
    unfolding first_split_def by (cases ys) auto
next
  assume "Q x \<or> P x \<and> first_split P Q xs"
  then show "first_split P Q (x # xs)"
  proof
    assume "Q x"
    then have "x # xs = [] @ x # xs \<and> list_all P [] \<and> Q x" by simp
    then show ?thesis unfolding first_split_def by blast
  next
    assume "P x \<and> first_split P Q xs"
    then obtain ys y zs where "x # xs = (x # ys) @ y # zs \<and> list_all P (x # ys) \<and> Q y"
      unfolding first_split_def by auto
    then show ?thesis unfolding first_split_def by blast
  qed
qed

lemma map_result_Inl:
  "map_result f xs = Inl e \<longleftrightarrow> first_split (\<lambda>y. \<exists>r. f y = Inr r) (\<lambda>x. f x = Inl e) xs"
  by (induction xs) (auto simp: map_result_Cons_Inl)

lemma map_result_length: "map_result f xs = Inr ys \<Longrightarrow> length ys = length xs"
  by (auto simp: map_result_Inr_iff dest: list_all2_lengthD)

end
