(* ===== verification/Db_Types.thy ===== *)
theory Db_Types
  imports Go_Prelude
begin

text \<open>
  The data the driver exchanges with its callers: the portable schema of package dbschema, the
  options of package ddl and the collection references of package dal. These packages are not
  part of this repository; what follows is only the shape of the values, with the fields that the
  driver reads or writes. A nil slice and an empty one are the same list here.
\<close>

text \<open>
  dbschema.Type is an integer type with eight named values; \<open>Type_Other\<close> is any further integer,
  which the driver answers with "unknown dbschema.Type".
\<close>

datatype db_type =
    Type_Null | Type_Bool | Type_Int | Type_Float | Type_String | Type_Bytes | Type_Time
  | Type_Decimal | Type_Other int

record precision =
  prec_Total :: int
  prec_Scale :: int

record field_def =
  fd_Name :: string
  fd_Type :: db_type
  fd_Precision :: "precision option"
  fd_Nullable :: bool
  fd_AutoIncrement :: bool

record index_def =
  ix_Name :: string
  ix_Collection :: string
  ix_Fields :: "string list"
  ix_Unique :: bool

datatype enforcement = Enforcement_Disabled | Enforcement_Enabled

record foreign_key_def =
  fk_Name :: string
  fk_Fields :: "string list"
  fk_ReferencedCollection :: string
  fk_ReferencedFields :: "string list"
  fk_Enforcement :: enforcement
  fk_OnUpdate :: string
  fk_OnDelete :: string

record source_column_def =
  sc_Name :: string
  sc_DeclaredType :: string
  sc_NotNull :: bool
  sc_PrimaryKeyPosition :: int
  sc_DefaultSQL :: "string option"

record source_index_column_def =
  st_Position :: int
  st_Name :: "string option"
  st_Descending :: bool
  st_Collation :: string
  st_Key :: bool

record source_index_def =
  si_Name :: string
  si_Origin :: string
  si_Unique :: bool
  si_Partial :: bool
  si_CreateSQL :: string
  si_Columns :: "source_index_column_def list"

record source_definition =
  sd_Dialect :: string
  sd_CreateSQL :: string
  sd_Columns :: "source_column_def list"
  sd_Indexes :: "source_index_def list"

record collection_def =
  cd_Name :: string
  cd_Fields :: "field_def list"
  cd_PrimaryKey :: "string list"
  cd_Indexes :: "index_def list"
  cd_ForeignKeys :: "foreign_key_def list"
  cd_SourceDefinition :: "source_definition option"

record constraint_def =
  ct_Name :: string
  ct_Type :: string

record referrer =
  rf_Collection :: string
  rf_Fields :: "string list"

record source_view_def =
  sv_Name :: string
  sv_CreateSQL :: string
  sv_Columns :: "string list"

record ddl_options =
  opt_IfNotExists :: bool
  opt_IfExists :: bool

definition no_options :: ddl_options where
  "no_options = \<lparr>opt_IfNotExists = False, opt_IfExists = False\<rparr>"

text \<open>A collection definition with the fields the DDL handlers fill in; the rest is nil.\<close>

definition bare_collection :: "string \<Rightarrow> field_def list \<Rightarrow> string list \<Rightarrow> collection_def" where
  "bare_collection name fs pk =
     \<lparr>cd_Name = name, cd_Fields = fs, cd_PrimaryKey = pk, cd_Indexes = [],
      cd_ForeignKeys = [], cd_SourceDefinition = None\<rparr>"

lemma bare_collection_sel [simp]:
  "cd_Name (bare_collection n fs pk) = n"
  "cd_Fields (bare_collection n fs pk) = fs"
  "cd_PrimaryKey (bare_collection n fs pk) = pk"
  "cd_Indexes (bare_collection n fs pk) = []"
  by (simp_all add: bare_collection_def)

lemma no_options_sel [simp]:
  "\<not> opt_IfNotExists no_options" "\<not> opt_IfExists no_options"
  by (simp_all add: no_options_def)

end
