(* ===== verification/Type_Mapping.thy ===== *)
theory Type_Mapping
  imports Db_Types
begin

text \<open>
  type_mapping.go: the translation between the portable column types and SQLite's declared types,
  sqliteTypeFor for DDL and dbschemaTypeFromSQLite for introspection, with the regular expression
  for NUMERIC(p,s) as a hand-written matcher that is shown to accept exactly its language.
\<close>

section \<open>From a portable type to a declared type\<close>

fun sqliteTypeFor :: "db_type \<Rightarrow> err + string" where
  "sqliteTypeFor Type_Bool = Inr ''INTEGER''"
| "sqliteTypeFor Type_Int = Inr ''INTEGER''"
| "sqliteTypeFor Type_Float = Inr ''REAL''"
| "sqliteTypeFor Type_String = Inr ''TEXT''"
| "sqliteTypeFor Type_Bytes = Inr ''BLOB''"
| "sqliteTypeFor Type_Time = Inr ''TEXT''"
| "sqliteTypeFor Type_Decimal = Inr ''NUMERIC''"
| "sqliteTypeFor Type_Null = Inl (Newf ''dalgo2sqlite: dbschema.Null is not a valid column type'' [])"
| "sqliteTypeFor (Type_Other n) = Inl (Newf ''dalgo2sqlite: unknown dbschema.Type %v'' [Num n])"

section \<open>From a declared type to a portable type\<close>

text \<open>The white space class of Go's regular expressions.\<close>

definition re_space :: "char \<Rightarrow> bool" where
  "re_space c \<longleftrightarrow> c \<in> {CHR 0x09, CHR 0x0A, CHR 0x0C, CHR 0x0D, CHR '' ''}"

definition skip_space :: "string \<Rightarrow> string" where
  "skip_space s = dropWhile re_space s"

definition expect :: "char \<Rightarrow> string \<Rightarrow> string option" where
  "expect c s = (case s of [] \<Rightarrow> None | d # t \<Rightarrow> if d = c then Some t else None)"

definition take_digits :: "string \<Rightarrow> (string \<times> string) option" where
  "take_digits s = (let ds = takeWhile is_digit s
     in if ds = [] then None else Some (ds, dropWhile is_digit s))"

text \<open>
  numericPrecisionRe: the keyword, then "(", digits, ",", digits, ")" with white space allowed in
  between; the result is the two groups of digits.
\<close>

definition numeric_arguments :: "string \<Rightarrow> (string \<times> string) option" where
  "numeric_arguments s =
     Option.bind (expect (CHR ''('') (skip_space s)) (\<lambda>s.
     Option.bind (take_digits (skip_space s)) (\<lambda>(prec, s).
     Option.bind (expect (CHR '','') (skip_space s)) (\<lambda>s.
     Option.bind (take_digits (skip_space s)) (\<lambda>(scale, s).
     if skip_space s = '')'' then Some (prec, scale) else None))))"

definition numericPrecisionRe :: "string \<Rightarrow> (string \<times> string) option" where
  "numericPrecisionRe s =
     (if prefix ''NUMERIC'' s \<or> prefix ''DECIMAL'' s then numeric_arguments (drop 7 s) else None)"

definition dbschemaTypeFromSQLite :: "string \<Rightarrow> db_type \<times> precision option \<times> bool" where
  "dbschemaTypeFromSQLite declared =
     (let upper = go_to_upper (go_trim_space declared);
          substring_branch =
            (if go_contains upper ''INT'' then (Type_Int, None, True)
             else if go_contains upper ''CHAR'' \<or> go_contains upper ''CLOB'' \<or> go_contains upper ''TEXT''
             then (Type_String, None, True)
             else if go_contains upper ''BLOB'' then (Type_Bytes, None, True)
             else if go_contains upper ''REAL'' \<or> go_contains upper ''FLOA'' \<or> go_contains upper ''DOUB''
             then (Type_Float, None, True)
             else if upper = ''NUMERIC'' \<or> upper = ''DECIMAL'' then (Type_Decimal, None, True)
             else (Type_Null, None, False))
      in if upper \<in> {''DATETIME'', ''DATE'', ''TIME'', ''TIMESTAMP''} then (Type_Time, None, True)
         else if upper \<in> {''BOOLEAN'', ''BOOL''} then (Type_Bool, None, True)
         else case numericPrecisionRe upper of
             Some (prec, scale) \<Rightarrow>
               (case (go_atoi prec, go_atoi scale) of
                  (Some t, Some s) \<Rightarrow> (Type_Decimal, Some \<lparr>prec_Total = t, prec_Scale = s\<rparr>, True)
                | _ \<Rightarrow> substring_branch)
           | None \<Rightarrow> substring_branch)"

section \<open>The regular expression\<close>

text \<open>Reading a run of characters of one class stops exactly where the class ends.\<close>

lemma takeWhile_run: "list_all P w \<Longrightarrow> \<not> P c \<Longrightarrow> takeWhile P (w @ c # s) = w"
  by (induction w) auto

lemma dropWhile_run: "list_all P w \<Longrightarrow> \<not> P c \<Longrightarrow> dropWhile P (w @ c # s) = c # s"
  by (induction w) auto

lemma dropWhile_split: "dropWhile P s = t \<Longrightarrow> \<exists>w. s = w @ t \<and> list_all P w"
  by (rule exI [of _ "takeWhile P s"]) (auto simp: list_all_iff dest: set_takeWhileD)

lemma expect_Some_iff: "expect c s = Some t \<longleftrightarrow> s = c # t"
  by (cases s) (auto simp: expect_def)

lemma take_digits_Some:
  "take_digits s = Some (ds, t) \<Longrightarrow> s = ds @ t \<and> ds \<noteq> [] \<and> list_all is_digit ds"
  by (auto simp: take_digits_def Let_def list_all_iff split: if_splits dest: set_takeWhileD)

lemma skip_space_split: "skip_space s = t \<Longrightarrow> \<exists>w. s = w @ t \<and> list_all re_space w"
  unfolding skip_space_def by (rule dropWhile_split)

lemma digit_not_space: "is_digit c \<Longrightarrow> \<not> re_space c"
  by (auto simp: is_digit_def re_space_def less_eq_char_def)

lemma space_not_digit: "re_space c \<Longrightarrow> \<not> is_digit c"
  using digit_not_space by blast

lemma punctuation_class [simp]:
  "\<not> re_space CHR ''(''" "\<not> re_space CHR '',''" "\<not> re_space CHR '')''"
  "\<not> is_digit CHR ''(''" "\<not> is_digit CHR '',''" "\<not> is_digit CHR '')''"
  by (auto simp: is_digit_def re_space_def less_eq_char_def)

lemma skip_space_run: "list_all re_space w \<Longrightarrow> \<not> re_space c \<Longrightarrow> skip_space (w @ c # s) = c # s"
  unfolding skip_space_def by (rule dropWhile_run)

lemma skip_space_digits:
  assumes "list_all re_space w" "ds \<noteq> []" "list_all is_digit ds"
  shows "skip_space (w @ ds @ s) = ds @ s"
proof -
  obtain d ds' where "ds = d # ds'" using assms(2) by (cases ds) auto
  then show ?thesis
    using assms digit_not_space by (auto simp: skip_space_run)
qed

lemma take_digits_run:
  assumes "ds \<noteq> []" "list_all is_digit ds" "list_all re_space w" "\<not> is_digit c"
  shows "take_digits (ds @ w @ c # s) = Some (ds, w @ c # s)"
proof -
  have "takeWhile is_digit (ds @ w @ c # s) = ds \<and> dropWhile is_digit (ds @ w @ c # s) = w @ c # s"
  proof (cases w)
    case Nil
    then show ?thesis using assms by (simp add: takeWhile_run dropWhile_run)
  next
    case (Cons x w')
    then have "\<not> is_digit x" using assms(3) space_not_digit by simp
    then show ?thesis
      using assms Cons by (simp add: takeWhile_run dropWhile_run)
  qed
  then show ?thesis using assms(1) by (simp add: take_digits_def)
qed

definition numeric_argument_text :: "string \<Rightarrow> string \<Rightarrow> string \<Rightarrow> bool" where
  "numeric_argument_text s prec scale \<longleftrightarrow>
     (\<exists>w1 w2 w3 w4 w5.
        s = w1 @ ''('' @ w2 @ prec @ w3 @ '','' @ w4 @ scale @ w5 @ '')'' \<and>
        list_all (list_all re_space) [w1, w2, w3, w4, w5] \<and>
        prec \<noteq> [] \<and> list_all is_digit prec \<and> scale \<noteq> [] \<and> list_all is_digit scale)"

lemma numeric_arguments_sound:
  assumes "numeric_arguments s = Some (prec, scale)"
  shows "numeric_argument_text s prec scale"
proof -
  from assms obtain s1 s2 s3 s4 where
    a: "skip_space s = ''('' @ s1" and b: "take_digits (skip_space s1) = Some (prec, s2)" and
    c: "skip_space s2 = '','' @ s3" and d: "take_digits (skip_space s3) = Some (scale, s4)" and
    e: "skip_space s4 = '')''"
    by (auto simp: numeric_arguments_def bind_eq_Some_conv expect_Some_iff split: if_splits)
  from take_digits_Some [OF b] take_digits_Some [OF d]
  have bb: "skip_space s1 = prec @ s2" "prec \<noteq> []" "list_all is_digit prec"
    and dd: "skip_space s3 = scale @ s4" "scale \<noteq> []" "list_all is_digit scale" by auto
  obtain w1 w2 w3 w4 w5 where
    "s = w1 @ ''('' @ s1" "list_all re_space w1" "s1 = w2 @ prec @ s2" "list_all re_space w2"
    "s2 = w3 @ '','' @ s3" "list_all re_space w3" "s3 = w4 @ scale @ s4" "list_all re_space w4"
    "s4 = w5 @ '')''" "list_all re_space w5"
    using skip_space_split [OF a] skip_space_split [OF bb(1)] skip_space_split [OF c]
      skip_space_split [OF dd(1)] skip_space_split [OF e] by metis
  then show ?thesis
    unfolding numeric_argument_text_def using bb dd
    by (intro exI [of _ w1] exI [of _ w2] exI [of _ w3] exI [of _ w4] exI [of _ w5]) simp
qed

lemma numeric_arguments_complete:
  assumes "numeric_argument_text s prec scale"
  shows "numeric_arguments s = Some (prec, scale)"
proof -
  from assms obtain w1 w2 w3 w4 w5 where
    s: "s = w1 @ CHR ''('' # w2 @ prec @ w3 @ CHR '','' # w4 @ scale @ w5 @ [CHR '')'']" and
    w: "list_all re_space w1" "list_all re_space w2" "list_all re_space w3" "list_all re_space w4"
      "list_all re_space w5" and
    d: "prec \<noteq> []" "list_all is_digit prec" "scale \<noteq> []" "list_all is_digit scale"
    by (auto simp: numeric_argument_text_def)
  have "skip_space (w5 @ '')'') = '')''"
    using skip_space_run [OF w(5), of "CHR '')''" "[]"] by simp
  then show ?thesis
    unfolding s numeric_arguments_def
    by (simp add: skip_space_run skip_space_digits take_digits_run expect_def w d)
qed

lemma numeric_arguments_iff:
  "numeric_arguments s = Some (prec, scale) \<longleftrightarrow> numeric_argument_text s prec scale"
  using numeric_arguments_sound numeric_arguments_complete by blast

section \<open>What a declared type is read as\<close>

text \<open>A run of letters cannot reach into text that has none of them.\<close>

lemma sublist_letters_append:
  assumes "sublist sub (a @ b)" "sub \<noteq> []" "set sub \<inter> set b = {}"
  shows "sublist sub a"
proof -
  from assms(1) obtain p q where pq: "a @ b = p @ sub @ q" by (auto simp: sublist_def)
  then obtain us where "a = p @ us \<and> us @ b = sub @ q \<or> a @ us = p \<and> b = us @ sub @ q"
    by (auto simp: append_eq_append_conv2)
  then show ?thesis
  proof (elim disjE conjE)
    assume a: "a = p @ us" and us: "us @ b = sub @ q"
    then obtain vs where v: "us = sub @ vs \<and> vs @ b = q \<or> us @ vs = sub \<and> b = vs @ q"
      by (auto simp: append_eq_append_conv2)
    then have "us @ vs = sub \<longrightarrow> b = vs @ q \<longrightarrow> vs = []"
      using assms(3) by (cases vs) auto
    with v have "\<exists>vs. us = sub @ vs" by auto
    with a show ?thesis by (auto simp: sublist_def)
  next
    assume "b = us @ sub @ q"
    then show ?thesis using assms(2,3) by (cases sub) auto
  qed
qed

lemma numeric_argument_text_chars:
  assumes "numeric_argument_text t p q"
  shows "set t \<inter> set ''ABCDEFGHIJKLMNOPQRSTUVWXYZ'' = {}" and "last t = CHR '')''" and "t \<noteq> []"
proof -
  have d: "is_digit c \<Longrightarrow> c \<notin> set ''ABCDEFGHIJKLMNOPQRSTUVWXYZ''" for c
    by (auto simp: is_digit_def less_eq_char_def)
  have w: "re_space c \<Longrightarrow> c \<notin> set ''ABCDEFGHIJKLMNOPQRSTUVWXYZ''" for c
    by (auto simp: re_space_def)
  have punct: "set ''(,)'' \<inter> set ''ABCDEFGHIJKLMNOPQRSTUVWXYZ'' = {}"
    by simp
  from assms obtain w1 w2 w3 w4 w5 where
    body: "t = w1 @ ''('' @ w2 @ p @ w3 @ '','' @ w4 @ q @ w5 @ '')''" and
    cls: "\<forall>c \<in> set (w1 @ w2 @ w3 @ w4 @ w5). re_space c" "\<forall>c \<in> set (p @ q). is_digit c"
    unfolding numeric_argument_text_def list_all_iff by (auto simp: ball_Un)
  have t: "set t \<subseteq> set (w1 @ w2 @ w3 @ w4 @ w5) \<union> set (p @ q) \<union> set ''(,)''"
    unfolding body by auto
  show "set t \<inter> set ''ABCDEFGHIJKLMNOPQRSTUVWXYZ'' = {}"
    using punct cls d w t by blast
  show "last t = CHR '')''" "t \<noteq> []"
    using assms unfolding numeric_argument_text_def by auto
qed

lemma numericPrecisionRe_text:
  "numericPrecisionRe s = Some (p, q) \<longleftrightarrow>
     (\<exists>t. (s = ''NUMERIC'' @ t \<or> s = ''DECIMAL'' @ t) \<and> numeric_argument_text t p q)"
  by (auto simp: numericPrecisionRe_def numeric_arguments_iff prefix_def split: if_splits)

text \<open>No keyword of the substring branch occurs in a text that the expression accepts.\<close>

lemma numeric_not_substring:
  assumes "numericPrecisionRe s = Some (p, q)" and "sub \<noteq> []"
    and "set sub \<subseteq> set ''ABCDEFGHIJKLMNOPQRSTUVWXYZ''"
    and "\<not> go_contains ''NUMERIC'' sub" and "\<not> go_contains ''DECIMAL'' sub"
  shows "\<not> go_contains s sub"
proof -
  from assms(1) obtain kw t where s: "s = kw @ t" and kw: "kw \<in> {''NUMERIC'', ''DECIMAL''}"
    and t: "numeric_argument_text t p q"
    unfolding numericPrecisionRe_text by blast
  have "set sub \<inter> set t = {}"
    using numeric_argument_text_chars(1) [OF t] assms(3) by blast
  then have "sublist sub s \<Longrightarrow> sublist sub kw"
    unfolding s using sublist_letters_append assms(2) by blast
  then show ?thesis
    using kw assms(4,5) by (auto simp: go_contains_iff)
qed

lemma numeric_not_keyword:
  assumes "numericPrecisionRe s = Some (p, q)" and "w = [] \<or> last w \<noteq> CHR '')''"
  shows "s \<noteq> w"
proof -
  from assms(1) obtain kw t where "s = kw @ t" "numeric_argument_text t p q"
    unfolding numericPrecisionRe_text by blast
  then have "last s = CHR '')''" "s \<noteq> []"
    using numeric_argument_text_chars(2,3) by auto
  with assms(2) show ?thesis by auto
qed

text \<open>C37: the matcher for numericPrecisionRe accepts exactly the texts of the regular expression
  and returns its two groups: the keyword NUMERIC or DECIMAL, then two runs of digits in
  parentheses separated by a comma, with white space allowed at the five places the source
  writes \s*.\<close>

theorem numericPrecisionRe_language:
  "numericPrecisionRe s = Some (p, q) \<longleftrightarrow>
     (\<exists>kw w1 w2 w3 w4 w5.
        (kw = ''NUMERIC'' \<or> kw = ''DECIMAL'') \<and>
        s = kw @ w1 @ ''('' @ w2 @ p @ w3 @ '','' @ w4 @ q @ w5 @ '')'' \<and>
        list_all (list_all re_space) [w1, w2, w3, w4, w5] \<and>
        p \<noteq> [] \<and> list_all is_digit p \<and> q \<noteq> [] \<and> list_all is_digit q)"
  unfolding numericPrecisionRe_text numeric_argument_text_def by blast

text \<open>A declared NUMERIC(p,s) or DECIMAL(p,s) is the portable type Decimal with that precision
  when both numbers fit a 64-bit int; when one does not, the type is unrecognized, since no branch
  after the failed conversion accepts the text.\<close>

theorem numeric_declaration_type:
  assumes "numericPrecisionRe (go_to_upper (go_trim_space declared)) = Some (p, q)"
  shows "dbschemaTypeFromSQLite declared =
    (case (go_atoi p, go_atoi q) of
       (Some t, Some s) \<Rightarrow> (Type_Decimal, Some \<lparr>prec_Total = t, prec_Scale = s\<rparr>, True)
     | _ \<Rightarrow> (Type_Null, None, False))"
proof -
  note sub = numeric_not_substring [OF assms] and key = numeric_not_keyword [OF assms]
  have "\<not> go_contains (go_to_upper (go_trim_space declared)) w"
    if "w \<in> {''INT'', ''CHAR'', ''CLOB'', ''TEXT'', ''BLOB'', ''REAL'', ''FLOA'', ''DOUB''}" for w
    using that by (elim insertE; simp add: sub)
  moreover have "go_to_upper (go_trim_space declared) \<noteq> w"
    if "w \<in> {''DATETIME'', ''DATE'', ''TIME'', ''TIMESTAMP'', ''BOOLEAN'', ''BOOL'', ''NUMERIC'', ''DECIMAL''}" for w
    using that by (elim insertE; simp add: key)
  ultimately show ?thesis
    using assms by (simp add: dbschemaTypeFromSQLite_def Let_def split: option.splits)
qed

theorem numeric_declaration_type_witness:
  "dbschemaTypeFromSQLite '' numeric( 10 ,2)'' =
     (Type_Decimal, Some \<lparr>prec_Total = 10, prec_Scale = 2\<rparr>, True) \<and>
   dbschemaTypeFromSQLite ''DECIMAL(9223372036854775808,0)'' = (Type_Null, None, False)"
proof
  have re: "numericPrecisionRe (go_to_upper (go_trim_space '' numeric( 10 ,2)'')) = Some (''10'', ''2'')"
    by code_simp
  have n: "go_atoi ''10'' = Some 10" "go_atoi ''2'' = Some 2"
    by (simp_all add: go_atoi_def digits_value_def digit_value_def is_digit_def less_eq_char_def
      int64_range_def)
  show "dbschemaTypeFromSQLite '' numeric( 10 ,2)'' =
     (Type_Decimal, Some \<lparr>prec_Total = 10, prec_Scale = 2\<rparr>, True)"
    by (simp add: numeric_declaration_type [OF re] n)
next
  have re: "numericPrecisionRe (go_to_upper (go_trim_space ''DECIMAL(9223372036854775808,0)'')) =
    Some (''9223372036854775808'', ''0'')"
    by code_simp
  have n: "go_atoi ''9223372036854775808'' = None"
    by (simp add: go_atoi_def digits_value_def digit_value_def int64_range_def)
  show "dbschemaTypeFromSQLite ''DECIMAL(9223372036854775808,0)'' = (Type_Null, None, False)"
    by (simp add: numeric_declaration_type [OF re] n)
qed

text \<open>The portable type that a column declared by the DDL layer reads back as.\<close>

fun read_back :: "db_type \<Rightarrow> db_type" where
  "read_back Type_Bool = Type_Int"
| "read_back Type_Time = Type_String"
| "read_back t = t"

lemma declared_types_read:
  "dbschemaTypeFromSQLite ''INTEGER'' = (Type_Int, None, True)"
  "dbschemaTypeFromSQLite ''REAL'' = (Type_Float, None, True)"
  "dbschemaTypeFromSQLite ''TEXT'' = (Type_String, None, True)"
  "dbschemaTypeFromSQLite ''BLOB'' = (Type_Bytes, None, True)"
  "dbschemaTypeFromSQLite ''NUMERIC'' = (Type_Decimal, None, True)"
  by (simp_all add: dbschemaTypeFromSQLite_def go_trim_space_letters caseless_def less_eq_char_def
    ascii_upper_def numericPrecisionRe_def numeric_arguments_def skip_space_def expect_def)

lemma sqliteTypeFor_read_back:
  "sqliteTypeFor t = Inr s \<Longrightarrow> dbschemaTypeFromSQLite s = (read_back t, None, True)"
  by (cases t) (auto simp: declared_types_read)

text \<open>C25: every declared type the DDL layer emits is recognized on introspection, without a
  precision. It is read back as the portable type it came from, except that Bool comes back as Int
  and Time as String: SQLite stores neither, and only the marker table restores Time.\<close>

theorem type_round_trip:
  assumes "sqliteTypeFor t = Inr s"
  shows "dbschemaTypeFromSQLite s =
    (if t = Type_Bool then Type_Int else if t = Type_Time then Type_String else t, None, True)"
  using sqliteTypeFor_read_back [OF assms] assms by (cases t) auto

theorem type_round_trip_witness:
  "dbschemaTypeFromSQLite ''NUMERIC'' = (Type_Decimal, None, True) \<and>
   dbschemaTypeFromSQLite ''INTEGER'' = (Type_Int, None, True)"
  using type_round_trip [of Type_Decimal "''NUMERIC''"] type_round_trip [of Type_Bool "''INTEGER''"]
  by simp

text \<open>the letter case of a declared type never matters.\<close>

theorem declared_type_case_insensitive:
  "dbschemaTypeFromSQLite (map ascii_lower declared) = dbschemaTypeFromSQLite declared"
  by (simp add: dbschemaTypeFromSQLite_def go_trim_space_lower go_to_upper_lower)

end
