(* ===== verification/Sql_Gen.thy ===== *)
theory Sql_Gen
  imports Type_Mapping
begin

text \<open>
  sql_gen.go: the SQL text of each DDL statement, built from a collection, index or field
  definition. The functions return text or an error and touch no state. Theory Sql_Text reads the
  text back.
\<close>

definition quoteIdentifier :: "string \<Rightarrow> string" where
  "quoteIdentifier name = ''\"'' @ go_replace_byte (CHR ''\"'') ''\"\"'' name @ ''\"''"

fun fieldHasAutoIncIntPK :: "field_def list \<Rightarrow> string \<Rightarrow> bool" where
  "fieldHasAutoIncIntPK [] name = False"
| "fieldHasAutoIncIntPK (f # fs) name =
     (if fd_Name f = name then fd_Type f = Type_Int \<and> fd_AutoIncrement f
      else fieldHasAutoIncIntPK fs name)"

definition buildColumnDecl :: "field_def \<Rightarrow> bool \<Rightarrow> bool \<Rightarrow> bool \<Rightarrow> err + string" where
  "buildColumnDecl f inlinePK compositePK inPK =
     (case sqliteTypeFor (fd_Type f) of
        Inl e \<Rightarrow> Inl (Wrapf ''dalgo2sqlite: field %q: %w'' [Str (fd_Name f)] e)
      | Inr sqlType \<Rightarrow>
          let parts = [quoteIdentifier (fd_Name f), sqlType]
          in if inlinePK
             then Inr (go_join '' '' (parts @ [''PRIMARY KEY''] @
                    (if fd_AutoIncrement f then [''AUTOINCREMENT''] else [])))
             else
               let emitNotNull = \<not> fd_Nullable f \<and> (\<not> compositePK \<or> inPK)
               in Inr (go_join '' '' (parts @ (if emitNotNull then [''NOT NULL''] else []))))"

definition has_inline_pk :: "collection_def \<Rightarrow> bool" where
  "has_inline_pk c \<longleftrightarrow>
     length (cd_PrimaryKey c) = 1 \<and> fieldHasAutoIncIntPK (cd_Fields c) (cd_PrimaryKey c ! 0)"

definition has_composite_pk :: "collection_def \<Rightarrow> bool" where
  "has_composite_pk c \<longleftrightarrow> length (cd_PrimaryKey c) > 1"

definition buildCreateTableSQL :: "collection_def \<Rightarrow> ddl_options \<Rightarrow> err + string" where
  "buildCreateTableSQL c opts =
     (let inlinePK = has_inline_pk c;
          compositePK = has_composite_pk c;
          pkSet = set (cd_PrimaryKey c)
      in case map_result
           (\<lambda>f. buildColumnDecl f (inlinePK \<and> fd_Name f = cd_PrimaryKey c ! 0) compositePK
                  (fd_Name f \<in> pkSet)) (cd_Fields c) of
           Inl e \<Rightarrow> Inl e
         | Inr columns \<Rightarrow>
             let parts = columns @
                   (if \<not> inlinePK \<and> cd_PrimaryKey c \<noteq> []
                    then [''PRIMARY KEY ('' @ go_join '', '' (map quoteIdentifier (cd_PrimaryKey c)) @ '')'']
                    else [])
             in Inr (''CREATE TABLE '' @
                     (if opt_IfNotExists opts then ''IF NOT EXISTS '' else []) @
                     quoteIdentifier (cd_Name c) @ '' ('' @ go_join '', '' parts @ '')''))"

definition buildCreateIndexSQL :: "index_def \<Rightarrow> ddl_options \<Rightarrow> err + string" where
  "buildCreateIndexSQL idx opts =
     (if ix_Name idx = [] then Inl (Newf ''dalgo2sqlite: index name cannot be empty'' [])
      else if ix_Collection idx = []
      then Inl (Newf ''dalgo2sqlite: index %q: collection cannot be empty'' [Str (ix_Name idx)])
      else if ix_Fields idx = []
      then Inl (Newf ''dalgo2sqlite: index %q: must have at least one field'' [Str (ix_Name idx)])
      else Inr (''CREATE '' @ (if ix_Unique idx then ''UNIQUE '' else []) @ ''INDEX '' @
                (if opt_IfNotExists opts then ''IF NOT EXISTS '' else []) @
                quoteIdentifier (ix_Name idx) @ '' ON '' @ quoteIdentifier (ix_Collection idx) @
                '' ('' @ go_join '', '' (map quoteIdentifier (ix_Fields idx)) @ '')''))"

definition buildDropTableSQL :: "string \<Rightarrow> ddl_options \<Rightarrow> string" where
  "buildDropTableSQL name opts =
     (if opt_IfExists opts then ''DROP TABLE IF EXISTS '' @ quoteIdentifier name
      else ''DROP TABLE '' @ quoteIdentifier name)"

definition buildDropIndexSQL :: "string \<Rightarrow> ddl_options \<Rightarrow> string" where
  "buildDropIndexSQL name opts =
     (if opt_IfExists opts then ''DROP INDEX IF EXISTS '' @ quoteIdentifier name
      else ''DROP INDEX '' @ quoteIdentifier name)"

definition buildAlterTableAddColumnSQL :: "string \<Rightarrow> field_def \<Rightarrow> err + string" where
  "buildAlterTableAddColumnSQL table f =
     (case buildColumnDecl f False False False of
        Inl e \<Rightarrow> Inl e
      | Inr colDecl \<Rightarrow>
          Inr (''ALTER TABLE '' @ quoteIdentifier table @ '' ADD COLUMN '' @ colDecl))"

definition buildAlterTableDropColumnSQL :: "string \<Rightarrow> string \<Rightarrow> string" where
  "buildAlterTableDropColumnSQL table col =
     ''ALTER TABLE '' @ quoteIdentifier table @ '' DROP COLUMN '' @ quoteIdentifier col"

definition buildAlterTableRenameColumnSQL :: "string \<Rightarrow> string \<Rightarrow> string \<Rightarrow> string" where
  "buildAlterTableRenameColumnSQL table oldName newName =
     ''ALTER TABLE '' @ quoteIdentifier table @ '' RENAME COLUMN '' @ quoteIdentifier oldName @
     '' TO '' @ quoteIdentifier newName"

section \<open>When a statement can be built\<close>

lemma sqliteTypeFor_total:
  "sqliteTypeFor t = Inl e \<Longrightarrow> t = Type_Null \<or> (\<exists>n. t = Type_Other n)"
  by (cases t) auto

lemma buildColumnDecl_error:
  "buildColumnDecl f i k p = Inl e \<longleftrightarrow>
     (\<exists>e'. sqliteTypeFor (fd_Type f) = Inl e' \<and>
        e = Wrapf ''dalgo2sqlite: field %q: %w'' [Str (fd_Name f)] e')"
  by (auto simp: buildColumnDecl_def Let_def split: sum.splits)

text \<open>CreateTable text is refused exactly when some field has no column type (Null, or a value
  that is not a portable type), and the error names the first such field and wraps its type error;
  no other input is refused.\<close>

theorem create_table_refusal:
  "buildCreateTableSQL c opts = Inl e \<longleftrightarrow>
     (\<exists>before f after e'. cd_Fields c = before @ f # after \<and>
        list_all (\<lambda>g. \<exists>ty. sqliteTypeFor (fd_Type g) = Inr ty) before \<and>
        sqliteTypeFor (fd_Type f) = Inl e' \<and>
        e = Wrapf ''dalgo2sqlite: field %q: %w'' [Str (fd_Name f)] e')"
proof -
  have ok: "(\<exists>r. buildColumnDecl g i k p = Inr r) \<longleftrightarrow> (\<exists>ty. sqliteTypeFor (fd_Type g) = Inr ty)"
    for g i k p
    by (auto simp: buildColumnDecl_def Let_def split: sum.splits)
  have "buildCreateTableSQL c opts = Inl e \<longleftrightarrow>
     map_result (\<lambda>f. buildColumnDecl f (has_inline_pk c \<and> fd_Name f = cd_PrimaryKey c ! 0)
       (has_composite_pk c) (fd_Name f \<in> set (cd_PrimaryKey c))) (cd_Fields c) = Inl e"
    by (auto simp: buildCreateTableSQL_def Let_def split: sum.splits)
  then show ?thesis
    unfolding map_result_Inl first_split_def by (simp only: ok buildColumnDecl_error) blast
qed

text \<open>an index statement is refused exactly when its name, its collection or its field list is
  empty, checked in that order; otherwise its text is total.\<close>

theorem create_index_refusal:
  "(\<exists>e. buildCreateIndexSQL idx opts = Inl e) \<longleftrightarrow>
     ix_Name idx = [] \<or> ix_Collection idx = [] \<or> ix_Fields idx = []"
  by (auto simp: buildCreateIndexSQL_def)

end
