(* ===== verification/Sql_Text.thy ===== *)
theory Sql_Text
  imports Sql_Gen
begin

text \<open>
  Reading the generated SQL. \<open>sql_lex\<close> splits a statement the way SQLite documents its lexical
  rules for the text that occurs here: words, double-quoted identifiers with the quote doubled
  inside, single punctuation characters, and blanks between them. It describes the meaning of the
  text and is not part of the driver. The lemmas of this theory show which tokens each statement of
  sql_gen.go is made of, whatever bytes the names contain.
\<close>

datatype token = Word string | Ident string | Punct char

definition word_char :: "char \<Rightarrow> bool" where
  "word_char c \<longleftrightarrow> (CHR ''A'' \<le> c \<and> c \<le> CHR ''Z'') \<or> (CHR ''a'' \<le> c \<and> c \<le> CHR ''z'') \<or>
     is_digit c \<or> c = CHR ''_''"

text \<open>The rest of a quoted identifier after its opening quote: its name and what follows it.\<close>

fun read_quoted :: "string \<Rightarrow> (string \<times> string) option" where
  "read_quoted [] = None"
| "read_quoted [c] = (if c = CHR ''\"'' then Some ([], []) else None)"
| "read_quoted (c # d # s) =
     (if c = CHR ''\"''
      then if d = CHR ''\"'' then map_option (apfst ((#) CHR ''\"'')) (read_quoted s)
           else Some ([], d # s)
      else map_option (apfst ((#) c)) (read_quoted (d # s)))"

lemma read_quoted_shorter: "read_quoted s = Some (n, t) \<Longrightarrow> length t < length s"
proof (induction s arbitrary: n t rule: read_quoted.induct)
  case (3 c d s)
  then show ?case by (auto split: if_splits)
qed (simp_all split: if_splits)

function sql_lex :: "string \<Rightarrow> token list option" where
  "sql_lex [] = Some []"
| "sql_lex (c # s) =
     (if c = CHR '' '' then sql_lex s
      else if c = CHR ''\"''
      then (case read_quoted s of
              None \<Rightarrow> None
            | Some (n, t) \<Rightarrow> map_option ((#) (Ident n)) (sql_lex t))
      else if word_char c
      then map_option ((#) (Word (c # takeWhile word_char s))) (sql_lex (dropWhile word_char s))
      else map_option ((#) (Punct c)) (sql_lex s))"
  by pat_completeness auto
termination
  by (relation "measure length")
    (auto dest: read_quoted_shorter simp: le_imp_less_Suc length_dropWhile_le less_SucI)

declare sql_lex.simps(2) [simp del]

section \<open>Texts and the tokens they read as\<close>

text \<open>
  \<open>lex_any s ts\<close>: the text reads as the tokens whatever follows. \<open>lex_end s ts\<close>: it does when what
  follows cannot continue its last token.
\<close>

definition boundary :: "string \<Rightarrow> bool" where
  "boundary s \<longleftrightarrow> (case s of [] \<Rightarrow> True | c # _ \<Rightarrow> \<not> word_char c \<and> c \<noteq> CHR ''\"'')"

definition prepend :: "token list \<Rightarrow> token list option \<Rightarrow> token list option" where
  "prepend ts r = map_option ((@) ts) r"

lemma prepend_simps [simp]:
  "prepend [] r = r" "prepend ts (prepend us r) = prepend (ts @ us) r"
  "prepend ts (Some us) = Some (ts @ us)" "map_option ((#) t) r = prepend [t] r"
  by (cases r; simp add: prepend_def)+

definition lex_any :: "string \<Rightarrow> token list \<Rightarrow> bool" where
  "lex_any s ts \<longleftrightarrow> (\<forall>rest. sql_lex (s @ rest) = prepend ts (sql_lex rest))"

definition lex_end :: "string \<Rightarrow> token list \<Rightarrow> bool" where
  "lex_end s ts \<longleftrightarrow> (\<forall>rest. boundary rest \<longrightarrow> sql_lex (s @ rest) = prepend ts (sql_lex rest))"

named_theorems lexing \<open>how pieces of text read as tokens\<close>

lemma lex_end_whole: "lex_end s ts \<Longrightarrow> sql_lex s = Some ts"
  unfolding lex_end_def by (drule spec [of _ "[]"]) (simp add: boundary_def)

lemma lex_any_Nil [lexing]: "lex_any [] []"
  by (simp add: lex_any_def)

lemma lex_any_append [lexing]: "lex_any s ts \<Longrightarrow> lex_any t us \<Longrightarrow> lex_any (s @ t) (ts @ us)"
  by (simp add: lex_any_def)

lemma lex_any_end [lexing]: "lex_any s ts \<Longrightarrow> lex_end t us \<Longrightarrow> lex_end (s @ t) (ts @ us)"
  by (simp add: lex_any_def lex_end_def)

lemma lex_end_any [lexing]:
  "lex_end s ts \<Longrightarrow> lex_any t us \<Longrightarrow> boundary t \<Longrightarrow> t \<noteq> [] \<Longrightarrow> lex_any (s @ t) (ts @ us)"
proof -
  assume *: "lex_end s ts" "lex_any t us" "boundary t" "t \<noteq> []"
  then have "boundary (t @ rest)" for rest by (cases t) (auto simp: boundary_def)
  with * show ?thesis by (simp add: lex_any_def lex_end_def)
qed

lemma lex_any_imp_end: "lex_any s ts \<Longrightarrow> lex_end s ts"
  by (simp add: lex_any_def lex_end_def)

lemma word_char_quote [simp]: "\<not> word_char CHR ''\"''" "\<not> word_char CHR '' ''"
  "\<not> word_char CHR ''(''" "\<not> word_char CHR '')''" "\<not> word_char CHR '',''"
  by (simp_all add: word_char_def is_digit_def less_eq_char_def)

lemma lex_any_blank [lexing]: "lex_any '' '' []"
  by (simp add: lex_any_def sql_lex.simps)

lemma lex_any_punct:
  "\<not> word_char c \<Longrightarrow> c \<noteq> CHR '' '' \<Longrightarrow> c \<noteq> CHR ''\"'' \<Longrightarrow> lex_any [c] [Punct c]"
  by (simp add: lex_any_def sql_lex.simps)

lemma lex_end_word:
  assumes "w \<noteq> []" "list_all word_char w"
  shows "lex_end w [Word w]"
  unfolding lex_end_def
proof (intro allI impI)
  fix rest assume rest: "boundary rest"
  obtain c s where w: "w = c # s" using assms(1) by (cases w) auto
  have "takeWhile word_char (s @ rest) = s \<and> dropWhile word_char (s @ rest) = rest"
    using assms(2) rest unfolding w by (induction s) (auto simp: boundary_def split: list.splits)
  moreover have "word_char c" using assms(2) w by simp
  moreover then have "c \<noteq> CHR '' ''" "c \<noteq> CHR ''\"''" by auto
  ultimately show "sql_lex (w @ rest) = prepend [Word w] (sql_lex rest)"
    unfolding w by (simp add: sql_lex.simps)
qed

lemma read_quoted_identifier:
  "(case rest of [] \<Rightarrow> True | c # _ \<Rightarrow> c \<noteq> CHR ''\"'') \<Longrightarrow>
   read_quoted (go_replace_byte (CHR ''\"'') ''\"\"'' name @ ''\"'' @ rest) = Some (name, rest)"
proof (induction name)
  case Nil
  then show ?case by (cases rest) auto
next
  case (Cons c name)
  obtain d s where "go_replace_byte (CHR ''\"'') ''\"\"'' name @ ''\"'' @ rest = d # s"
    by (cases "go_replace_byte (CHR ''\"'') ''\"\"'' name") auto
  with Cons show ?case by simp
qed

lemma lex_end_identifier [lexing]: "lex_end (quoteIdentifier name) [Ident name]"
  unfolding lex_end_def
proof (intro allI impI)
  fix rest assume "boundary rest"
  then have "case rest of [] \<Rightarrow> True | c # _ \<Rightarrow> c \<noteq> CHR ''\"''"
    by (auto simp: boundary_def split: list.splits)
  from read_quoted_identifier [OF this, of name]
  show "sql_lex (quoteIdentifier name @ rest) = prepend [Ident name] (sql_lex rest)"
    by (simp add: quoteIdentifier_def sql_lex.simps)
qed

section \<open>The tokens of each statement\<close>

lemma lex_end_words:
  assumes "list_all (\<lambda>w. w \<noteq> [] \<and> list_all word_char w) ws"
  shows "lex_end (go_join '' '' ws) (map Word ws)"
  using assms
proof (induction ws rule: induct_list012)
  case 1
  then show ?case using lex_any_imp_end [OF lex_any_Nil] by simp
next
  case (2 w)
  then show ?case by (simp add: lex_end_word)
next
  case (3 w v ws)
  have "lex_any (w @ '' '') ([Word w] @ [])"
    by (rule lex_end_any) (use 3 in \<open>auto simp: lex_end_word lex_any_blank boundary_def\<close>)
  then have "lex_end ((w @ '' '') @ go_join '' '' (v # ws)) (([Word w] @ []) @ map Word (v # ws))"
    by (rule lex_any_end) (use 3 in simp)
  then show ?case by simp
qed

text \<open>A keyword phrase is its words, whether it ends the text or a blank follows it.\<close>

definition phrase :: "string list \<Rightarrow> bool" where
  "phrase ws \<longleftrightarrow> ws \<noteq> [] \<and> list_all (\<lambda>w. w \<noteq> [] \<and> list_all word_char w) ws"

lemma lex_any_phrase: "phrase ws \<Longrightarrow> lex_any (go_join '' '' ws @ '' '') (map Word ws)"
  using lex_end_any [OF lex_end_words lex_any_blank, of ws]
  by (simp add: phrase_def boundary_def)

lemma lex_any_kw [lexing]:
  "lex_any ''CREATE TABLE '' [Word ''CREATE'', Word ''TABLE'']"
  "lex_any ''IF NOT EXISTS '' [Word ''IF'', Word ''NOT'', Word ''EXISTS'']"
  "lex_any ''CREATE '' [Word ''CREATE'']" "lex_any ''UNIQUE '' [Word ''UNIQUE'']"
  "lex_any ''INDEX '' [Word ''INDEX'']"
  "lex_any ''DROP TABLE '' [Word ''DROP'', Word ''TABLE'']"
  "lex_any ''DROP TABLE IF EXISTS '' [Word ''DROP'', Word ''TABLE'', Word ''IF'', Word ''EXISTS'']"
  "lex_any ''DROP INDEX '' [Word ''DROP'', Word ''INDEX'']"
  "lex_any ''DROP INDEX IF EXISTS '' [Word ''DROP'', Word ''INDEX'', Word ''IF'', Word ''EXISTS'']"
  "lex_any ''ALTER TABLE '' [Word ''ALTER'', Word ''TABLE'']"
  using lex_any_phrase [of "[''CREATE'', ''TABLE'']"] lex_any_phrase [of "[''IF'', ''NOT'', ''EXISTS'']"]
    lex_any_phrase [of "[''CREATE'']"] lex_any_phrase [of "[''UNIQUE'']"]
    lex_any_phrase [of "[''INDEX'']"] lex_any_phrase [of "[''DROP'', ''TABLE'']"]
    lex_any_phrase [of "[''DROP'', ''TABLE'', ''IF'', ''EXISTS'']"]
    lex_any_phrase [of "[''DROP'', ''INDEX'']"]
    lex_any_phrase [of "[''DROP'', ''INDEX'', ''IF'', ''EXISTS'']"]
    lex_any_phrase [of "[''ALTER'', ''TABLE'']"]
  by (simp_all add: phrase_def word_char_def less_eq_char_def)

lemma lex_any_blank_phrase: "lex_any s ts \<Longrightarrow> lex_any ('' '' @ s) ts"
  using lex_any_append [OF lex_any_blank] by simp

lemma lex_any_kw_blank [lexing]:
  "lex_any '' ON '' [Word ''ON'']" "lex_any '' TO '' [Word ''TO'']"
  "lex_any '' ADD COLUMN '' [Word ''ADD'', Word ''COLUMN'']"
  "lex_any '' DROP COLUMN '' [Word ''DROP'', Word ''COLUMN'']"
  "lex_any '' RENAME COLUMN '' [Word ''RENAME'', Word ''COLUMN'']"
  using lex_any_phrase [of "[''ON'']", THEN lex_any_blank_phrase]
    lex_any_phrase [of "[''TO'']", THEN lex_any_blank_phrase]
    lex_any_phrase [of "[''ADD'', ''COLUMN'']", THEN lex_any_blank_phrase]
    lex_any_phrase [of "[''DROP'', ''COLUMN'']", THEN lex_any_blank_phrase]
    lex_any_phrase [of "[''RENAME'', ''COLUMN'']", THEN lex_any_blank_phrase]
  by (simp_all add: phrase_def word_char_def less_eq_char_def)

lemma lex_any_marks [lexing]:
  "lex_any '' ('' [Punct CHR ''('']" "lex_any '', '' [Punct CHR '','']" "lex_any '')'' [Punct CHR '')'']"
  using lex_any_punct [of "CHR ''(''", THEN lex_any_blank_phrase]
    lex_any_append [OF lex_any_punct lex_any_blank, of "CHR '',''"] lex_any_punct [of "CHR '')''"]
  by simp_all

lemma boundary_marks [simp]:
  "boundary ('' ('' @ s)" "boundary ('', '' @ s)" "boundary ('')'' @ s)" "boundary ('' ON '' @ s)"
  "boundary ('' TO '' @ s)" "boundary ('' ADD COLUMN '' @ s)" "boundary ('' DROP COLUMN '' @ s)"
  "boundary ('' RENAME COLUMN '' @ s)" "boundary ('' '' @ s)"
  by (simp_all add: boundary_def)

text \<open>Items separated by commas.\<close>

fun comma_tokens :: "token list list \<Rightarrow> token list" where
  "comma_tokens [] = []"
| "comma_tokens [ts] = ts"
| "comma_tokens (ts # us # tss) = ts @ Punct CHR '','' # comma_tokens (us # tss)"

lemma lex_any_then_comma: "lex_end s ts \<Longrightarrow> lex_any (s @ '', '') (ts @ [Punct CHR '',''])"
  by (rule lex_end_any) (simp_all add: lexing boundary_def)

lemma lex_end_commas:
  "list_all2 lex_end parts tss \<Longrightarrow> lex_end (go_join '', '' parts) (comma_tokens tss)"
proof (induction parts tss rule: list_all2_induct)
  case Nil
  then show ?case using lex_any_imp_end [OF lex_any_Nil] by simp
next
  case (Cons s ss ts tss)
  show ?case
  proof (cases ss)
    case Nil
    with Cons show ?thesis by (cases tss) auto
  next
    case (Cons s' ss')
    then obtain us tss' where tss: "tss = us # tss'" using Cons.hyps by (cases tss) auto
    have "lex_end ((s @ '', '') @ go_join '', '' ss) ((ts @ [Punct CHR '','']) @ comma_tokens tss)"
      by (rule lex_any_end [OF lex_any_then_comma]) (use Cons.hyps Cons.IH in auto)
    then show ?thesis using Cons tss by simp
  qed
qed

lemma lex_end_names: "lex_end (go_join '', '' (map quoteIdentifier ns)) (comma_tokens (map (\<lambda>n. [Ident n]) ns))"
  by (rule lex_end_commas) (simp add: list_all2_conv_all_nth lex_end_identifier)

lemma lex_any_parenthesised:
  assumes "lex_end s ts"
  shows "lex_any ('' ('' @ s @ '')'') (Punct CHR ''('' # ts @ [Punct CHR '')''])"
  using lex_any_append [OF lex_any_marks(1) lex_end_any [OF assms lex_any_marks(3)]]
  by (simp add: boundary_def)

lemma lex_any_ident_blank:
  "lex_any t us \<Longrightarrow> boundary t \<Longrightarrow> t \<noteq> [] \<Longrightarrow> lex_any (quoteIdentifier n @ t) (Ident n # us)"
  using lex_end_any [OF lex_end_identifier] by simp

text \<open>A column declaration: the name, then words only.\<close>

definition column_words :: "field_def \<Rightarrow> bool \<Rightarrow> bool \<Rightarrow> bool \<Rightarrow> string list" where
  "column_words f inlinePK compositePK inPK =
     (if inlinePK
      then [''PRIMARY'', ''KEY''] @ (if fd_AutoIncrement f then [''AUTOINCREMENT''] else [])
      else if \<not> fd_Nullable f \<and> (\<not> compositePK \<or> inPK) then [''NOT'', ''NULL''] else [])"

lemma lex_end_column:
  assumes "buildColumnDecl f i k p = Inr s" and "sqliteTypeFor (fd_Type f) = Inr ty"
  shows "lex_end s (Ident (fd_Name f) # Word ty # map Word (column_words f i k p))"
proof -
  define ws where "ws = ty # column_words f i k p"
  have ty: "ty \<noteq> [] \<and> list_all word_char ty"
    using assms(2) by (cases "fd_Type f") (auto simp: word_char_def less_eq_char_def)
  have "list_all (\<lambda>w. w \<noteq> [] \<and> list_all word_char w) ws"
    using ty by (auto simp: ws_def column_words_def word_char_def less_eq_char_def)
  then have "lex_end (go_join '' '' ws) (map Word ws)" by (rule lex_end_words)
  moreover have "lex_any (quoteIdentifier (fd_Name f) @ '' '') ([Ident (fd_Name f)] @ [])"
    by (rule lex_end_any) (simp_all add: lexing boundary_def)
  ultimately have
    "lex_end ((quoteIdentifier (fd_Name f) @ '' '') @ go_join '' '' ws) (([Ident (fd_Name f)] @ []) @ map Word ws)"
    by (rule lex_any_end [rotated])
  moreover have "s = (quoteIdentifier (fd_Name f) @ '' '') @ go_join '' '' ws"
    using assms by (auto simp: buildColumnDecl_def Let_def ws_def column_words_def)
  ultimately show ?thesis by (simp add: ws_def)
qed

section \<open>Reading a CREATE TABLE statement\<close>

record parsed_column =
  pc_Name :: string
  pc_Type :: string
  pc_NotNull :: bool
  pc_PrimaryKey :: bool
  pc_AutoIncrement :: bool

record parsed_table =
  pt_IfNotExists :: bool
  pt_Name :: string
  pt_Columns :: "parsed_column list"
  pt_PrimaryKey :: "string list"

fun is_word :: "token \<Rightarrow> bool" where
  "is_word (Word w) = True"
| "is_word _ = False"

definition read_column :: "string \<Rightarrow> token list \<Rightarrow> parsed_column option" where
  "read_column n ws =
     (case ws of
        Word ty # cs \<Rightarrow>
          (let col = (\<lambda>nn pk ai. Some \<lparr>pc_Name = n, pc_Type = ty, pc_NotNull = nn,
                        pc_PrimaryKey = pk, pc_AutoIncrement = ai\<rparr>)
           in if cs = [] then col False False False
              else if cs = [Word ''NOT'', Word ''NULL''] then col True False False
              else if cs = [Word ''PRIMARY'', Word ''KEY''] then col False True False
              else if cs = [Word ''PRIMARY'', Word ''KEY'', Word ''AUTOINCREMENT''] then col False True True
              else None)
      | _ \<Rightarrow> None)"

fun read_names :: "token list \<Rightarrow> (string list \<times> token list) option" where
  "read_names (Ident n # Punct c # ts) =
     (if c = CHR '','' then map_option (apfst ((#) n)) (read_names ts)
      else if c = CHR '')'' then Some ([n], ts) else None)"
| "read_names _ = None"

text \<open>The items of the definition: columns, then possibly the table's PRIMARY KEY, then ")".\<close>

function read_items :: "token list \<Rightarrow> (parsed_column list \<times> string list) option" where
  "read_items (Ident n # ts) =
     (case read_column n (takeWhile is_word ts) of
        None \<Rightarrow> None
      | Some col \<Rightarrow>
          (case dropWhile is_word ts of
             [] \<Rightarrow> None
           | t # us \<Rightarrow>
               if t = Punct CHR '','' then map_option (apfst ((#) col)) (read_items us)
               else if t = Punct CHR '')'' \<and> us = [] then Some ([col], []) else None))"
| "read_items (Word w # ts) =
     (case ts of
        Word v # Punct c # us \<Rightarrow>
          if w = ''PRIMARY'' \<and> v = ''KEY'' \<and> c = CHR ''(''
          then (case read_names us of
                  Some (ns, vs) \<Rightarrow> if vs = [Punct CHR '')''] then Some ([], ns) else None
                | None \<Rightarrow> None)
          else None
      | _ \<Rightarrow> None)"
| "read_items (Punct c # ts) = None"
| "read_items [] = None"
  by pat_completeness auto
termination
proof (relation "measure length", goal_cases)
  case (2 n ts col t us)
  then have "length us < length (dropWhile is_word ts)" by simp
  also have "\<dots> \<le> length ts" by (rule length_dropWhile_le)
  finally show ?case by simp
qed simp

definition read_create_table :: "string \<Rightarrow> parsed_table option" where
  "read_create_table s =
     (let body = (\<lambda>ine ts. case ts of
          Ident n # Punct c # us \<Rightarrow>
            if c = CHR ''('' then map_option (\<lambda>(cols, pk).
              \<lparr>pt_IfNotExists = ine, pt_Name = n, pt_Columns = cols, pt_PrimaryKey = pk\<rparr>) (read_items us)
            else None
        | _ \<Rightarrow> None)
      in case sql_lex s of
           Some (a # b # ts) \<Rightarrow>
             if a = Word ''CREATE'' \<and> b = Word ''TABLE''
             then (if take 3 ts = [Word ''IF'', Word ''NOT'', Word ''EXISTS''] then body True (drop 3 ts)
                   else body False ts)
             else None
         | _ \<Rightarrow> None)"

section \<open>What the statement declares\<close>

text \<open>The declared type of a field, for the types that have one.\<close>

definition declared_type :: "db_type \<Rightarrow> string" where
  "declared_type t = (case sqliteTypeFor t of Inr s \<Rightarrow> s | Inl _ \<Rightarrow> [])"

definition column_shape :: "collection_def \<Rightarrow> field_def \<Rightarrow> parsed_column" where
  "column_shape c f =
     (let inline = has_inline_pk c \<and> fd_Name f = cd_PrimaryKey c ! 0
      in \<lparr>pc_Name = fd_Name f, pc_Type = declared_type (fd_Type f),
          pc_NotNull = (\<not> inline \<and> \<not> fd_Nullable f \<and>
             (length (cd_PrimaryKey c) \<le> 1 \<or> fd_Name f \<in> set (cd_PrimaryKey c))),
          pc_PrimaryKey = inline, pc_AutoIncrement = (inline \<and> fd_AutoIncrement f)\<rparr>)"

definition table_shape :: "collection_def \<Rightarrow> ddl_options \<Rightarrow> parsed_table" where
  "table_shape c opts =
     \<lparr>pt_IfNotExists = opt_IfNotExists opts, pt_Name = cd_Name c,
      pt_Columns = map (column_shape c) (cd_Fields c),
      pt_PrimaryKey = (if has_inline_pk c then [] else cd_PrimaryKey c)\<rparr>"

definition column_tokens :: "collection_def \<Rightarrow> field_def \<Rightarrow> token list" where
  "column_tokens c f =
     Ident (fd_Name f) # Word (declared_type (fd_Type f)) #
       map Word (column_words f (has_inline_pk c \<and> fd_Name f = cd_PrimaryKey c ! 0)
         (has_composite_pk c) (fd_Name f \<in> set (cd_PrimaryKey c)))"

definition pk_tokens :: "string list \<Rightarrow> token list" where
  "pk_tokens pk = [Word ''PRIMARY'', Word ''KEY'', Punct CHR ''(''] @ comma_tokens (map (\<lambda>n. [Ident n]) pk) @
     [Punct CHR '')'']"

definition table_items :: "collection_def \<Rightarrow> token list list" where
  "table_items c = map (column_tokens c) (cd_Fields c) @
     (if \<not> has_inline_pk c \<and> cd_PrimaryKey c \<noteq> [] then [pk_tokens (cd_PrimaryKey c)] else [])"

lemma read_names_tokens:
  "ns \<noteq> [] \<Longrightarrow> read_names (comma_tokens (map (\<lambda>n. [Ident n]) ns) @ Punct CHR '')'' # ts) = Some (ns, ts)"
  by (induction ns rule: induct_list012) auto

lemma read_column_tokens:
  "read_column (fd_Name f) (Word (declared_type (fd_Type f)) #
      map Word (column_words f (has_inline_pk c \<and> fd_Name f = cd_PrimaryKey c ! 0)
        (has_composite_pk c) (fd_Name f \<in> set (cd_PrimaryKey c)))) = Some (column_shape c f)"
  by (auto simp: read_column_def column_words_def column_shape_def Let_def has_composite_pk_def)

lemma read_items_column:
  assumes "t = Punct CHR '','' \<or> t = Punct CHR '')''"
  shows "read_items (column_tokens c f @ t # us) =
     (if t = Punct CHR '','' then map_option (apfst ((#) (column_shape c f))) (read_items us)
      else if us = [] then Some ([column_shape c f], []) else None)"
proof -
  define ws where "ws = Word (declared_type (fd_Type f)) #
      map Word (column_words f (has_inline_pk c \<and> fd_Name f = cd_PrimaryKey c ! 0)
        (has_composite_pk c) (fd_Name f \<in> set (cd_PrimaryKey c)))"
  have "list_all is_word ws" by (simp add: ws_def list_all_iff)
  moreover have "\<not> is_word t" using assms by auto
  ultimately have "takeWhile is_word (ws @ t # us) = ws" "dropWhile is_word (ws @ t # us) = t # us"
    by (simp_all add: takeWhile_run dropWhile_run)
  moreover have "column_tokens c f @ t # us = Ident (fd_Name f) # ws @ t # us"
    by (simp add: column_tokens_def ws_def)
  moreover have "read_column (fd_Name f) ws = Some (column_shape c f)"
    unfolding ws_def by (rule read_column_tokens)
  ultimately show ?thesis using assms by auto
qed

lemma read_items_pk:
  "pk \<noteq> [] \<Longrightarrow> read_items (pk_tokens pk @ [Punct CHR '')'']) = Some ([], pk)"
  by (simp add: pk_tokens_def read_names_tokens)

definition table_pk :: "collection_def \<Rightarrow> string list" where
  "table_pk c = (if has_inline_pk c then [] else cd_PrimaryKey c)"

lemma comma_tokens_Cons:
  "comma_tokens (ts # tss) = ts @ (if tss = [] then [] else Punct CHR '','' # comma_tokens tss)"
  by (cases tss) auto

lemma read_items_columns:
  assumes "fs \<noteq> [] \<or> pk \<noteq> []"
  shows "read_items (comma_tokens (map (column_tokens c) fs @ (if pk = [] then [] else [pk_tokens pk])) @
      [Punct CHR '')'']) = Some (map (column_shape c) fs, pk)"
  using assms
proof (induction fs)
  case Nil
  then show ?case by (simp add: read_items_pk)
next
  case (Cons f fs)
  show ?case
  proof (cases "fs = [] \<and> pk = []")
    case True
    then show ?thesis by (simp add: read_items_column)
  next
    case False
    then have "fs \<noteq> [] \<or> pk \<noteq> []" by simp
    from Cons.IH [OF this] False show ?thesis
      by (auto simp: comma_tokens_Cons read_items_column)
  qed
qed

lemma lex_end_pk:
  "lex_end (''PRIMARY KEY ('' @ go_join '', '' (map quoteIdentifier ns) @ '')'') (pk_tokens ns)"
proof -
  have "lex_any (go_join '' '' [''PRIMARY'', ''KEY''] @ '' '') (map Word [''PRIMARY'', ''KEY''])"
    by (rule lex_any_phrase) (simp add: phrase_def word_char_def less_eq_char_def)
  from lex_any_append [OF this lex_any_append [OF lex_any_punct [of "CHR ''(''"]
      lex_end_any [OF lex_end_names lex_any_marks(3)]], of ns]
  show ?thesis
    by (simp add: pk_tokens_def lex_any_imp_end boundary_def)
qed

lemma create_table_tokens:
  assumes "buildCreateTableSQL c opts = Inr s"
  shows "sql_lex s = Some ([Word ''CREATE'', Word ''TABLE''] @
      (if opt_IfNotExists opts then [Word ''IF'', Word ''NOT'', Word ''EXISTS''] else []) @
      [Ident (cd_Name c), Punct CHR ''(''] @
      comma_tokens (map (column_tokens c) (cd_Fields c) @
        (if table_pk c = [] then [] else [pk_tokens (table_pk c)])) @ [Punct CHR '')''])"
proof -
  define decl where "decl = (\<lambda>f. buildColumnDecl f (has_inline_pk c \<and> fd_Name f = cd_PrimaryKey c ! 0)
    (has_composite_pk c) (fd_Name f \<in> set (cd_PrimaryKey c)))"
  define pks where "pks = (if table_pk c = [] then []
    else [''PRIMARY KEY ('' @ go_join '', '' (map quoteIdentifier (table_pk c)) @ '')''])"
  define ine where "ine = (if opt_IfNotExists opts then ''IF NOT EXISTS '' else [])"
  from assms obtain cols where cols: "map_result decl (cd_Fields c) = Inr cols"
    and s: "s = ''CREATE TABLE '' @ ine @ quoteIdentifier (cd_Name c) @
      ('' ('' @ go_join '', '' (cols @ pks) @ '')'')"
    unfolding buildCreateTableSQL_def Let_def decl_def [symmetric] pks_def table_pk_def ine_def
    by (auto split: sum.splits)
  have "list_all2 lex_end cols (map (column_tokens c) (cd_Fields c))"
    using cols unfolding map_result_Inr_iff list_all2_conv_all_nth decl_def
    by (auto simp: column_tokens_def declared_type_def buildColumnDecl_def Let_def
      split: sum.splits intro!: lex_end_column)
  moreover have "list_all2 lex_end pks (if table_pk c = [] then [] else [pk_tokens (table_pk c)])"
    using lex_end_pk [of "table_pk c"] by (simp add: pks_def)
  ultimately have "lex_end (go_join '', '' (cols @ pks)) (comma_tokens
      (map (column_tokens c) (cd_Fields c) @ (if table_pk c = [] then [] else [pk_tokens (table_pk c)])))"
    by (intro lex_end_commas list_all2_appendI)
  note body = lex_any_parenthesised [OF this]
  have "lex_any ine (if opt_IfNotExists opts then [Word ''IF'', Word ''NOT'', Word ''EXISTS''] else [])"
    by (simp add: ine_def lexing)
  from lex_any_append [OF lex_any_kw(1) lex_any_append [OF this lex_any_ident_blank [OF body]]]
  show ?thesis
    unfolding s by (simp add: lex_end_whole lex_any_imp_end boundary_def)
qed

section \<open>Properties of the generated text\<close>

text \<open>C7: a quoted identifier is one token of the statement that spells the name exactly, whatever
  bytes the name contains and whatever follows it (unless a further quote does): a name can neither
  end its quotation early nor be altered by it.\<close>

theorem quoteIdentifier_exact:
  "(\<forall>s. rest \<noteq> CHR ''\"'' # s) \<Longrightarrow>
   sql_lex (quoteIdentifier name @ rest) = map_option (\<lambda>ts. Ident name # ts) (sql_lex rest)"
proof -
  assume *: "\<forall>s. rest \<noteq> CHR ''\"'' # s"
  then have "case rest of [] \<Rightarrow> True | c # _ \<Rightarrow> c \<noteq> CHR ''\"''"
    by (auto split: list.splits)
  from read_quoted_identifier [OF this, of name] show ?thesis
    by (simp add: quoteIdentifier_def sql_lex.simps)
qed

theorem quoteIdentifier_exact_witness:
  "sql_lex (quoteIdentifier ''x\"); DROP TABLE t; --'' @ '' DROP'') =
     Some [Ident ''x\"); DROP TABLE t; --'', Word ''DROP'']"
proof -
  have "sql_lex '' DROP'' = Some [Word ''DROP'']" by code_simp
  then show ?thesis
    using quoteIdentifier_exact [of "'' DROP''" "''x\"); DROP TABLE t; --''"] by simp
qed

lemma read_built_table:
  assumes "buildCreateTableSQL c opts = Inr s" and "cd_Fields c \<noteq> [] \<or> table_pk c \<noteq> []"
  shows "read_create_table s = Some (table_shape c opts)"
proof -
  have "Punct CHR ''('' # us \<noteq> [Word ''IF'', Word ''NOT'', Word ''EXISTS''] @ vs" for us vs by simp
  then show ?thesis
    using create_table_tokens [OF assms(1)] read_items_columns [OF assms(2)]
    by (simp add: read_create_table_def table_shape_def table_pk_def Let_def)
qed

text \<open>C6: the text of CREATE TABLE, read back, declares the collection: its name, one column per field
  in order with the field's name and declared type, PRIMARY KEY (and AUTOINCREMENT) inline on the
  single auto-increment Int key, otherwise the table-level PRIMARY KEY with the key's columns in order,
  and NOT NULL on the other non-nullable fields except those outside a composite key.\<close>

theorem create_table_round_trip:
  assumes "buildCreateTableSQL c opts = Inr s" and "cd_Fields c \<noteq> [] \<or> table_pk c \<noteq> []"
  shows "read_create_table s = Some (table_shape c opts)"
  by (rule read_built_table [OF assms])

definition order_lines :: collection_def where
  "order_lines =
     bare_collection ''order \"lines\"''
       [\<lparr>fd_Name = ''order'', fd_Type = Type_Int, fd_Precision = None, fd_Nullable = False, fd_AutoIncrement = False\<rparr>,
        \<lparr>fd_Name = ''no'', fd_Type = Type_Int, fd_Precision = None, fd_Nullable = False, fd_AutoIncrement = False\<rparr>,
        \<lparr>fd_Name = ''note'', fd_Type = Type_String, fd_Precision = None, fd_Nullable = False, fd_AutoIncrement = False\<rparr>]
       [''order'', ''no'']"

theorem create_table_round_trip_witness:
  "\<exists>s. buildCreateTableSQL order_lines no_options = Inr s \<and>
     read_create_table s = Some (table_shape order_lines no_options) \<and>
     map pc_NotNull (pt_Columns (table_shape order_lines no_options)) = [True, True, False]"
proof -
  have "\<exists>s. buildCreateTableSQL order_lines no_options = Inr s"
    by (simp add: buildCreateTableSQL_def Let_def order_lines_def map_result.simps
      buildColumnDecl_def has_inline_pk_def has_composite_pk_def)
  then obtain s where s: "buildCreateTableSQL order_lines no_options = Inr s" ..
  moreover have "cd_Fields order_lines \<noteq> [] \<or> table_pk order_lines \<noteq> []"
    by (simp add: order_lines_def)
  ultimately show ?thesis
    using create_table_round_trip [OF s]
    by (auto simp: table_shape_def column_shape_def Let_def order_lines_def has_inline_pk_def)
qed

lemma built_index_tokens:
  assumes "buildCreateIndexSQL idx opts = Inr s"
  shows "sql_lex s = Some ([Word ''CREATE''] @ (if ix_Unique idx then [Word ''UNIQUE''] else []) @
      [Word ''INDEX''] @
      (if opt_IfNotExists opts then [Word ''IF'', Word ''NOT'', Word ''EXISTS''] else []) @
      [Ident (ix_Name idx), Word ''ON'', Ident (ix_Collection idx), Punct CHR ''(''] @
      comma_tokens (map (\<lambda>n. [Ident n]) (ix_Fields idx)) @ [Punct CHR '')''])"
proof -
  define u where "u = (if ix_Unique idx then ''UNIQUE '' else [])"
  define ine where "ine = (if opt_IfNotExists opts then ''IF NOT EXISTS '' else [])"
  have s: "s = ''CREATE '' @ u @ ''INDEX '' @ ine @ quoteIdentifier (ix_Name idx) @ '' ON '' @
      quoteIdentifier (ix_Collection idx) @
      ('' ('' @ go_join '', '' (map quoteIdentifier (ix_Fields idx)) @ '')'')"
    using assms by (auto simp: buildCreateIndexSQL_def u_def ine_def split: if_splits)
  have u: "lex_any u (if ix_Unique idx then [Word ''UNIQUE''] else [])"
    and i: "lex_any ine (if opt_IfNotExists opts then [Word ''IF'', Word ''NOT'', Word ''EXISTS''] else [])"
    by (simp_all add: u_def ine_def lexing)
  note body = lex_any_ident_blank [OF lex_any_parenthesised [OF lex_end_names], of "ix_Fields idx" "ix_Collection idx"]
  from lex_any_append [OF lex_any_kw(3) lex_any_append [OF u lex_any_append [OF lex_any_kw(5)
      lex_any_append [OF i lex_any_ident_blank [OF lex_any_append [OF lex_any_kw_blank(1) body]]]]]]
  show ?thesis
    unfolding s by (simp add: lex_end_whole lex_any_imp_end boundary_def)
qed

text \<open>The text of CREATE INDEX is these tokens: the index, the collection and the indexed columns
  appear as identifiers with their exact names, in the order of the definition.\<close>

theorem create_index_tokens:
  assumes "buildCreateIndexSQL idx opts = Inr s"
  shows "sql_lex s = Some ([Word ''CREATE''] @ (if ix_Unique idx then [Word ''UNIQUE''] else []) @
      [Word ''INDEX''] @
      (if opt_IfNotExists opts then [Word ''IF'', Word ''NOT'', Word ''EXISTS''] else []) @
      [Ident (ix_Name idx), Word ''ON'', Ident (ix_Collection idx), Punct CHR ''(''] @
      comma_tokens (map (\<lambda>n. [Ident n]) (ix_Fields idx)) @ [Punct CHR '')''])"
  by (rule built_index_tokens [OF assms])

theorem create_index_tokens_witness:
  "\<exists>s. buildCreateIndexSQL \<lparr>ix_Name = ''ix'', ix_Collection = ''users'', ix_Fields = [''e''], ix_Unique = True\<rparr>
      no_options = Inr s \<and>
     sql_lex s = Some [Word ''CREATE'', Word ''UNIQUE'', Word ''INDEX'', Ident ''ix'', Word ''ON'', Ident ''users'',
       Punct CHR ''('', Ident ''e'', Punct CHR '')'']"
proof -
  obtain s where s: "buildCreateIndexSQL
      \<lparr>ix_Name = ''ix'', ix_Collection = ''users'', ix_Fields = [''e''], ix_Unique = True\<rparr> no_options = Inr s"
    by (simp add: buildCreateIndexSQL_def)
  from create_index_tokens [OF s] s show ?thesis by simp
qed

text \<open>The DROP and ALTER statements are these tokens: a dropped table or index and a dropped or
  renamed column appear with their exact names, and IF EXISTS only when the option asks for it.\<close>

theorem drop_and_alter_tokens:
  "sql_lex (buildDropTableSQL t opts) = Some ([Word ''DROP'', Word ''TABLE''] @
     (if opt_IfExists opts then [Word ''IF'', Word ''EXISTS''] else []) @ [Ident t]) \<and>
   sql_lex (buildDropIndexSQL t opts) = Some ([Word ''DROP'', Word ''INDEX''] @
     (if opt_IfExists opts then [Word ''IF'', Word ''EXISTS''] else []) @ [Ident t]) \<and>
   sql_lex (buildAlterTableDropColumnSQL t col) =
     Some [Word ''ALTER'', Word ''TABLE'', Ident t, Word ''DROP'', Word ''COLUMN'', Ident col] \<and>
   sql_lex (buildAlterTableRenameColumnSQL t col new) =
     Some [Word ''ALTER'', Word ''TABLE'', Ident t, Word ''RENAME'', Word ''COLUMN'', Ident col, Word ''TO'', Ident new]"
proof (intro conjI)
  show "sql_lex (buildDropTableSQL t opts) = Some ([Word ''DROP'', Word ''TABLE''] @
     (if opt_IfExists opts then [Word ''IF'', Word ''EXISTS''] else []) @ [Ident t])"
    using lex_any_end [OF lex_any_kw(6) lex_end_identifier] lex_any_end [OF lex_any_kw(7) lex_end_identifier]
    by (auto simp: buildDropTableSQL_def dest!: lex_end_whole)
  show "sql_lex (buildDropIndexSQL t opts) = Some ([Word ''DROP'', Word ''INDEX''] @
     (if opt_IfExists opts then [Word ''IF'', Word ''EXISTS''] else []) @ [Ident t])"
    using lex_any_end [OF lex_any_kw(8) lex_end_identifier] lex_any_end [OF lex_any_kw(9) lex_end_identifier]
    by (auto simp: buildDropIndexSQL_def dest!: lex_end_whole)
  show "sql_lex (buildAlterTableDropColumnSQL t col) =
     Some [Word ''ALTER'', Word ''TABLE'', Ident t, Word ''DROP'', Word ''COLUMN'', Ident col]"
    using lex_any_end [OF lex_any_append [OF lex_any_kw(10) lex_any_ident_blank [OF lex_any_kw_blank(4)]]
        lex_end_identifier, of t col]
    by (auto simp: buildAlterTableDropColumnSQL_def boundary_def dest!: lex_end_whole)
  show "sql_lex (buildAlterTableRenameColumnSQL t col new) =
     Some [Word ''ALTER'', Word ''TABLE'', Ident t, Word ''RENAME'', Word ''COLUMN'', Ident col, Word ''TO'', Ident new]"
    using lex_any_end [OF lex_any_append [OF lex_any_kw(10) lex_any_ident_blank [OF lex_any_append
        [OF lex_any_kw_blank(5) lex_any_ident_blank [OF lex_any_kw_blank(2)]]]] lex_end_identifier, of col t new]
    by (auto simp: buildAlterTableRenameColumnSQL_def boundary_def dest!: lex_end_whole)
qed

end
