(* ===== verification/Pk_Order.thy ===== *)
theory Pk_Order
  imports Go_Prelude "HOL-Library.Multiset"
begin

text \<open>
  sortPKByOrder (schema_reader.go): the insertion sort by swapping neighbours that puts the columns
  of a primary key in key order. The loop of readCollectionDefViaTx (schema_modifier.go) is the same
  code over a local type. The loops are modelled as they run, over a list updated by index.
\<close>

record pk_entry =
  pk_colName :: string
  pk_pkOrder :: int

text \<open>\<open>for j := i; j > 0 && entries[j-1].pkOrder > entries[j].pkOrder; j-- { swap }\<close>.\<close>

fun sink :: "pk_entry list \<Rightarrow> nat \<Rightarrow> pk_entry list" where
  "sink es 0 = es"
| "sink es (Suc j) =
     (if pk_pkOrder (es ! j) > pk_pkOrder (es ! Suc j)
      then sink (es[j := es ! Suc j, Suc j := es ! j]) j
      else es)"

definition sortPKByOrder :: "pk_entry list \<Rightarrow> pk_entry list" where
  "sortPKByOrder es = foldl sink es [1..<length es]"

text \<open>The reference: one element inserted after those that do not exceed it.\<close>

definition put_in_order :: "pk_entry \<Rightarrow> pk_entry list \<Rightarrow> pk_entry list" where
  "put_in_order e es =
     takeWhile (\<lambda>x. pk_pkOrder x \<le> pk_pkOrder e) es @ e # dropWhile (\<lambda>x. pk_pkOrder x \<le> pk_pkOrder e) es"

lemma sink_put_in_order:
  "sorted (map pk_pkOrder es) \<Longrightarrow> sink (es @ e # rest) (length es) = put_in_order e es @ rest"
proof (induction es arbitrary: rest rule: rev_induct)
  case Nil
  then show ?case by (simp add: put_in_order_def)
next
  case (snoc x es)
  have sorted: "sorted (map pk_pkOrder es)" and le: "\<And>y. y \<in> set es \<Longrightarrow> pk_pkOrder y \<le> pk_pkOrder x"
    using snoc.prems by (auto simp: sorted_append)
  show ?case
  proof (cases "pk_pkOrder x > pk_pkOrder e")
    case True
    have "sink ((es @ [x]) @ e # rest) (length (es @ [x])) = sink (es @ e # x # rest) (length es)"
      using True by (simp add: nth_append list_update_append)
    also have "\<dots> = put_in_order e es @ x # rest"
      by (rule snoc.IH [OF sorted])
    also have "\<dots> = put_in_order e (es @ [x]) @ rest"
      using True by (cases "\<forall>y \<in> set es. pk_pkOrder y \<le> pk_pkOrder e")
        (auto simp: put_in_order_def takeWhile_append dropWhile_append)
    finally show ?thesis .
  next
    case False
    then have "\<forall>y \<in> set (es @ [x]). pk_pkOrder y \<le> pk_pkOrder e"
      using le by fastforce
    then have "put_in_order e (es @ [x]) = es @ [x, e]"
      by (simp add: put_in_order_def takeWhile_append dropWhile_append)
    then show ?thesis using False by (simp add: nth_append)
  qed
qed

lemma sorted_split_at:
  fixes e :: pk_entry
  assumes "sorted (map pk_pkOrder es)"
  defines "P \<equiv> \<lambda>x. pk_pkOrder x \<le> pk_pkOrder e"
  shows "sorted (map pk_pkOrder (takeWhile P es))" "sorted (map pk_pkOrder (dropWhile P es))"
    "y \<in> set (dropWhile P es) \<Longrightarrow> pk_pkOrder e < pk_pkOrder y"
proof -
  have split: "es = takeWhile P es @ dropWhile P es" by simp
  show take: "sorted (map pk_pkOrder (takeWhile P es))" and drop: "sorted (map pk_pkOrder (dropWhile P es))"
    using assms(1) by (subst (asm) split, simp add: sorted_append del: takeWhile_dropWhile_id)+
  assume y: "y \<in> set (dropWhile P es)"
  then obtain z zs where z: "dropWhile P es = z # zs" by (cases "dropWhile P es") auto
  have "\<not> P z" using z by (metis dropWhile_eq_Cons_conv)
  moreover have "pk_pkOrder z \<le> pk_pkOrder y" using drop y by (auto simp: z)
  ultimately show "pk_pkOrder e < pk_pkOrder y" by (simp add: P_def)
qed

lemma sorted_put_in_order:
  assumes "sorted (map pk_pkOrder es)"
  shows "sorted (map pk_pkOrder (put_in_order e es))"
  using assms sorted_split_at [OF assms, where e = e]
  by (fastforce simp: put_in_order_def sorted_append dest: set_takeWhileD)

lemma put_in_order_filter:
  "filter (\<lambda>x. pk_pkOrder x = k) (put_in_order e es) = filter (\<lambda>x. pk_pkOrder x = k) (es @ [e])"
  if "sorted (map pk_pkOrder es)"
proof -
  let ?P = "\<lambda>x. pk_pkOrder x \<le> pk_pkOrder e"
  have "k = pk_pkOrder e \<Longrightarrow> filter (\<lambda>x. pk_pkOrder x = k) (dropWhile ?P es) = []"
    using sorted_split_at(3) [OF that, where e = e] by (fastforce simp: filter_empty_conv)
  moreover have "filter (\<lambda>x. pk_pkOrder x = k) es =
      filter (\<lambda>x. pk_pkOrder x = k) (takeWhile ?P es) @ filter (\<lambda>x. pk_pkOrder x = k) (dropWhile ?P es)"
    by (metis filter_append takeWhile_dropWhile_id)
  ultimately show ?thesis
    by (auto simp: put_in_order_def)
qed

lemma mset_put_in_order: "mset (put_in_order e es) = add_mset e (mset es)"
  by (metis (no_types, lifting) add_mset_add_single mset.simps(2) mset_append put_in_order_def
      takeWhile_dropWhile_id union_mset_add_mset_right)

text \<open>After the outer loop has passed \<open>n\<close> elements, the first \<open>n\<close> are their stable sort.\<close>

lemma sort_loop:
  "n \<le> length es \<Longrightarrow> 1 \<le> n \<Longrightarrow>
   foldl sink es [1..<n] = sort_key pk_pkOrder (take n es) @ drop n es"
proof (induction n)
  case (Suc n)
  show ?case
  proof (cases "n = 0")
    case True
    with Suc.prems show ?thesis by (cases es) simp_all
  next
    case False
    then have n: "1 \<le> n" "n \<le> length es" using Suc.prems by simp_all
    let ?s = "sort_key pk_pkOrder (take n es)"
    have "drop n es = es ! n # drop (Suc n) es"
      using Suc.prems by (simp add: Cons_nth_drop_Suc)
    then have "foldl sink es [1..<Suc n] = sink (?s @ es ! n # drop (Suc n) es) (length ?s)"
      using n Suc.IH Suc.prems by simp
    also have "\<dots> = put_in_order (es ! n) ?s @ drop (Suc n) es"
      by (rule sink_put_in_order) simp
    also have "put_in_order (es ! n) ?s = sort_key pk_pkOrder (take (Suc n) es)"
    proof (rule properties_for_sort_key [symmetric])
      show "mset (put_in_order (es ! n) ?s) = mset (take (Suc n) es)"
        using Suc.prems by (simp add: mset_put_in_order take_Suc_conv_app_nth)
      show "sorted (map pk_pkOrder (put_in_order (es ! n) ?s))"
        by (simp add: sorted_put_in_order)
      show "filter (\<lambda>x. pk_pkOrder k = pk_pkOrder x) (put_in_order (es ! n) ?s) =
          filter (\<lambda>x. pk_pkOrder k = pk_pkOrder x) (take (Suc n) es)" for k
        using put_in_order_filter [of ?s "pk_pkOrder k" "es ! n"] Suc.prems
          sort_key_stable [of pk_pkOrder "pk_pkOrder k" "take n es"]
        by (simp add: eq_commute [of "pk_pkOrder k"] take_Suc_conv_app_nth)
    qed
    finally show ?thesis .
  qed
qed simp

lemma sortPKByOrder_sort_key: "sortPKByOrder es = sort_key pk_pkOrder es"
proof (cases es)
  case (Cons e es')
  then show ?thesis
    unfolding sortPKByOrder_def by (subst sort_loop) auto
qed (simp add: sortPKByOrder_def)

text \<open>C38: the swapping loop of sortPKByOrder is the stable sort by key position: entries with the same
  position keep their order.\<close>

theorem sortPKByOrder_stable_sort: "sortPKByOrder es = sort_key pk_pkOrder es"
  by (rule sortPKByOrder_sort_key)

end
