(* ===== verification/Sqlite_Errors.thy ===== *)
theory Sqlite_Errors
  imports Db_Types
begin

text \<open>
  errors.go and sqlite_classifier.go: the "not found" error, and the classification of an error of an
  INSERT as a duplicate key.
\<close>

definition newCollectionNotFoundError :: "string \<Rightarrow> err" where
  "newCollectionNotFoundError name = Newf ''dalgo2sqlite: collection %q not found'' [Str name]"

definition sqliteConstraintPrimaryKey :: int where "sqliteConstraintPrimaryKey = 1555"
definition sqliteConstraintUnique :: int where "sqliteConstraintUnique = 2067"

definition IsAlreadyExists :: "err \<Rightarrow> bool" where
  "IsAlreadyExists e =
     (case errors_as_sqlite e of
        None \<Rightarrow> False
      | Some code \<Rightarrow> code = sqliteConstraintPrimaryKey \<or> code = sqliteConstraintUnique)"

text \<open>The first SQLite error that \<open>Unwrap\<close> reaches, through any chain of wrappings.\<close>

fun wrap_all :: "(string \<times> fmt_arg list) list \<Rightarrow> err \<Rightarrow> err" where
  "wrap_all [] e = e"
| "wrap_all ((f, args) # ws) e = Wrapf f args (wrap_all ws e)"

lemma errors_as_wrap_all [simp]: "errors_as_sqlite (wrap_all ws e) = errors_as_sqlite e"
  by (induction ws) auto

lemma errors_as_join:
  "errors_as_sqlite (Join es) =
     (case filter (\<lambda>e. errors_as_sqlite e \<noteq> None) es of [] \<Rightarrow> None | e # _ \<Rightarrow> errors_as_sqlite e)"
  by (induction es) (auto split: option.splits)

text \<open>C39: an error is a duplicate key exactly when the first SQLite error it wraps, directly, through any
  number of %w wrappings or inside an errors.Join, has the code 1555 or 2067; in particular neither the
  plain SQLITE_CONSTRAINT (19) nor an error that wraps no SQLite error is one.\<close>

theorem IsAlreadyExists_classifies:
  "(IsAlreadyExists (wrap_all ws (Sqlite_Error code)) \<longleftrightarrow> code = 1555 \<or> code = 2067) \<and>
   \<not> IsAlreadyExists (wrap_all ws (Sqlite_Error 19)) \<and> \<not> IsAlreadyExists (wrap_all ws (Newf f args)) \<and>
   IsAlreadyExists (wrap_all ws (Join es)) =
     (case filter (\<lambda>e. errors_as_sqlite e \<noteq> None) es of [] \<Rightarrow> False | e # _ \<Rightarrow> IsAlreadyExists e)"
  unfolding IsAlreadyExists_def errors_as_wrap_all errors_as_join
  by (auto simp: sqliteConstraintPrimaryKey_def sqliteConstraintUnique_def split: list.splits)

end
