(* ===== verification/Go_Float.thy ===== *)
theory Go_Float
  imports Go_Prelude
begin

text \<open>
  Go's float64 and strconv.FormatFloat(x, 'g', -1, 64), which the driver uses to render a decimal
  column stored as REAL, and which database/sql uses to scan a REAL into a string. A finite value is
  a sign, an integer significand and a power of two; the rendering is the shortest decimal that lies
  in the value's rounding interval, the nearest one of that length.
\<close>

datatype float64 = F_NaN | F_Inf bool | F_Fin bool int int

text \<open>The binary64 values: normal with a 53-bit significand, or subnormal, or zero.\<close>

fun float64_ok :: "float64 \<Rightarrow> bool" where
  "float64_ok (F_Fin s m e) \<longleftrightarrow>
     (2 ^ 52 \<le> m \<and> m < 2 ^ 53 \<and> -1074 \<le> e \<and> e \<le> 971) \<or> (0 \<le> m \<and> m < 2 ^ 52 \<and> e = -1074)"
| "float64_ok _ \<longleftrightarrow> True"

text \<open>
  \<open>cmp_scaled t e c k\<close> compares \<open>t * 2 ^ e\<close> with \<open>c * 10 ^ k\<close> by clearing the negative powers:
  the two sides as integers.
\<close>

definition scaled_sides :: "int \<Rightarrow> int \<Rightarrow> int \<Rightarrow> int \<Rightarrow> int \<times> int" where
  "scaled_sides t e c k =
     (t * 2 ^ nat e * 10 ^ nat (- k), c * 10 ^ nat k * 2 ^ nat (- e))"

definition scaled_le :: "int \<Rightarrow> int \<Rightarrow> int \<Rightarrow> int \<Rightarrow> bool" where
  "scaled_le t e c k = (case scaled_sides t e c k of (a, b) \<Rightarrow> a \<le> b)"

definition scaled_less :: "int \<Rightarrow> int \<Rightarrow> int \<Rightarrow> int \<Rightarrow> bool" where
  "scaled_less t e c k = (case scaled_sides t e c k of (a, b) \<Rightarrow> a < b)"

text \<open>The integer part of \<open>t * 2 ^ e / 10 ^ k\<close>.\<close>

definition scaled_floor :: "int \<Rightarrow> int \<Rightarrow> int \<Rightarrow> int" where
  "scaled_floor t e k = (t * 2 ^ nat e * 10 ^ nat (- k)) div (10 ^ nat k * 2 ^ nat (- e))"

text \<open>
  The rounding interval of \<open>m * 2 ^ e\<close> in units of \<open>2 ^ (e - 2)\<close>: half way to each neighbour. The
  neighbour below a power of two is half as far, except in the lowest binade. The ends belong to the
  interval when the significand is even.
\<close>

definition lower_end :: "int \<Rightarrow> int \<Rightarrow> int" where
  "lower_end m e = (if m > 2 ^ 52 \<or> e = -1074 then 4 * m - 2 else 4 * m - 1)"

definition upper_end :: "int \<Rightarrow> int" where
  "upper_end m = 4 * m + 2"

definition in_interval :: "int \<Rightarrow> int \<Rightarrow> int \<Rightarrow> int \<Rightarrow> bool" where
  "in_interval m e c k =
     (if even m
      then scaled_le (lower_end m e) (e - 2) c k \<and> \<not> scaled_less (upper_end m) (e - 2) c k
      else scaled_less (lower_end m e) (e - 2) c k \<and> \<not> scaled_le (upper_end m) (e - 2) c k)"

text \<open>The decimal coefficient at scale \<open>10 ^ k\<close>, if the value has one in its interval.\<close>

definition decimal_at :: "int \<Rightarrow> int \<Rightarrow> int \<Rightarrow> int option" where
  "decimal_at m e k =
     (let lo = scaled_floor m e k; hi = lo + 1;
          down = in_interval m e lo k; up = in_interval m e hi k;
          half = scaled_sides (2 * m) e (2 * lo + 1) k
      in if down \<and> up
         then Some (if fst half < snd half \<or> fst half = snd half \<and> even lo then lo else hi)
         else if down then Some lo else if up then Some hi else None)"

text \<open>The number of digits before the decimal point: the least \<open>dp\<close> with \<open>m * 2 ^ e < 10 ^ dp\<close>.\<close>

fun leading_zeros :: "nat \<Rightarrow> int \<Rightarrow> int \<Rightarrow> int \<Rightarrow> int" where
  "leading_zeros 0 m e j = j"
| "leading_zeros (Suc fuel) m e j =
     (if 1 \<le> scaled_floor m e (- (j + 1)) then j else leading_zeros fuel m e (j + 1))"

definition decimal_point :: "int \<Rightarrow> int \<Rightarrow> int" where
  "decimal_point m e =
     (let i = scaled_floor m e 0
      in if 1 \<le> i then int (length (show_nat (nat i))) else - leading_zeros 400 m e 0)"

text \<open>The shortest coefficient: one digit first, then more. Seventeen digits always suffice.\<close>

fun shortest_from :: "nat \<Rightarrow> int \<Rightarrow> int \<Rightarrow> int \<Rightarrow> int \<times> int" where
  "shortest_from 0 m e k = (scaled_floor m e k, k)"
| "shortest_from (Suc fuel) m e k =
     (case decimal_at m e k of Some c \<Rightarrow> (c, k) | None \<Rightarrow> shortest_from fuel m e (k - 1))"

fun strip_zeros :: "string \<Rightarrow> string" where
  "strip_zeros s = rev (dropWhile (\<lambda>c. c = CHR ''0'') (rev s))"

text \<open>The digits without trailing zeros, and the position of the decimal point.\<close>

definition shortest_digits :: "int \<Rightarrow> int \<Rightarrow> string \<times> int" where
  "shortest_digits m e =
     (if m = 0 then ([], 0)
      else let (c, k) = shortest_from 17 m e (decimal_point m e - 1);
               ds = show_nat (nat c)
           in (strip_zeros ds, int (length ds) + k))"

text \<open>
  The layouts %e and %f of the digits. For 'g' with the shortest precision Go takes %e when the
  decimal exponent is less than -4 or at least 6.
\<close>

definition exponent_text :: "int \<Rightarrow> string" where
  "exponent_text x =
     (let d = show_nat (nat \<bar>x\<bar>)
      in ''e'' @ (if x < 0 then ''-'' else ''+'') @ (if length d < 2 then ''0'' else []) @ d)"

definition format_e :: "string \<Rightarrow> int \<Rightarrow> string" where
  "format_e ds dp = take 1 ds @ (if length ds > 1 then ''.'' @ drop 1 ds else []) @ exponent_text (dp - 1)"

definition format_f :: "string \<Rightarrow> int \<Rightarrow> string" where
  "format_f ds dp =
     (if dp > 0
      then (if length ds \<le> nat dp then ds @ replicate (nat dp - length ds) (CHR ''0'')
            else take (nat dp) ds @ ''.'' @ drop (nat dp) ds)
      else ''0'' @ (if ds = [] then [] else ''.'' @ replicate (nat (- dp)) (CHR ''0'') @ ds))"

fun format_float_g :: "float64 \<Rightarrow> string" where
  "format_float_g F_NaN = ''NaN''"
| "format_float_g (F_Inf neg) = (if neg then ''-Inf'' else ''+Inf'')"
| "format_float_g (F_Fin neg m e) =
     (case shortest_digits m e of (ds, dp) \<Rightarrow>
        (if neg then ''-'' else []) @
        (let x = (if ds = [] then 0 else dp) - 1
         in if x < -4 \<or> 6 \<le> x then format_e ds dp else format_f ds dp))"

end
