(* ===== verification/Sql_Store.thy ===== *)
theory Sql_Store
  imports Go_Float Db_Types
begin

text \<open>
  What the driver uses of package database/sql: values and scanning, result sets, a pool of
  connections with an optional limit, connections, and transactions.

  SQLite itself and its driver are not part of this repository. They are the parameter \<open>engine\<close>:
  what a statement does to the state \<open>'d\<close> of the database and what it returns. Every function takes
  an arbitrary engine, so every statement may fail at any point, with any error; what a property
  needs of SQLite it says as a hypothesis.

  The pool is modelled because much of the reader is written for a pool limited to one connection: a
  query takes a connection until its rows are drained or closed, and a query on a pool with no free
  connection waits. Nothing else runs in the meantime, so such a wait never ends: \<open>Blocked\<close>.
\<close>

section \<open>Values and scanning\<close>

datatype sqlval =
    V_Null | V_Int int | V_Real float64 | V_Text string | V_Blob string | V_Bool bool | V_Time string

fun as_string :: "sqlval \<Rightarrow> string" where
  "as_string V_Null = []"
| "as_string (V_Int i) = show_int i"
| "as_string (V_Real x) = format_float_g x"
| "as_string (V_Text s) = s"
| "as_string (V_Blob s) = s"
| "as_string (V_Bool b) = (if b then ''true'' else ''false'')"
| "as_string (V_Time s) = s"

text \<open>Rows.Scan into a string, an int, an int64, a sql.NullString and an any.\<close>

definition scan_string :: "sqlval \<Rightarrow> err + string" where
  "scan_string v = (if v = V_Null then Inl (Newf ''converting NULL to string is unsupported'' [])
                    else Inr (as_string v))"

definition scan_int :: "sqlval \<Rightarrow> err + int" where
  "scan_int v =
     (if v = V_Null then Inl (Newf ''converting NULL to int is unsupported'' [])
      else case go_atoi (as_string v) of
          None \<Rightarrow> Inl (Newf ''converting driver.Value type %T (%q) to a %s: %v'' [Type_of_value, Str (as_string v)])
        | Some i \<Rightarrow> Inr i)"

definition scan_null_string :: "sqlval \<Rightarrow> err + string option" where
  "scan_null_string v = (if v = V_Null then Inr None else map_sum id Some (scan_string v))"

definition scan_null_int :: "sqlval \<Rightarrow> err + int option" where
  "scan_null_int v = (if v = V_Null then Inr None else map_sum id Some (scan_int v))"

definition scan_any :: "sqlval \<Rightarrow> err + sqlval" where
  "scan_any v = Inr v"

lemma scan_simps [simp]:
  "scan_string (V_Text s) = Inr s" "int64_range i \<Longrightarrow> scan_int (V_Int i) = Inr i"
  "scan_null_string V_Null = Inr None" "scan_null_string (V_Text s) = Inr (Some s)"
  by (simp_all add: scan_string_def scan_int_def scan_null_string_def go_atoi_show_int)

text \<open>A row is scanned column by column; the first conversion that fails is the error.\<close>

definition scan_nil :: "nat \<Rightarrow> sqlval list \<Rightarrow> err + unit" where
  "scan_nil i row = Inr ()"

definition scan_col ::
  "(sqlval \<Rightarrow> err + 'a) \<Rightarrow> (nat \<Rightarrow> sqlval list \<Rightarrow> err + 'b) \<Rightarrow> nat \<Rightarrow> sqlval list \<Rightarrow> err + 'a \<times> 'b" where
  "scan_col f rest i row =
     (case row of
        [] \<Rightarrow> Inl (Newf ''sql: Scan called without enough columns'' [])
      | v # vs \<Rightarrow>
          (case f v of
             Inl e \<Rightarrow> Inl (Wrapf ''sql: Scan error on column index %d, name %q: %w'' [Num (int i)] e)
           | Inr x \<Rightarrow> (case rest (Suc i) vs of Inl e \<Rightarrow> Inl e | Inr y \<Rightarrow> Inr (x, y))))"

definition scan_row :: "nat \<Rightarrow> (nat \<Rightarrow> sqlval list \<Rightarrow> err + 'a) \<Rightarrow> sqlval list \<Rightarrow> err + 'a" where
  "scan_row n cols row =
     (if length row = n then cols 0 row
      else Inl (Newf ''sql: expected %d destination arguments in Scan, not %d'' [Num (int (length row)), Num (int n)]))"

lemma scan_col_simps [simp]:
  "scan_nil i row = Inr ()"
  "f v = Inr x \<Longrightarrow> scan_col f rest i (v # vs) = map_sum id (Pair x) (rest (Suc i) vs)"
  by (auto simp: scan_nil_def scan_col_def split: sum.splits)

section \<open>The engine\<close>

text \<open>
  The result of a query: the rows the driver delivers, the error that ended them early if any, and
  the error of closing the statement.
\<close>

record rowset =
  rs_rows :: "sqlval list list"
  rs_err :: "err option"
  rs_close :: "err option"

definition all_rows :: "sqlval list list \<Rightarrow> rowset" where
  "all_rows rows = \<lparr>rs_rows = rows, rs_err = None, rs_close = None\<rparr>"

lemma all_rows_sel [simp]:
  "rs_rows (all_rows r) = r" "rs_err (all_rows r) = None" "rs_close (all_rows r) = None"
  by (simp_all add: all_rows_def)

record 'd engine =
  eng_query :: "string \<Rightarrow> sqlval list \<Rightarrow> 'd \<Rightarrow> (err + rowset) \<times> 'd"
  eng_exec :: "string \<Rightarrow> sqlval list \<Rightarrow> 'd \<Rightarrow> err option \<times> 'd"
  eng_begin :: "'d \<Rightarrow> err option \<times> 'd"
  eng_commit :: "'d \<Rightarrow> err option \<times> 'd"
  eng_rollback :: "'d \<Rightarrow> err option \<times> 'd"

section \<open>The pool and its effects\<close>

text \<open>
  \<open>pl_open\<close> are the connections in use; \<open>pl_max\<close> is SetMaxOpenConns, 0 for no limit; \<open>pl_next\<close> names the
  next connection taken.
\<close>

record 'd pool =
  pl_db :: 'd
  pl_max :: nat
  pl_open :: "nat list"
  pl_next :: nat

text \<open>A pool limited to one connection, which is free.\<close>

definition one_connection :: "'d \<Rightarrow> 'd pool" where
  "one_connection d = \<lparr>pl_db = d, pl_max = 1, pl_open = [], pl_next = 0\<rparr>"

datatype 'a outcome = Blocked | Fail err | Ok 'a

type_synonym ('d, 'a) io = "'d pool \<Rightarrow> 'a outcome \<times> 'd pool"

definition io_return :: "'a \<Rightarrow> ('d, 'a) io" where
  "io_return x = (\<lambda>p. (Ok x, p))"

definition io_fail :: "err \<Rightarrow> ('d, 'a) io" where
  "io_fail e = (\<lambda>p. (Fail e, p))"

definition io_lift :: "err + 'a \<Rightarrow> ('d, 'a) io" where
  "io_lift r = (case r of Inl e \<Rightarrow> io_fail e | Inr x \<Rightarrow> io_return x)"

text \<open>\<open>x, err := m; if err != nil { return err }; f(x)\<close>.\<close>

definition io_bind :: "('d, 'a) io \<Rightarrow> ('a \<Rightarrow> ('d, 'b) io) \<Rightarrow> ('d, 'b) io" where
  "io_bind m f = (\<lambda>p. case m p of
      (Ok x, q) \<Rightarrow> f x q
    | (Fail e, q) \<Rightarrow> (Fail e, q)
    | (Blocked, q) \<Rightarrow> (Blocked, q))"

text \<open>Wrapping an error on its way out, ignoring it, and \<open>defer\<close>.\<close>

definition io_wrap :: "string \<Rightarrow> fmt_arg list \<Rightarrow> ('d, 'a) io \<Rightarrow> ('d, 'a) io" where
  "io_wrap f args m = (\<lambda>p. case m p of (Fail e, q) \<Rightarrow> (Fail (Wrapf f args e), q) | r \<Rightarrow> r)"

definition io_ignore :: "('d, 'a) io \<Rightarrow> ('d, unit) io" where
  "io_ignore m = (\<lambda>p. case m p of (Blocked, q) \<Rightarrow> (Blocked, q) | (_, q) \<Rightarrow> (Ok (), q))"

definition io_finally :: "('d, 'a) io \<Rightarrow> ('d pool \<Rightarrow> 'd pool) \<Rightarrow> ('d, 'a) io" where
  "io_finally m cleanup = (\<lambda>p. case m p of (Blocked, q) \<Rightarrow> (Blocked, q) | (r, q) \<Rightarrow> (r, cleanup q))"

text \<open>\<open>x, err := m\<close> with a branch for the error and one for the value.\<close>

definition io_try :: "('d, 'a) io \<Rightarrow> (err \<Rightarrow> ('d, 'b) io) \<Rightarrow> ('a \<Rightarrow> ('d, 'b) io) \<Rightarrow> ('d, 'b) io" where
  "io_try m h f = (\<lambda>p. case m p of
      (Ok x, q) \<Rightarrow> f x q
    | (Fail e, q) \<Rightarrow> h e q
    | (Blocked, q) \<Rightarrow> (Blocked, q))"

text \<open>An effect that cannot fail, such as closing rows.\<close>

definition io_do :: "('d pool \<Rightarrow> 'd pool) \<Rightarrow> ('d, unit) io" where
  "io_do f = (\<lambda>p. (Ok (), f p))"

text \<open>A loop that stops at the first error, and one that builds a list.\<close>

fun io_for :: "'a list \<Rightarrow> ('a \<Rightarrow> ('d, unit) io) \<Rightarrow> ('d, unit) io" where
  "io_for [] body = io_return ()"
| "io_for (x # xs) body = io_bind (body x) (\<lambda>_. io_for xs body)"

fun io_map :: "('a \<Rightarrow> ('d, 'b) io) \<Rightarrow> 'a list \<Rightarrow> ('d, 'b list) io" where
  "io_map f [] = io_return []"
| "io_map f (x # xs) = io_bind (f x) (\<lambda>y. io_bind (io_map f xs) (\<lambda>ys. io_return (y # ys)))"

named_theorems io_eval \<open>equations that run an effect on a pool\<close>

lemma io_simps [simp, io_eval]:
  "io_return x p = (Ok x, p)" "io_fail e p = (Fail e, p)"
  "io_lift (Inl e) = io_fail e" "io_lift (Inr x) = io_return x"
  "io_do f p = (Ok (), f p)"
  by (simp_all add: io_return_def io_fail_def io_lift_def io_do_def)

lemma io_bind_simps [simp, io_eval]:
  "m p = (Ok x, q) \<Longrightarrow> io_bind m f p = f x q"
  "m p = (Fail e, q) \<Longrightarrow> io_bind m f p = (Fail e, q)"
  "m p = (Blocked, q) \<Longrightarrow> io_bind m f p = (Blocked, q)"
  by (simp_all add: io_bind_def)

lemma io_try_simps [simp, io_eval]:
  "m p = (Ok x, q) \<Longrightarrow> io_try m h f p = f x q"
  "m p = (Fail e, q) \<Longrightarrow> io_try m h f p = h e q"
  "m p = (Blocked, q) \<Longrightarrow> io_try m h f p = (Blocked, q)"
  by (simp_all add: io_try_def)

lemma io_wrap_simps [simp, io_eval]:
  "m p = (Ok x, q) \<Longrightarrow> io_wrap f args m p = (Ok x, q)"
  "m p = (Fail e, q) \<Longrightarrow> io_wrap f args m p = (Fail (Wrapf f args e), q)"
  "m p = (Blocked, q) \<Longrightarrow> io_wrap f args m p = (Blocked, q)"
  by (simp_all add: io_wrap_def)

lemma io_finally_simps [simp, io_eval]:
  "m p = (Ok x, q) \<Longrightarrow> io_finally m cl p = (Ok x, cl q)"
  "m p = (Fail e, q) \<Longrightarrow> io_finally m cl p = (Fail e, cl q)"
  by (simp_all add: io_finally_def)

lemma io_ignore_simps [simp, io_eval]:
  "m p = (Ok x, q) \<Longrightarrow> io_ignore m p = (Ok (), q)"
  "m p = (Fail e, q) \<Longrightarrow> io_ignore m p = (Ok (), q)"
  by (simp_all add: io_ignore_def)

lemma io_bind_return [simp]: "io_bind (io_return x) f = f x" "io_bind (io_fail e) f = io_fail e"
  by (simp_all add: io_bind_def io_return_def io_fail_def)

section \<open>Connections, rows and transactions\<close>

definition db_conn :: "('d, nat) io" where
  "db_conn = (\<lambda>p. if pl_max p \<noteq> 0 \<and> length (pl_open p) \<ge> pl_max p then (Blocked, p)
                   else (Ok (pl_next p), p\<lparr>pl_open := pl_next p # pl_open p, pl_next := Suc (pl_next p)\<rparr>))"

definition conn_close :: "nat \<Rightarrow> 'd pool \<Rightarrow> 'd pool" where
  "conn_close c p = p\<lparr>pl_open := removeAll c (pl_open p)\<rparr>"

text \<open>
  Rows: the connection that is given back when they are closed (\<open>None\<close> when they run on a connection
  or a transaction that its owner gives back) and the result set.
\<close>

type_synonym rows = "nat option \<times> rowset"

definition rows_close :: "rows \<Rightarrow> 'd pool \<Rightarrow> 'd pool" where
  "rows_close h p = (case fst h of None \<Rightarrow> p | Some c \<Rightarrow> conn_close c p)"

definition conn_query :: "'d engine \<Rightarrow> string \<Rightarrow> sqlval list \<Rightarrow> ('d, rows) io" where
  "conn_query E q args = (\<lambda>p. case eng_query E q args (pl_db p) of
      (Inl e, d) \<Rightarrow> (Fail e, p\<lparr>pl_db := d\<rparr>)
    | (Inr rs, d) \<Rightarrow> (Ok (None, rs), p\<lparr>pl_db := d\<rparr>))"

definition conn_exec :: "'d engine \<Rightarrow> string \<Rightarrow> sqlval list \<Rightarrow> ('d, unit) io" where
  "conn_exec E q args = (\<lambda>p. case eng_exec E q args (pl_db p) of
      (Some e, d) \<Rightarrow> (Fail e, p\<lparr>pl_db := d\<rparr>)
    | (None, d) \<Rightarrow> (Ok (), p\<lparr>pl_db := d\<rparr>))"

definition db_query :: "'d engine \<Rightarrow> string \<Rightarrow> sqlval list \<Rightarrow> ('d, rows) io" where
  "db_query E q args = io_bind db_conn (\<lambda>c p. case conn_query E q args p of
      (Ok h, p') \<Rightarrow> (Ok (Some c, snd h), p')
    | (r, p') \<Rightarrow> (r, conn_close c p'))"

definition db_exec :: "'d engine \<Rightarrow> string \<Rightarrow> sqlval list \<Rightarrow> ('d, unit) io" where
  "db_exec E q args = io_bind db_conn (\<lambda>c. io_finally (conn_exec E q args) (conn_close c))"

text \<open>
  \<open>for rows.Next() { ... }\<close>: the body sees each row in turn; when the rows end, Next closes them. A body
  that returns early leaves them open. The error that ended the rows is Rows.Err.
\<close>

fun rows_fold :: "('a \<Rightarrow> sqlval list \<Rightarrow> err + 'a) \<Rightarrow> 'a \<Rightarrow> sqlval list list \<Rightarrow> err + 'a" where
  "rows_fold step acc [] = Inr acc"
| "rows_fold step acc (row # rest) =
     (case step acc row of Inl e \<Rightarrow> Inl e | Inr acc' \<Rightarrow> rows_fold step acc' rest)"

text \<open>The most frequent body: scan the row and append what it gives.\<close>

definition append_row :: "(sqlval list \<Rightarrow> err + 'a) \<Rightarrow> 'a list \<Rightarrow> sqlval list \<Rightarrow> err + 'a list" where
  "append_row scan acc row = result_bind (scan row) (\<lambda>x. Inr (acc @ [x]))"

lemma rows_fold_append_row:
  "rows_fold (append_row scan) acc rows = map_sum id ((@) acc) (map_result scan rows)"
proof (induction rows arbitrary: acc)
  case (Cons row rows)
  then show ?case
    by (auto simp: append_row_def map_result.simps(2) split: sum.splits)
qed simp

definition rows_each :: "rows \<Rightarrow> ('a \<Rightarrow> sqlval list \<Rightarrow> err + 'a) \<Rightarrow> 'a \<Rightarrow> ('d, 'a) io" where
  "rows_each h step acc = (\<lambda>p. case rows_fold step acc (rs_rows (snd h)) of
      Inl e \<Rightarrow> (Fail e, p)
    | Inr x \<Rightarrow> (Ok x, rows_close h p))"

definition rows_err :: "rows \<Rightarrow> ('d, unit) io" where
  "rows_err h = (case rs_err (snd h) of None \<Rightarrow> io_return () | Some e \<Rightarrow> io_fail e)"

text \<open>QueryRow(...).Scan(...): the first row, or the error of the rows, or ErrNoRows; the rows are closed.\<close>

definition first_row :: "rowset \<Rightarrow> (sqlval list \<Rightarrow> err + 'a) \<Rightarrow> err + 'a" where
  "first_row rs scan =
     (case rs_rows rs of
        [] \<Rightarrow> (case rs_err rs of Some e \<Rightarrow> Inl e | None \<Rightarrow> Inl Err_No_Rows)
      | row # _ \<Rightarrow>
          (case scan row of
             Inl e \<Rightarrow> Inl e
           | Inr x \<Rightarrow> (case rs_close rs of Some e \<Rightarrow> Inl e | None \<Rightarrow> Inr x)))"

definition db_query_row ::
  "'d engine \<Rightarrow> string \<Rightarrow> sqlval list \<Rightarrow> (sqlval list \<Rightarrow> err + 'a) \<Rightarrow> ('d, 'a) io" where
  "db_query_row E q args scan =
     io_bind (db_query E q args) (\<lambda>h. io_finally (io_lift (first_row (snd h) scan)) (rows_close h))"

definition conn_query_row ::
  "'d engine \<Rightarrow> string \<Rightarrow> sqlval list \<Rightarrow> (sqlval list \<Rightarrow> err + 'a) \<Rightarrow> ('d, 'a) io" where
  "conn_query_row E q args scan = io_bind (conn_query E q args) (\<lambda>h. io_lift (first_row (snd h) scan))"

text \<open>
  A query whose rows are all read, their error checked and the rows closed, before anything else runs
  (a \<open>defer rows.Close()\<close> left over then finds them closed). \<open>cq\<close> and \<open>ce\<close> are the contexts that the source
  wraps the error of the query and the error that ended the rows in, if any.
\<close>

type_synonym error_context = "(string \<times> fmt_arg list) option"

definition io_context :: "error_context \<Rightarrow> ('d, 'a) io \<Rightarrow> ('d, 'a) io" where
  "io_context ctx m = (case ctx of None \<Rightarrow> m | Some (f, args) \<Rightarrow> io_wrap f args m)"

definition rows_drain ::
  "error_context \<Rightarrow> rows \<Rightarrow> ('a \<Rightarrow> sqlval list \<Rightarrow> err + 'a) \<Rightarrow> 'a \<Rightarrow> ('d, 'a) io" where
  "rows_drain ce h step acc =
     io_finally
       (io_bind (rows_each h step acc) (\<lambda>x. io_bind (io_context ce (rows_err h)) (\<lambda>_. io_return x)))
       (rows_close h)"

definition db_read ::
  "'d engine \<Rightarrow> string \<Rightarrow> sqlval list \<Rightarrow> error_context \<Rightarrow> error_context \<Rightarrow>
   ('a \<Rightarrow> sqlval list \<Rightarrow> err + 'a) \<Rightarrow> 'a \<Rightarrow> ('d, 'a) io" where
  "db_read E q args cq ce step acc =
     io_bind (io_context cq (db_query E q args)) (\<lambda>h. rows_drain ce h step acc)"

definition conn_read ::
  "'d engine \<Rightarrow> string \<Rightarrow> sqlval list \<Rightarrow> error_context \<Rightarrow> error_context \<Rightarrow>
   ('a \<Rightarrow> sqlval list \<Rightarrow> err + 'a) \<Rightarrow> 'a \<Rightarrow> ('d, 'a) io" where
  "conn_read E q args cq ce step acc =
     io_bind (io_context cq (conn_query E q args)) (\<lambda>h. rows_drain ce h step acc)"

text \<open>A result set of one text column.\<close>

definition scan_name :: "sqlval list \<Rightarrow> err + string" where
  "scan_name row = map_sum id fst (scan_row 1 (scan_col scan_string scan_nil) row)"

lemma scan_name_text [simp]: "scan_name [V_Text s] = Inr s"
  by (simp add: scan_name_def scan_row_def)

text \<open>A transaction holds a connection from BeginTx to Commit or Rollback.\<close>

definition engine_step :: "('d \<Rightarrow> err option \<times> 'd) \<Rightarrow> ('d, unit) io" where
  "engine_step f = (\<lambda>p. case f (pl_db p) of
      (Some e, d) \<Rightarrow> (Fail e, p\<lparr>pl_db := d\<rparr>)
    | (None, d) \<Rightarrow> (Ok (), p\<lparr>pl_db := d\<rparr>))"

definition begin_tx :: "'d engine \<Rightarrow> ('d, nat) io" where
  "begin_tx E = io_bind db_conn (\<lambda>c p. case engine_step (eng_begin E) p of
      (Ok _, p') \<Rightarrow> (Ok c, p')
    | (Fail e, p') \<Rightarrow> (Fail e, conn_close c p')
    | (Blocked, p') \<Rightarrow> (Blocked, p'))"

definition tx_commit :: "'d engine \<Rightarrow> nat \<Rightarrow> ('d, unit) io" where
  "tx_commit E c = io_finally (engine_step (eng_commit E)) (conn_close c)"

definition tx_rollback :: "'d engine \<Rightarrow> nat \<Rightarrow> ('d, unit) io" where
  "tx_rollback E c = io_finally (engine_step (eng_rollback E)) (conn_close c)"

end
