(* ===== verification/Pool_Safety.thy ===== *)
theory Pool_Safety
  imports Sql_Store
begin

text \<open>
  A logic for the use of the pool. \<open>pool_triple F A m B\<close>: started with at most the connections \<open>A\<close>
  in use, the effect never waits for a connection, leaves at most \<open>B x\<close> in use when it returns \<open>x\<close> and
  at most \<open>F\<close> when it returns an error. The rules follow the way the source is written: a query whose
  rows are closed by a defer, drained before the next query, and so on. An effect with
  \<open>pool_safe\<close> runs on a pool of one connection and gives back every connection it takes, on every path.
\<close>

named_theorems pool_rules \<open>rules that derive the use of the pool from the structure of the code\<close>

definition pool_post :: "nat set \<Rightarrow> ('a \<Rightarrow> nat set) \<Rightarrow> 'a outcome \<times> 'd pool \<Rightarrow> bool" where
  "pool_post F B r =
     (case r of
        (Blocked, q) \<Rightarrow> False
      | (Fail e, q) \<Rightarrow> set (pl_open q) \<subseteq> F
      | (Ok x, q) \<Rightarrow> set (pl_open q) \<subseteq> B x)"

definition pool_triple :: "nat set \<Rightarrow> nat set \<Rightarrow> ('d, 'a) io \<Rightarrow> ('a \<Rightarrow> nat set) \<Rightarrow> bool" where
  "pool_triple F A m B \<longleftrightarrow> (\<forall>p. set (pl_open p) \<subseteq> A \<longrightarrow> pool_post F B (m p))"

lemma pool_post_simps [simp]:
  "\<not> pool_post F B (Blocked, q)"
  "pool_post F B (Fail e, q) \<longleftrightarrow> set (pl_open q) \<subseteq> F"
  "pool_post F B (Ok x, q) \<longleftrightarrow> set (pl_open q) \<subseteq> B x"
  by (simp_all add: pool_post_def)

lemma pool_tripleI: "(\<And>p. set (pl_open p) \<subseteq> A \<Longrightarrow> pool_post F B (m p)) \<Longrightarrow> pool_triple F A m B"
  by (simp add: pool_triple_def)

text \<open>The two ways a triple lets an effect end.\<close>

lemma pool_tripleE:
  assumes "pool_triple F A m B" and "set (pl_open p) \<subseteq> A"
  obtains (ok) x q where "m p = (Ok x, q)" "set (pl_open q) \<subseteq> B x"
        | (fail) e q where "m p = (Fail e, q)" "set (pl_open q) \<subseteq> F"
proof -
  from assms have post: "pool_post F B (m p)" by (simp add: pool_triple_def)
  obtain r q where "m p = (r, q)" by (cases "m p")
  with post that show thesis by (cases r) auto
qed

definition pool_safe :: "('d, 'a) io \<Rightarrow> bool" where
  "pool_safe m \<longleftrightarrow> pool_triple {} {} m (\<lambda>_. {})"

definition held :: "rows \<Rightarrow> nat set" where
  "held h = (case fst h of None \<Rightarrow> {} | Some c \<Rightarrow> {c})"

lemma pool_triple_weaken:
  fixes m :: "('d, 'a) io"
  assumes "pool_triple F A m B" "A' \<subseteq> A" "F \<subseteq> F'" "\<And>x. B x \<subseteq> B' x"
  shows "pool_triple F' A' m B'"
proof (rule pool_tripleI)
  fix p :: "'d pool" assume "set (pl_open p) \<subseteq> A'"
  with assms(2) have "set (pl_open p) \<subseteq> A" by blast
  with assms(1) show "pool_post F' B' (m p)"
  proof (cases rule: pool_tripleE)
    case (ok x q)
    with assms(4) [of x] show ?thesis by auto
  next
    case (fail e q)
    with assms(3) show ?thesis by auto
  qed
qed

lemma pool_triple_return [pool_rules]: "A \<subseteq> B x \<Longrightarrow> pool_triple F A (io_return x) B"
  by (auto simp: pool_triple_def)

lemma pool_triple_fail [pool_rules]: "A \<subseteq> F \<Longrightarrow> pool_triple F A (io_fail e) B"
  by (auto simp: pool_triple_def)

lemma pool_triple_lift [pool_rules]:
  "A \<subseteq> F \<Longrightarrow> (\<And>x. A \<subseteq> B x) \<Longrightarrow> pool_triple F A (io_lift r) B"
  by (cases r) (auto intro: pool_rules)

lemma pool_triple_bind:
  fixes m :: "('d, 'a) io"
  assumes "pool_triple F A m B" and "\<And>x. pool_triple F (B x) (f x) C"
  shows "pool_triple F A (io_bind m f) C"
proof (rule pool_tripleI)
  fix p :: "'d pool" assume "set (pl_open p) \<subseteq> A"
  with assms(1) show "pool_post F C (io_bind m f p)"
  proof (cases rule: pool_tripleE)
    case (ok x q)
    with assms(2) [of x] show ?thesis by (simp add: pool_triple_def)
  qed simp
qed

lemma pool_triple_wrap [pool_rules]:
  fixes m :: "('d, 'a) io"
  assumes "pool_triple F A m B"
  shows "pool_triple F A (io_wrap f args m) B"
proof (rule pool_tripleI)
  fix p :: "'d pool" assume "set (pl_open p) \<subseteq> A"
  with assms show "pool_post F B (io_wrap f args m p)"
    by (cases rule: pool_tripleE) (simp_all add: io_wrap_def)
qed

lemma pool_triple_ignore [pool_rules]:
  fixes m :: "('d, 'a) io"
  assumes "pool_triple F A m (\<lambda>_. F)" and "F \<subseteq> B ()"
  shows "pool_triple G A (io_ignore m) B"
proof (rule pool_tripleI)
  fix p :: "'d pool" assume "set (pl_open p) \<subseteq> A"
  with assms(1) show "pool_post G B (io_ignore m p)"
    by (cases rule: pool_tripleE) (use assms(2) in \<open>auto simp: io_ignore_def\<close>)
qed

lemma pool_triple_try:
  fixes m :: "('d, 'a) io"
  assumes "pool_triple G A m B" and "\<And>e. pool_triple F G (h e) C" and "\<And>x. pool_triple F (B x) (f x) C"
  shows "pool_triple F A (io_try m h f) C"
proof (rule pool_tripleI)
  fix p :: "'d pool" assume "set (pl_open p) \<subseteq> A"
  with assms(1) show "pool_post F C (io_try m h f p)"
  proof (cases rule: pool_tripleE)
    case (ok x q)
    with assms(3) [of x] show ?thesis by (simp add: pool_triple_def)
  next
    case (fail e q)
    with assms(2) [of e] show ?thesis by (simp add: pool_triple_def)
  qed
qed

lemma set_open_conn_close [simp]: "set (pl_open (conn_close c p)) = set (pl_open p) - {c}"
  by (simp add: conn_close_def)

lemma set_open_rows_close [simp]: "set (pl_open (rows_close h p)) = set (pl_open p) - held h"
  by (auto simp: rows_close_def held_def split: option.splits)

lemma pool_triple_finally:
  fixes m :: "('d, 'a) io"
  assumes "pool_triple H A m (\<lambda>_. H)" and "\<And>q. set (pl_open (cleanup q)) = set (pl_open q) - H"
  shows "pool_triple {} A (io_finally m cleanup) (\<lambda>_. {})"
proof (rule pool_tripleI)
  fix p :: "'d pool" assume "set (pl_open p) \<subseteq> A"
  with assms(1) show "pool_post {} (\<lambda>_. {}) (io_finally m cleanup p)"
    by (cases rule: pool_tripleE) (use assms(2) in \<open>simp_all add: io_finally_def flip: set_empty\<close>)
qed

lemmas pool_triple_finally_rows = pool_triple_finally [where H = "held h" and cleanup = "rows_close h" for h,
    OF _ set_open_rows_close]
lemmas pool_triple_finally_conn = pool_triple_finally [where H = "{c}" and cleanup = "conn_close c" for c,
    OF _ set_open_conn_close]

lemma pool_triple_conn: "pool_triple {} {} db_conn (\<lambda>c. {c})"
  by (auto simp: pool_triple_def db_conn_def)

lemma pool_triple_conn_query [pool_rules]:
  assumes "A \<subseteq> F" and "\<And>h. fst h = None \<Longrightarrow> A \<subseteq> B h"
  shows "pool_triple F A (conn_query E q args) B"
proof (rule pool_tripleI)
  fix p :: "'a pool" assume p: "set (pl_open p) \<subseteq> A"
  obtain r d where r: "eng_query E q args (pl_db p) = (r, d)" by (cases "eng_query E q args (pl_db p)")
  show "pool_post F B (conn_query E q args p)"
  proof (cases r)
    case (Inl e)
    then show ?thesis using r p assms(1) by (auto simp: conn_query_def)
  next
    case (Inr rs)
    then show ?thesis using r p assms(2) [of "(None, rs)"] by (simp add: conn_query_def)
  qed
qed

lemma pool_triple_conn_exec [pool_rules]:
  "A \<subseteq> F \<Longrightarrow> A \<subseteq> B () \<Longrightarrow> pool_triple F A (conn_exec E q args) B"
  by (rule pool_tripleI) (auto simp: conn_exec_def split: prod.splits option.splits)

lemma pool_triple_engine_step [pool_rules]:
  "A \<subseteq> F \<Longrightarrow> A \<subseteq> B () \<Longrightarrow> pool_triple F A (engine_step f) B"
  by (rule pool_tripleI) (auto simp: engine_step_def split: prod.splits option.splits)

lemma pool_triple_query: "pool_triple {} {} (db_query E q args) held"
proof -
  have "pool_triple {} {c} (\<lambda>p. case conn_query E q args p of
      (Ok h, p') \<Rightarrow> (Ok (Some c, snd h), p') | (r, p') \<Rightarrow> (r, conn_close c p')) held" for c
  proof (rule pool_tripleI)
    fix p :: "'a pool" assume p: "set (pl_open p) \<subseteq> {c}"
    have "pool_triple {c} {c} (conn_query E q args) (\<lambda>_. {c})" by (rule pool_triple_conn_query) auto
    then show "pool_post {} held (case conn_query E q args p of
      (Ok h, p') \<Rightarrow> (Ok (Some c, snd h), p') | (r, p') \<Rightarrow> (r, conn_close c p'))"
      using p by (cases rule: pool_tripleE) (auto simp: held_def simp flip: set_empty)
  qed
  then show ?thesis
    unfolding db_query_def by (rule pool_triple_bind [OF pool_triple_conn])
qed

lemma pool_triple_each_open:
  "pool_triple (held h) (held h) (rows_each h step acc) (\<lambda>_. {})"
  by (rule pool_tripleI) (auto simp: rows_each_def simp flip: set_empty split: sum.splits)

lemma pool_triple_each:
  "A \<subseteq> F \<Longrightarrow> (\<And>x. A \<subseteq> B x) \<Longrightarrow> pool_triple F A (rows_each h step acc) B"
  by (rule pool_tripleI) (auto simp: rows_each_def split: sum.splits)

lemma pool_triple_err [pool_rules]: "A \<subseteq> F \<Longrightarrow> A \<subseteq> B () \<Longrightarrow> pool_triple F A (rows_err h) B"
  by (cases "rs_err (snd h)") (auto simp: rows_err_def intro: pool_rules)

lemma pool_triple_close: "pool_triple F (held h) (io_do (rows_close h)) (\<lambda>_. {})"
  by (auto simp: pool_triple_def simp flip: set_empty)

section \<open>Effects that need one connection at most\<close>

lemma pool_safe_return [pool_rules]: "pool_safe (io_return x)"
  by (simp add: pool_safe_def pool_triple_return)

lemma pool_safe_fail [pool_rules]: "pool_safe (io_fail e)"
  by (simp add: pool_safe_def pool_triple_fail)

lemma pool_safe_lift [pool_rules]: "pool_safe (io_lift r)"
  by (simp add: pool_safe_def pool_triple_lift)

lemma pool_safe_bind [pool_rules]:
  "pool_safe m \<Longrightarrow> (\<And>x. pool_safe (f x)) \<Longrightarrow> pool_safe (io_bind m f)"
  unfolding pool_safe_def by (rule pool_triple_bind)

lemma pool_safe_wrap [pool_rules]: "pool_safe m \<Longrightarrow> pool_safe (io_wrap f args m)"
  unfolding pool_safe_def by (rule pool_triple_wrap)

lemma pool_safe_try [pool_rules]:
  "pool_safe m \<Longrightarrow> (\<And>e. pool_safe (h e)) \<Longrightarrow> (\<And>x. pool_safe (f x)) \<Longrightarrow> pool_safe (io_try m h f)"
  unfolding pool_safe_def by (rule pool_triple_try)

lemma pool_safe_ignore [pool_rules]: "pool_safe m \<Longrightarrow> pool_safe (io_ignore m)"
  unfolding pool_safe_def by (rule pool_triple_ignore) auto

lemma pool_safe_for [pool_rules]: "(\<And>x. x \<in> set xs \<Longrightarrow> pool_safe (body x)) \<Longrightarrow> pool_safe (io_for xs body)"
  by (induction xs) (auto intro: pool_safe_return pool_safe_bind)

lemma pool_safe_map [pool_rules]: "(\<And>x. x \<in> set xs \<Longrightarrow> pool_safe (f x)) \<Longrightarrow> pool_safe (io_map f xs)"
  by (induction xs) (auto intro: pool_safe_return pool_safe_bind)

text \<open>A safe effect may run while the rows of a closed query are still in scope.\<close>

lemma pool_safe_after_close: "pool_safe m \<Longrightarrow> pool_triple F {} m (\<lambda>_. B)"
  unfolding pool_safe_def by (erule pool_triple_weaken) auto

text \<open>\<open>rows, err := db.Query(...); defer rows.Close()\<close>.\<close>

lemma pool_safe_with_rows:
  assumes "\<And>h. pool_triple (held h) (held h) (body h) (\<lambda>_. held h)"
  shows "pool_safe (io_bind (io_wrap f args (db_query E q qargs)) (\<lambda>h. io_finally (body h) (rows_close h)))"
  unfolding pool_safe_def
  by (rule pool_triple_bind [OF pool_triple_wrap [OF pool_triple_query]])
    (rule pool_triple_finally_rows, rule assms)

lemma pool_safe_query_row [pool_rules]: "pool_safe (db_query_row E q args scan)"
  unfolding pool_safe_def db_query_row_def
  by (rule pool_triple_bind [OF pool_triple_query])
    (rule pool_triple_finally_rows, rule pool_triple_lift, auto)

lemma pool_safe_exec [pool_rules]: "pool_safe (db_exec E q args)"
  unfolding pool_safe_def db_exec_def
  by (rule pool_triple_bind [OF pool_triple_conn])
    (rule pool_triple_finally_conn, rule pool_triple_conn_exec, auto)

lemma pool_safe_begin: "pool_triple {} {} (begin_tx E) (\<lambda>c. {c})"
proof -
  have "pool_triple {} {c} (\<lambda>p. case engine_step (eng_begin E) p of
      (Ok _, p') \<Rightarrow> (Ok c, p') | (Fail e, p') \<Rightarrow> (Fail e, conn_close c p')
    | (Blocked, p') \<Rightarrow> (Blocked, p')) (\<lambda>c. {c})" for c
  proof (rule pool_tripleI)
    fix p :: "'a pool" assume p: "set (pl_open p) \<subseteq> {c}"
    have "pool_triple {c} {c} (engine_step (eng_begin E)) (\<lambda>_. {c})"
      by (rule pool_triple_engine_step) auto
    then show "pool_post {} (\<lambda>c. {c}) (case engine_step (eng_begin E) p of
      (Ok _, p') \<Rightarrow> (Ok c, p') | (Fail e, p') \<Rightarrow> (Fail e, conn_close c p')
    | (Blocked, p') \<Rightarrow> (Blocked, p'))"
      using p by (cases rule: pool_tripleE) (auto simp flip: set_empty)
  qed
  then show ?thesis
    unfolding begin_tx_def by (rule pool_triple_bind [OF pool_triple_conn])
qed

lemma pool_triple_commit: "pool_triple {} {c} (tx_commit E c) (\<lambda>_. {})"
  unfolding tx_commit_def by (rule pool_triple_finally_conn, rule pool_triple_engine_step) auto

lemma pool_triple_rollback: "pool_triple {} {c} (tx_rollback E c) (\<lambda>_. {})"
  unfolding tx_rollback_def by (rule pool_triple_finally_conn, rule pool_triple_engine_step) auto

text \<open>The body of such a query: drain the rows, check their error, then go on without them.\<close>

lemma pool_body_drained:
  assumes "\<And>x. pool_safe (rest x)"
  shows "pool_triple (held h) (held h) (io_bind (io_wrap f args (rows_each h step acc)) rest) (\<lambda>_. held h)"
    and "pool_triple (held h) (held h) (io_bind (rows_each h step acc) rest) (\<lambda>_. held h)"
  by (rule pool_triple_bind [OF pool_triple_wrap [OF pool_triple_each_open]] pool_triple_bind [OF pool_triple_each_open];
      rule pool_safe_after_close, rule assms)+

lemma pool_safe_rows_err [pool_rules]: "pool_safe (rows_err h)"
  by (auto simp: pool_safe_def intro: pool_triple_err)

lemma pool_safe_close [pool_rules]: "pool_safe (io_do (rows_close h))"
  by (auto simp: pool_safe_def pool_triple_def simp flip: set_empty)

text \<open>Queries that are read to their end.\<close>

lemma pool_triple_context [pool_rules]: "pool_triple F A m B \<Longrightarrow> pool_triple F A (io_context ctx m) B"
  by (auto simp: io_context_def intro: pool_triple_wrap split: option.splits)

lemma pool_triple_drain: "pool_triple {} (held h) (rows_drain ce h step acc) (\<lambda>_. {})"
  unfolding rows_drain_def
  by (rule pool_triple_finally_rows, rule pool_triple_bind [OF pool_triple_each_open])
    (auto intro!: pool_triple_bind pool_triple_context pool_triple_err pool_triple_return)

lemma pool_safe_db_read [pool_rules]: "pool_safe (db_read E q args cq ce step acc)"
  unfolding pool_safe_def db_read_def
  by (rule pool_triple_bind [OF pool_triple_context [OF pool_triple_query] pool_triple_drain])

text \<open>Statements on a connection whose owner holds it: they keep the pool as it is.\<close>

definition keeps_open :: "('d, 'a) io \<Rightarrow> bool" where
  "keeps_open m \<longleftrightarrow> (\<forall>A. pool_triple A A m (\<lambda>_. A))"

named_theorems keep_rules \<open>rules for effects on a connection that is held\<close>

lemma keeps_open_return [keep_rules]: "keeps_open (io_return x)"
  and keeps_open_fail [keep_rules]: "keeps_open (io_fail e)"
  and keeps_open_lift [keep_rules]: "keeps_open (io_lift r)"
  and keeps_open_exec [keep_rules]: "keeps_open (conn_exec E q args)"
  by (simp_all add: keeps_open_def pool_triple_return pool_triple_fail pool_triple_lift pool_triple_conn_exec)

lemma keeps_open_bind [keep_rules]: "keeps_open m \<Longrightarrow> (\<And>x. keeps_open (f x)) \<Longrightarrow> keeps_open (io_bind m f)"
  unfolding keeps_open_def by (blast intro: pool_triple_bind)

lemma keeps_open_wrap [keep_rules]: "keeps_open m \<Longrightarrow> keeps_open (io_wrap f args m)"
  and keeps_open_context [keep_rules]: "keeps_open m \<Longrightarrow> keeps_open (io_context ctx m)"
  and keeps_open_ignore [keep_rules]: "keeps_open m' \<Longrightarrow> keeps_open (io_ignore m')"
  unfolding keeps_open_def
  by (blast intro: pool_triple_wrap, blast intro: pool_triple_context) (rule allI, rule pool_triple_ignore, auto)

lemma keeps_open_try [keep_rules]:
  "keeps_open m \<Longrightarrow> (\<And>e. keeps_open (h e)) \<Longrightarrow> (\<And>x. keeps_open (f x)) \<Longrightarrow> keeps_open (io_try m h f)"
  unfolding keeps_open_def by (blast intro: pool_triple_try)

lemma keeps_open_map [keep_rules]: "(\<And>x. x \<in> set xs \<Longrightarrow> keeps_open (f x)) \<Longrightarrow> keeps_open (io_map f xs)"
  by (induction xs) (auto intro: keeps_open_return keeps_open_bind)

text \<open>Rows on a held connection are closed without giving it back.\<close>

lemma keeps_open_conn_rows [keep_rules]:
  assumes "\<And>h. fst h = None \<Longrightarrow> keeps_open (body h)"
  shows "keeps_open (io_bind (io_context cq (conn_query E q args)) (\<lambda>h. io_finally (body h) (rows_close h)))"
  unfolding keeps_open_def
proof (intro allI pool_tripleI)
  fix A :: "nat set" and p :: "'a pool"
  let ?m = "io_bind (io_context cq (conn_query E q args)) (\<lambda>h. io_finally (body h) (rows_close h))"
  assume p: "set (pl_open p) \<subseteq> A"
  obtain r d where r: "eng_query E q args (pl_db p) = (r, d)" by fastforce
  show "pool_post A (\<lambda>_. A) (?m p)"
  proof (cases r)
    case (Inl e)
    then show ?thesis
      using r p by (cases cq) (auto simp: io_context_def conn_query_def io_bind_def io_wrap_def)
  next
    case (Inr rs)
    then have "?m p = io_finally (body (None, rs)) (rows_close (None, rs)) (p\<lparr>pl_db := d\<rparr>)"
      using r by (cases cq) (auto simp: io_context_def conn_query_def io_bind_def io_wrap_def)
    moreover have "pool_triple A A (body (None, rs)) (\<lambda>_. A)"
      using assms [of "(None, rs)"] by (simp add: keeps_open_def)
    then have "pool_post A (\<lambda>_. A) (body (None, rs) (p\<lparr>pl_db := d\<rparr>))"
      using p by (simp add: pool_triple_def)
    ultimately show ?thesis
      by (cases "body (None, rs) (p\<lparr>pl_db := d\<rparr>)"; cases "fst (body (None, rs) (p\<lparr>pl_db := d\<rparr>))")
        (auto simp: io_finally_def rows_close_def)
  qed
qed

lemma keeps_open_each: "fst h = None \<Longrightarrow> keeps_open (rows_each h step acc)"
  by (auto simp: keeps_open_def pool_triple_def rows_each_def rows_close_def split: sum.splits)

lemma keeps_open_err [keep_rules]: "keeps_open (rows_err h)"
  by (simp add: keeps_open_def pool_triple_err)

lemma keeps_open_conn_read [keep_rules]: "keeps_open (conn_read E q args cq ce step acc)"
  unfolding conn_read_def rows_drain_def
  by (intro keeps_open_conn_rows keeps_open_bind keeps_open_each keeps_open_context keeps_open_err keeps_open_return)

lemma keeps_open_query_row [keep_rules]: "keeps_open (conn_query_row E q args scan)"
  unfolding keeps_open_def conn_query_row_def
  by (intro allI pool_triple_bind [where B = "\<lambda>_. A" for A] pool_triple_conn_query pool_triple_lift) auto

text \<open>\<open>conn, err := db.Conn(ctx); defer conn.Close()\<close>.\<close>

lemma pool_safe_with_conn:
  assumes "\<And>c. keeps_open (body c)"
  shows "pool_safe (io_bind (io_wrap f args db_conn) (\<lambda>c. io_finally (body c) (conn_close c)))"
  unfolding pool_safe_def
  by (rule pool_triple_bind [OF pool_triple_wrap [OF pool_triple_conn]], rule pool_triple_finally_conn)
    (use assms in \<open>simp add: keeps_open_def\<close>)

text \<open>What \<open>pool_safe\<close> means for a run.\<close>

lemma pool_safe_run:
  assumes "pool_safe m" and "pl_open p = []"
  shows "fst (m p) \<noteq> Blocked \<and> pl_open (snd (m p)) = []"
proof -
  have "set (pl_open p) \<subseteq> {}" using assms(2) by simp
  with assms(1) [unfolded pool_safe_def] show ?thesis
    by (cases rule: pool_tripleE) auto
qed

end
