(* ===== verification/Time_Markers.thy ===== *)
theory Time_Markers
  imports Pool_Safety
begin

text \<open>
  The sidecar table of Time columns (type_mapping.go). SQLite has no time type, so the driver keeps
  the names of the TEXT columns that are dbschema.Time in a table of its own.
\<close>

section \<open>Text of the statements\<close>

text \<open>Line breaks and tabs of the raw strings, and SQL string literals.\<close>

definition line_break :: "nat \<Rightarrow> string" where
  "line_break tabs = CHR 0x0A # replicate tabs (CHR 0x09)"

definition sql_literal :: "string \<Rightarrow> string" where
  "sql_literal s = [CHR 0x27] @ s @ [CHR 0x27]"

definition timeMarkerTable :: string where
  "timeMarkerTable = ''_dalgo_time_columns''"

definition probe_table_sql :: string where
  "probe_table_sql =
     ''SELECT name FROM sqlite_master WHERE type='' @ sql_literal ''table'' @ '' AND name=?''"

definition insert_marker_sql :: string where
  "insert_marker_sql =
     ''INSERT OR IGNORE INTO '' @ timeMarkerTable @ '' (collection_name, column_name) VALUES (?, ?)''"

definition select_markers_sql :: string where
  "select_markers_sql = ''SELECT column_name FROM '' @ timeMarkerTable @ '' WHERE collection_name=?''"

definition delete_markers_sql :: string where
  "delete_markers_sql = ''DELETE FROM '' @ timeMarkerTable @ '' WHERE collection_name=?''"

section \<open>Operations\<close>

definition ensureTimeMarkerTable :: "'d engine \<Rightarrow> ('d, unit) io" where
  "ensureTimeMarkerTable E =
     io_wrap ''dalgo2sqlite: ensureTimeMarkerTable: %w'' []
       (db_exec E (''CREATE TABLE IF NOT EXISTS '' @ timeMarkerTable @ '' ('' @
          line_break 2 @ ''collection_name TEXT NOT NULL,'' @
          line_break 2 @ ''column_name TEXT NOT NULL,'' @
          line_break 2 @ ''PRIMARY KEY (collection_name, column_name)'' @
          line_break 1 @ '')'') [])"

definition writeTimeMarker :: "'d engine \<Rightarrow> string \<Rightarrow> string \<Rightarrow> ('d, unit) io" where
  "writeTimeMarker E collection column =
     io_wrap ''dalgo2sqlite: writeTimeMarker(%s.%s): %w'' [Str collection, Str column]
       (db_exec E insert_marker_sql [V_Text collection, V_Text column])"

definition readTimeMarkers :: "'d engine \<Rightarrow> string \<Rightarrow> ('d, string set) io" where
  "readTimeMarkers E collection =
     io_try (db_query_row E probe_table_sql [V_Text timeMarkerTable] scan_name)
       (\<lambda>e. if e = Err_No_Rows then io_return {}
            else io_fail (Wrapf ''dalgo2sqlite: readTimeMarkers probe: %w'' [] e))
       (\<lambda>_. db_read E select_markers_sql [V_Text collection]
          (Some (''dalgo2sqlite: readTimeMarkers query: %w'', [])) None
          (\<lambda>out row. result_bind
             (result_wrap ''dalgo2sqlite: readTimeMarkers scan: %w'' [] (scan_name row))
             (\<lambda>col. Inr (insert col out))) {})"

definition dropTimeMarkers :: "'d engine \<Rightarrow> string \<Rightarrow> ('d, unit) io" where
  "dropTimeMarkers E collection =
     io_try (db_query_row E probe_table_sql [V_Text timeMarkerTable] scan_name)
       (\<lambda>e. if e = Err_No_Rows then io_return ()
            else io_fail (Wrapf ''dalgo2sqlite: dropTimeMarkers probe: %w'' [] e))
       (\<lambda>_. io_wrap ''dalgo2sqlite: dropTimeMarkers(%s): %w'' [Str collection]
          (db_exec E delete_markers_sql [V_Text collection]))"

section \<open>Use of the pool\<close>

lemma pool_safe_readTimeMarkers [pool_rules]: "pool_safe (readTimeMarkers E collection)"
  unfolding readTimeMarkers_def by (auto intro!: pool_rules)

lemma pool_safe_dropTimeMarkers [pool_rules]: "pool_safe (dropTimeMarkers E collection)"
  unfolding dropTimeMarkers_def by (auto intro!: pool_rules)

text \<open>A set filled row by row is the set of the names.\<close>

lemma rows_fold_insert:
  "rows_fold (\<lambda>out row. result_bind (result_wrap f args (scan_name row)) (\<lambda>col. Inr (insert col out))) acc
     (map (\<lambda>n. [V_Text n]) names) = Inr (set names \<union> acc)"
  by (induction names arbitrary: acc) simp_all

end
