(* ===== verification/Schema_Foreign_Keys.thy ===== *)
theory Schema_Foreign_Keys
  imports Time_Markers
begin

text \<open>
  schema_foreign_keys.go: the foreign keys of a table, read on one connection of their own: the rows of
  pragma_foreign_key_list are collapsed to one key per id, the table a key names is spelled as the
  database spells it, and a key that names no columns refers to the primary key of its target.
\<close>

text \<open>
  foldASCII maps the letters A to Z with strings.Map; on valid UTF-8 that is the map of the bytes.
\<close>

definition foldASCII :: "string \<Rightarrow> string" where
  "foldASCII name = map ascii_lower name"

definition table_names_sql :: string where
  "table_names_sql = ''SELECT name FROM sqlite_master WHERE type='' @ sql_literal ''table''"

definition spelling_step :: "(string \<rightharpoonup> string) \<Rightarrow> sqlval list \<Rightarrow> err + (string \<rightharpoonup> string)" where
  "spelling_step spelled row =
     result_bind (result_wrap ''dalgo2sqlite: foreign key target table scan: %w'' [] (scan_name row))
       (\<lambda>name. Inr (spelled(foldASCII name \<mapsto> name)))"

definition tableSpellings :: "'d engine \<Rightarrow> foreign_key_def list \<Rightarrow> ('d, string \<rightharpoonup> string) io" where
  "tableSpellings E keys =
     (if keys = [] then io_return Map.empty
      else conn_read E table_names_sql []
        (Some (''dalgo2sqlite: foreign key target tables: %w'', []))
        (Some (''dalgo2sqlite: foreign key target table rows: %w'', [])) spelling_step Map.empty)"

definition fk_enabled_sql :: string where
  "fk_enabled_sql = ''SELECT foreign_keys FROM pragma_foreign_keys''"

definition fk_list_sql :: string where
  "fk_list_sql =
     ''SELECT id, seq, \"table\", \"from\", \"to\", on_update, on_delete'' @ line_break 2 @
     '' FROM pragma_foreign_key_list(?) ORDER BY id, seq''"

definition target_key_sql :: string where
  "target_key_sql = ''SELECT name FROM pragma_table_info(?) WHERE pk > 0 ORDER BY pk''"

definition scan_fk ::
  "sqlval list \<Rightarrow> err + int \<times> int \<times> string \<times> string \<times> string option \<times> string \<times> string \<times> unit" where
  "scan_fk =
     scan_row 7 (scan_col scan_int (scan_col scan_int (scan_col scan_string (scan_col scan_string
       (scan_col scan_null_string (scan_col scan_string (scan_col scan_string scan_nil)))))))"

text \<open>
  One row of the list: a new id opens a key, and the columns go to the last one. The code takes
  \<open>keys[len(keys)-1]\<close>, which would panic on an id of -1 before any key; SQLite numbers the keys from 0.
\<close>

definition fk_step ::
  "string \<Rightarrow> enforcement \<Rightarrow> foreign_key_def list \<times> int \<Rightarrow> sqlval list \<Rightarrow> err + foreign_key_def list \<times> int" where
  "fk_step table state = (\<lambda>(keys, lastID) row.
     result_bind (result_wrap ''dalgo2sqlite: foreign key scan: %w'' [] (scan_fk row))
     (\<lambda>(id, seq, target, from_col, to_col, onUpdate, onDelete, _).
       let keys = (if id \<noteq> lastID
             then keys @ [\<lparr>fk_Name = table @ ''_fk_'' @ show_int id, fk_Fields = [],
               fk_ReferencedCollection = target, fk_ReferencedFields = [], fk_Enforcement = state,
               fk_OnUpdate = onUpdate, fk_OnDelete = onDelete\<rparr>]
             else keys)
       in if keys = [] then Inl (Newf ''runtime error: index out of range [-1]'' [])
          else let key = last keys;
                 key = key\<lparr>fk_Fields := fk_Fields key @ [from_col]\<rparr>;
                 key = (case to_col of
                     Some c \<Rightarrow> if c \<noteq> [] then key\<lparr>fk_ReferencedFields := fk_ReferencedFields key @ [c]\<rparr> else key
                   | None \<Rightarrow> key)
               in Inr (butlast keys @ [key], id)))"

definition resolve_key ::
  "'d engine \<Rightarrow> (string \<rightharpoonup> string) \<Rightarrow> foreign_key_def \<Rightarrow> ('d, foreign_key_def) io" where
  "resolve_key E spelled key =
     (let key = (case spelled (foldASCII (fk_ReferencedCollection key)) of
            Some name \<Rightarrow> key\<lparr>fk_ReferencedCollection := name\<rparr>
          | None \<Rightarrow> key)
      in if fk_ReferencedFields key \<noteq> [] then io_return key
         else io_bind
           (conn_read E target_key_sql [V_Text (fk_ReferencedCollection key)]
              (Some (''dalgo2sqlite: foreign key target primary key: %w'', []))
              (Some (''dalgo2sqlite: foreign key target primary key rows: %w'', []))
              (append_row (\<lambda>row. result_wrap ''dalgo2sqlite: foreign key target primary key scan: %w'' []
                 (scan_name row))) [])
           (\<lambda>fs. io_return (key\<lparr>fk_ReferencedFields := fs\<rparr>)))"

definition readForeignKeys :: "'d engine \<Rightarrow> string \<Rightarrow> ('d, foreign_key_def list) io" where
  "readForeignKeys E table =
     io_bind (io_wrap ''dalgo2sqlite: foreign keys connection: %w'' [] db_conn) (\<lambda>conn. io_finally
       (io_bind
         (io_wrap ''dalgo2sqlite: foreign keys enforcement: %w'' []
           (conn_query_row E fk_enabled_sql [] (scan_row 1 (scan_col scan_int scan_nil))))
         (\<lambda>(enabled, _).
           let state = (if enabled \<noteq> 0 then Enforcement_Enabled else Enforcement_Disabled)
           in io_bind
             (conn_read E fk_list_sql [V_Text table]
               (Some (''dalgo2sqlite: foreign keys for %q: %w'', [Str table]))
               (Some (''dalgo2sqlite: foreign key rows: %w'', []))
               (fk_step table state) ([], -1))
             (\<lambda>(keys, _). io_bind (tableSpellings E keys) (\<lambda>spelled. io_map (resolve_key E spelled) keys))))
       (conn_close conn))"

lemma pool_safe_readForeignKeys [pool_rules]: "pool_safe (readForeignKeys E table)"
  unfolding readForeignKeys_def
  by (rule pool_safe_with_conn)
    (auto simp: tableSpellings_def resolve_key_def Let_def intro!: keep_rules split: prod.splits)

end
