(* ===== verification/Schema_Source.thy ===== *)
theory Schema_Source
  imports Time_Markers
begin

text \<open>
  schema_source.go: the catalog details that the portable definition cannot hold (declared types,
  default expressions, the DDL text, the terms of every index), the refusal of generated and hidden
  columns, and the definitions of views.
\<close>

section \<open>Text of the queries\<close>

definition hidden_columns_sql :: string where
  "hidden_columns_sql = ''SELECT name, hidden FROM pragma_table_xinfo(?) WHERE hidden != 0 ORDER BY cid''"

definition source_ddl_sql :: string where
  "source_ddl_sql =
     ''SELECT sql FROM sqlite_master WHERE type IN ('' @ sql_literal ''table'' @ '', '' @ sql_literal ''view'' @
     '') AND name=?''"

definition source_columns_sql :: string where
  "source_columns_sql =
     ''SELECT name, type, \"notnull\", dflt_value, pk FROM pragma_table_info(?) ORDER BY cid''"

definition source_indexes_sql :: string where
  "source_indexes_sql = ''SELECT name, \"unique\", origin, partial FROM pragma_index_list(?) ORDER BY seq''"

definition index_ddl_sql :: string where
  "index_ddl_sql = ''SELECT sql FROM sqlite_master WHERE type='' @ sql_literal ''index'' @ '' AND name=?''"

definition index_terms_sql :: string where
  "index_terms_sql =
     ''SELECT seqno, name, \"desc\", coll, \"key\" FROM pragma_index_xinfo(?) ORDER BY seqno''"

definition source_views_sql :: string where
  "source_views_sql =
     ''SELECT name, sql FROM sqlite_master WHERE type='' @ sql_literal ''view'' @ '' ORDER BY name''"

definition view_columns_sql :: string where
  "view_columns_sql = ''SELECT name FROM pragma_table_info(?) ORDER BY cid''"

section \<open>Hidden columns\<close>

text \<open>Only the first row is looked at.\<close>

definition hidden_column_error :: "string \<Rightarrow> string \<Rightarrow> string \<Rightarrow> int \<Rightarrow> err" where
  "hidden_column_error op table name hidden =
     Not_Supported op ''dalgo2sqlite''
       [Str ''source table %q has generated or hidden column %q (kind %d), unsupported for lossless export'',
        Str table, Str name, Num hidden]"

definition rejectHiddenSourceColumns :: "'d engine \<Rightarrow> string \<Rightarrow> string \<Rightarrow> ('d, unit) io" where
  "rejectHiddenSourceColumns E op table =
     io_bind
       (io_wrap ''dalgo2sqlite: hidden source columns for %q: %w'' [Str table]
         (db_query E hidden_columns_sql [V_Text table]))
       (\<lambda>rows. io_finally
          (case rs_rows (snd rows) of
             row # _ \<Rightarrow>
               (case scan_row 2 (scan_col scan_string (scan_col scan_int scan_nil)) row of
                  Inl e \<Rightarrow> io_fail (Wrapf ''dalgo2sqlite: hidden source column scan for %q: %w'' [Str table] e)
                | Inr (name, hidden, _) \<Rightarrow> io_fail (hidden_column_error op table name hidden))
           | [] \<Rightarrow> rows_err rows)
          (rows_close rows))"

section \<open>The source definition\<close>

definition scan_column ::
  "sqlval list \<Rightarrow> err + string \<times> string \<times> int \<times> string option \<times> int \<times> unit" where
  "scan_column =
     scan_row 5 (scan_col scan_string (scan_col scan_string (scan_col scan_int
       (scan_col scan_null_string (scan_col scan_int scan_nil)))))"

definition source_column :: "string \<times> string \<times> int \<times> string option \<times> int \<times> unit \<Rightarrow> source_column_def" where
  "source_column = (\<lambda>(name, declared, notNull, defaultSQL, pk, _).
     \<lparr>sc_Name = name, sc_DeclaredType = declared, sc_NotNull = (notNull \<noteq> 0),
      sc_PrimaryKeyPosition = pk, sc_DefaultSQL = defaultSQL\<rparr>)"

definition scan_term ::
  "sqlval list \<Rightarrow> err + int \<times> string option \<times> int \<times> string option \<times> int \<times> unit" where
  "scan_term =
     scan_row 5 (scan_col scan_int (scan_col scan_null_string (scan_col scan_int
       (scan_col scan_null_string (scan_col scan_int scan_nil)))))"

definition source_term :: "int \<times> string option \<times> int \<times> string option \<times> int \<times> unit \<Rightarrow> source_index_column_def" where
  "source_term = (\<lambda>(position, name, descending, collation, key, _).
     \<lparr>st_Position = position, st_Name = name, st_Descending = (descending \<noteq> 0),
      st_Collation = (case collation of Some s \<Rightarrow> s | None \<Rightarrow> []), st_Key = (key \<noteq> 0)\<rparr>)"

definition scan_listed_index :: "sqlval list \<Rightarrow> err + string \<times> int \<times> string \<times> int \<times> unit" where
  "scan_listed_index =
     scan_row 4 (scan_col scan_string (scan_col scan_int (scan_col scan_string (scan_col scan_int scan_nil))))"

text \<open>The DDL and the terms of one index; an index without a row in sqlite_master has no DDL.\<close>

definition read_source_index ::
  "'d engine \<Rightarrow> string \<times> int \<times> string \<times> int \<times> unit \<Rightarrow> ('d, source_index_def) io" where
  "read_source_index E = (\<lambda>(name, unique, origin, partial, _).
     io_bind
       (io_try (db_query_row E index_ddl_sql [V_Text name] (scan_row 1 (scan_col scan_null_string scan_nil)))
          (\<lambda>e. if errors_is e Err_No_Rows then io_return None
               else io_fail (Wrapf ''dalgo2sqlite: index DDL for %q: %w'' [Str name] e))
          (\<lambda>(createSQL, _). io_return createSQL))
       (\<lambda>createSQL. io_bind
          (db_read E index_terms_sql [V_Text name]
             (Some (''dalgo2sqlite: index terms for %q: %w'', [Str name]))
             (Some (''dalgo2sqlite: index term rows for %q: %w'', [Str name]))
             (append_row (\<lambda>row. map_sum id source_term
                (result_wrap ''dalgo2sqlite: index term scan for %q: %w'' [Str name] (scan_term row)))) [])
          (\<lambda>terms. io_return
             \<lparr>si_Name = name, si_Origin = origin, si_Unique = (unique \<noteq> 0), si_Partial = (partial \<noteq> 0),
              si_CreateSQL = (case createSQL of Some s \<Rightarrow> s | None \<Rightarrow> []), si_Columns = terms\<rparr>)))"

definition readSourceDefinition :: "'d engine \<Rightarrow> string \<Rightarrow> bool \<Rightarrow> ('d, source_definition) io" where
  "readSourceDefinition E table lenient =
     io_bind (if lenient then io_return () else rejectHiddenSourceColumns E ''DescribeCollection'' table)
     (\<lambda>_. io_bind
       (io_wrap ''dalgo2sqlite: source DDL for %q: %w'' [Str table]
         (db_query_row E source_ddl_sql [V_Text table] scan_name))
     (\<lambda>createSQL. io_bind
       (db_read E source_columns_sql [V_Text table]
          (Some (''dalgo2sqlite: source columns for %q: %w'', [Str table]))
          (Some (''dalgo2sqlite: source column rows for %q: %w'', [Str table]))
          (append_row (\<lambda>row. map_sum id source_column
             (result_wrap ''dalgo2sqlite: source column scan for %q: %w'' [Str table] (scan_column row)))) [])
     (\<lambda>columns. io_bind
       (db_read E source_indexes_sql [V_Text table]
          (Some (''dalgo2sqlite: source indexes for %q: %w'', [Str table]))
          (Some (''dalgo2sqlite: source index rows for %q: %w'', [Str table]))
          (append_row (\<lambda>row.
             result_wrap ''dalgo2sqlite: source index scan for %q: %w'' [Str table] (scan_listed_index row))) [])
     (\<lambda>listed. io_bind (io_map (read_source_index E) listed)
     (\<lambda>indexes. io_return
        \<lparr>sd_Dialect = ''sqlite'', sd_CreateSQL = createSQL, sd_Columns = columns, sd_Indexes = indexes\<rparr>)))))"

section \<open>Views\<close>

definition ListSourceViews :: "'d engine \<Rightarrow> ('d, source_view_def list) io" where
  "ListSourceViews E =
     io_bind
       (db_read E source_views_sql []
          (Some (''dalgo2sqlite: source views: %w'', []))
          (Some (''dalgo2sqlite: source view rows: %w'', []))
          (append_row (\<lambda>row. result_wrap ''dalgo2sqlite: source view scan: %w'' []
             (scan_row 2 (scan_col scan_string (scan_col scan_string scan_nil)) row))) [])
       (\<lambda>views. io_map (\<lambda>(name, createSQL, _).
          io_bind
            (db_read E view_columns_sql [V_Text name]
               (Some (''dalgo2sqlite: source view columns for %q: %w'', [Str name]))
               (Some (''dalgo2sqlite: source view column rows for %q: %w'', [Str name]))
               (append_row (\<lambda>row.
                  result_wrap ''dalgo2sqlite: source view column scan for %q: %w'' [Str name] (scan_name row))) [])
            (\<lambda>columns. io_return \<lparr>sv_Name = name, sv_CreateSQL = createSQL, sv_Columns = columns\<rparr>)) views)"

section \<open>Use of the pool\<close>

lemma pool_safe_rejectHidden [pool_rules]: "pool_safe (rejectHiddenSourceColumns E op table)"
  unfolding rejectHiddenSourceColumns_def
  by (rule pool_safe_with_rows)
    (auto intro!: pool_triple_fail pool_triple_err split: list.splits sum.splits)

lemma pool_safe_read_source_index [pool_rules]: "pool_safe (read_source_index E index)"
  by (auto simp: read_source_index_def intro!: pool_rules split: prod.splits)

lemma pool_safe_readSourceDefinition [pool_rules]: "pool_safe (readSourceDefinition E table lenient)"
  by (auto simp: readSourceDefinition_def intro!: pool_rules)

lemma pool_safe_ListSourceViews [pool_rules]: "pool_safe (ListSourceViews E)"
  by (auto simp: ListSourceViews_def intro!: pool_rules split: prod.splits)

end
