(* ===== verification/Schema_Reader.thy ===== *)
theory Schema_Reader
  imports Type_Mapping Pk_Order Sqlite_Errors Schema_Foreign_Keys Schema_Source
begin

text \<open>
  schema_reader.go: the listings of tables and views, the description of a table or view, and its
  indexes. \<open>E\<close> is the database behind d.sqlDB and \<open>lenient\<close> is d.lenient.
\<close>

section \<open>Listings\<close>

definition ownTablesFilter :: string where
  "ownTablesFilter =
     ''name NOT LIKE '' @ sql_literal (''sqlite'' @ [CHR 0x5C] @ ''_%'') @ '' ESCAPE '' @ sql_literal [CHR 0x5C]"

definition list_collections_sql :: string where
  "list_collections_sql =
     ''SELECT name FROM sqlite_master'' @ line_break 2 @ '' WHERE type='' @ sql_literal ''table'' @ '' AND '' @
     ownTablesFilter @ '' AND name != ?'' @ line_break 2 @ '' ORDER BY name''"

definition list_views_sql :: string where
  "list_views_sql =
     ''SELECT name FROM sqlite_master WHERE type='' @ sql_literal ''view'' @ '' ORDER BY name''"

definition unnamed_objects_sql :: string where
  "unnamed_objects_sql =
     ''SELECT type FROM sqlite_master WHERE type IN ('' @ sql_literal ''table'' @ '', '' @ sql_literal ''view'' @
     '') AND name = '' @ sql_literal [] @ '' ORDER BY type''"

text \<open>A row of a listing: an empty name is left out by the lenient reader and refused by the strict one.\<close>

definition ref_step :: "bool \<Rightarrow> string \<Rightarrow> string \<Rightarrow> string list \<Rightarrow> sqlval list \<Rightarrow> err + string list" where
  "ref_step lenient op kind out row =
     result_bind (result_wrap ''dalgo2sqlite: %s scan: %w'' [Str op] (scan_name row))
       (\<lambda>name. if name \<noteq> [] then Inr (out @ [name])
          else if \<not> lenient
          then Inl (Not_Supported op ''dalgo2sqlite''
                 [Str (''a '' @ kind @ '' with an empty name, unsupported for lossless export'')])
          else Inr out)"

definition collectionRefs :: "bool \<Rightarrow> rows \<Rightarrow> string \<Rightarrow> string \<Rightarrow> ('d, string list) io" where
  "collectionRefs lenient rows op kind = rows_drain None rows (ref_step lenient op kind) []"

definition ListCollections :: "'d engine \<Rightarrow> bool \<Rightarrow> ('d, string list) io" where
  "ListCollections E lenient =
     io_bind (io_wrap ''dalgo2sqlite: ListCollections: %w'' []
         (db_query E list_collections_sql [V_Text timeMarkerTable]))
       (\<lambda>rows. collectionRefs lenient rows ''ListCollections'' ''table'')"

definition ListViews :: "'d engine \<Rightarrow> bool \<Rightarrow> ('d, string list) io" where
  "ListViews E lenient =
     io_bind (io_wrap ''dalgo2sqlite: ListViews: %w'' [] (db_query E list_views_sql []))
       (\<lambda>rows. collectionRefs lenient rows ''ListViews'' ''view'')"

definition UnnamedObjects :: "'d engine \<Rightarrow> ('d, string list) io" where
  "UnnamedObjects E =
     db_read E unnamed_objects_sql [] (Some (''dalgo2sqlite: UnnamedObjects: %w'', [])) None
       (append_row (\<lambda>row. result_wrap ''dalgo2sqlite: UnnamedObjects scan: %w'' [] (scan_name row))) []"

section \<open>Indexes\<close>

definition index_list_sql :: string where
  "index_list_sql = ''SELECT name, \"unique\", origin FROM pragma_index_list(?)''"

definition index_info_sql :: string where
  "index_info_sql = ''SELECT name FROM pragma_index_info(?) ORDER BY seqno''"

text \<open>The columns of an index; a term without a column is an expression, and then there are none.\<close>

definition index_field_step :: "string list \<times> bool \<Rightarrow> sqlval list \<Rightarrow> err + string list \<times> bool" where
  "index_field_step = (\<lambda>(out, hasExpression) row.
     result_bind (result_wrap ''dalgo2sqlite: pragma_index_info scan: %w'' []
         (scan_row 1 (scan_col scan_null_string scan_nil) row))
       (\<lambda>(col, _). case col of None \<Rightarrow> Inr (out, True) | Some c \<Rightarrow> Inr (out @ [c], hasExpression)))"

definition readIndexFields :: "'d engine \<Rightarrow> string \<Rightarrow> ('d, string list) io" where
  "readIndexFields E indexName =
     io_bind
       (db_read E index_info_sql [V_Text indexName]
          (Some (''dalgo2sqlite: pragma_index_info %q: %w'', [Str indexName])) None index_field_step ([], False))
       (\<lambda>(out, hasExpression). io_return (if hasExpression then [] else out))"

text \<open>\<open>None\<close> is an index that the loop passes over (\<open>continue\<close>).\<close>

definition list_index :: "'d engine \<Rightarrow> string \<Rightarrow> string \<times> int \<times> string \<times> unit \<Rightarrow> ('d, index_def option) io" where
  "list_index E table = (\<lambda>(name, unique, origin, _).
     if origin = ''pk'' then io_return None
     else io_bind (readIndexFields E name) (\<lambda>fields'.
       if fields' = [] then io_return None
       else io_return (Some
         \<lparr>ix_Name = name, ix_Collection = table, ix_Fields = fields', ix_Unique = (unique \<noteq> 0)\<rparr>)))"

definition listIndexesImpl :: "'d engine \<Rightarrow> string \<Rightarrow> ('d, index_def list) io" where
  "listIndexesImpl E name =
     io_bind
       (db_read E index_list_sql [V_Text name]
          (Some (''dalgo2sqlite: pragma_index_list %q: %w'', [Str name]))
          (Some (''dalgo2sqlite: pragma_index_list rows: %w'', []))
          (append_row (\<lambda>row. result_wrap ''dalgo2sqlite: pragma_index_list scan: %w'' []
             (scan_row 3 (scan_col scan_string (scan_col scan_int (scan_col scan_string scan_nil))) row))) [])
       (\<lambda>listed. io_bind (io_map (list_index E name) listed) (\<lambda>out. io_return (List.map_filter id out)))"

definition indexesOnFields :: "index_def list \<Rightarrow> field_def list \<Rightarrow> index_def list" where
  "indexesOnFields indexes fs =
     filter (\<lambda>index. list_all (\<lambda>field. field \<in> set (map fd_Name fs)) (ix_Fields index)) indexes"

section \<open>DescribeCollection\<close>

definition describe_probe_sql :: "bool \<Rightarrow> string" where
  "describe_probe_sql lenient =
     ''SELECT name FROM sqlite_master WHERE '' @
     (if lenient then ''type IN ('' @ sql_literal ''table'' @ '', '' @ sql_literal ''view'' @ '')''
      else ''type='' @ sql_literal ''table'') @
     '' AND name=?''"

definition table_info_sql :: string where
  "table_info_sql = ''SELECT name, type, \"notnull\", dflt_value, pk FROM pragma_table_info(?)''"

definition table_ddl_sql :: string where
  "table_ddl_sql = ''SELECT sql FROM sqlite_master WHERE type='' @ sql_literal ''table'' @ '' AND name=?''"

definition tableHasAutoIncrement :: "'d engine \<Rightarrow> string \<Rightarrow> ('d, bool) io" where
  "tableHasAutoIncrement E table =
     io_bind
       (io_wrap ''dalgo2sqlite: tableHasAutoIncrement DDL query: %w'' []
         (db_query_row E table_ddl_sql [V_Text table] scan_name))
       (\<lambda>ddl. io_return (go_contains (go_to_upper ddl) ''AUTOINCREMENT''))"

definition column_type :: "string set \<Rightarrow> bool \<Rightarrow> string \<Rightarrow> string \<Rightarrow> err + db_type \<times> precision option" where
  "column_type timeMarkers lenient colName declType =
     (if colName \<in> timeMarkers then Inr (Type_Time, None)
      else case dbschemaTypeFromSQLite declType of (t, precision, ok) \<Rightarrow>
        if \<not> ok \<and> \<not> lenient
        then Inl (Not_Supported ''DescribeCollection'' ''dalgo2sqlite''
               [Str ''column %q has unrecognized SQLite type %q'', Str colName, Str declType])
        else Inr (t, precision))"

text \<open>One column: the fields so far, the key columns so far, and the field to probe for AUTOINCREMENT.\<close>

definition describe_step ::
  "string set \<Rightarrow> bool \<Rightarrow> field_def list \<times> pk_entry list \<times> nat option \<Rightarrow> sqlval list \<Rightarrow>
   err + field_def list \<times> pk_entry list \<times> nat option" where
  "describe_step timeMarkers lenient = (\<lambda>(fs, pks, auto) row.
     result_bind (result_wrap ''dalgo2sqlite: pragma_table_info scan: %w'' [] (scan_column row))
     (\<lambda>(colName, declType, notnull, dflt, pkPosition, _).
       result_bind (column_type timeMarkers lenient colName declType) (\<lambda>(t, precision).
         Inr (fs @ [\<lparr>fd_Name = colName, fd_Type = t, fd_Precision = precision,
                fd_Nullable = (notnull = 0), fd_AutoIncrement = False\<rparr>],
              if pkPosition > 0 then pks @ [\<lparr>pk_colName = colName, pk_pkOrder = pkPosition\<rparr>] else pks,
              if t = Type_Int \<and> pkPosition = 1 then Some (length fs) else auto))))"

text \<open>
  The loop over the source columns: they must be the fields, and a sole INTEGER PRIMARY KEY, an alias of
  the rowid, is not nullable.
\<close>

fun match_columns ::
  "string \<Rightarrow> (source_column_def \<Rightarrow> bool) \<Rightarrow> nat \<Rightarrow> source_column_def list \<Rightarrow> field_def list \<Rightarrow> err + field_def list" where
  "match_columns name alias i [] fs = Inr fs"
| "match_columns name alias i (col # cols) fs =
     (if i \<ge> length fs \<or> sc_Name col \<noteq> fd_Name (fs ! i)
      then Inl (Newf ''dalgo2sqlite: source columns differ from portable fields in %q'' [Str name])
      else match_columns name alias (Suc i) cols
        (if alias col then fs[i := (fs ! i)\<lparr>fd_Nullable := False\<rparr>] else fs))"

definition rowid_alias :: "string list \<Rightarrow> source_definition \<Rightarrow> source_column_def \<Rightarrow> bool" where
  "rowid_alias pk source col \<longleftrightarrow>
     length pk = 1 \<and> sc_PrimaryKeyPosition col = 1 \<and>
     go_equal_fold_ascii (go_trim_space (sc_DeclaredType col)) ''INTEGER'' \<and>
     \<not> list_ex (\<lambda>index. si_Origin index = ''pk'') (sd_Indexes source) \<and>
     \<not> go_contains (go_to_upper (sd_CreateSQL source)) ''WITHOUT ROWID''"

definition describe_columns ::
  "'d engine \<Rightarrow> string \<Rightarrow> bool \<Rightarrow> string set \<Rightarrow> ('d, field_def list \<times> string list) io" where
  "describe_columns E name lenient timeMarkers =
     io_bind
       (db_read E table_info_sql [V_Text name]
          (Some (''dalgo2sqlite: DescribeCollection pragma %q: %w'', [Str name]))
          (Some (''dalgo2sqlite: pragma_table_info rows: %w'', []))
          (describe_step timeMarkers lenient) ([], [], None))
       (\<lambda>(fs, pks, auto). io_bind
          (case auto of
             None \<Rightarrow> io_return fs
           | Some i \<Rightarrow>
               io_bind (io_try (tableHasAutoIncrement E name) (\<lambda>_. io_return False) io_return)
                 (\<lambda>has. io_return (fs[i := (fs ! i)\<lparr>fd_AutoIncrement := has\<rparr>])))
          (\<lambda>fs. io_return (fs, map pk_colName (sortPKByOrder pks))))"

definition describeCollection :: "'d engine \<Rightarrow> string \<Rightarrow> bool \<Rightarrow> ('d, collection_def) io" where
  "describeCollection E name lenient =
     io_try (db_query_row E (describe_probe_sql lenient) [V_Text name] scan_name)
       (\<lambda>e. if e = Err_No_Rows then io_fail (newCollectionNotFoundError name)
            else io_fail (Wrapf ''dalgo2sqlite: DescribeCollection probe %q: %w'' [Str name] e))
       (\<lambda>_. io_bind (readTimeMarkers E name)
       (\<lambda>timeMarkers. io_bind (describe_columns E name lenient timeMarkers)
       (\<lambda>(fs, pk). io_bind (listIndexesImpl E name)
       (\<lambda>indexes. io_bind (readForeignKeys E name)
       (\<lambda>foreignKeys. io_bind (readSourceDefinition E name lenient)
       (\<lambda>source. io_bind (io_lift (match_columns name (rowid_alias pk source) 0 (sd_Columns source) fs))
       (\<lambda>fs'. io_return
          \<lparr>cd_Name = name, cd_Fields = fs', cd_PrimaryKey = pk,
           cd_Indexes = (if lenient then indexesOnFields indexes fs else indexes),
           cd_ForeignKeys = foreignKeys, cd_SourceDefinition = Some source\<rparr>)))))))"

definition DescribeCollection :: "'d engine \<Rightarrow> bool \<Rightarrow> string \<Rightarrow> ('d, collection_def) io" where
  "DescribeCollection E lenient ref = describeCollection E ref lenient"

definition ListIndexes :: "'d engine \<Rightarrow> bool \<Rightarrow> string \<Rightarrow> ('d, index_def list) io" where
  "ListIndexes E lenient ref =
     io_bind (listIndexesImpl E ref) (\<lambda>indexes.
       if \<not> lenient then io_return indexes
       else io_bind (describeCollection E ref True)
         (\<lambda>def. io_return (indexesOnFields indexes (cd_Fields def))))"

section \<open>Use of the pool\<close>

lemma pool_safe_query_refs [pool_rules]:
  "pool_safe (io_bind (io_wrap f args (db_query E q qargs)) (\<lambda>rows. collectionRefs lenient rows op kind))"
  unfolding pool_safe_def collectionRefs_def
  by (rule pool_triple_bind [OF pool_triple_wrap [OF pool_triple_query] pool_triple_drain])

lemma pool_safe_listings [pool_rules]:
  "pool_safe (ListCollections E lenient)" "pool_safe (ListViews E lenient)" "pool_safe (UnnamedObjects E)"
  unfolding ListCollections_def ListViews_def UnnamedObjects_def
  by (rule pool_safe_query_refs pool_safe_db_read)+

lemma pool_safe_readIndexFields [pool_rules]: "pool_safe (readIndexFields E indexName)"
  by (auto simp: readIndexFields_def intro!: pool_rules split: prod.splits)

lemma pool_safe_listIndexesImpl [pool_rules]: "pool_safe (listIndexesImpl E name)"
  by (auto simp: listIndexesImpl_def list_index_def intro!: pool_rules split: prod.splits)

lemma pool_safe_tableHasAutoIncrement [pool_rules]: "pool_safe (tableHasAutoIncrement E table)"
  by (auto simp: tableHasAutoIncrement_def intro!: pool_rules)

lemma pool_safe_describe_columns [pool_rules]: "pool_safe (describe_columns E name lenient timeMarkers)"
  by (auto simp: describe_columns_def intro!: pool_rules split: prod.splits option.splits)

lemma pool_safe_describeCollection [pool_rules]: "pool_safe (describeCollection E name lenient)"
  by (auto simp: describeCollection_def intro!: pool_rules split: prod.splits)

lemma pool_safe_ListIndexes [pool_rules]: "pool_safe (ListIndexes E lenient ref)"
  by (auto simp: ListIndexes_def intro!: pool_rules)

end
