(* ===== verification/Schema_Constraints.thy ===== *)
theory Schema_Constraints
  imports Schema_Reader
begin

text \<open>schema_constraints.go: the survey of a table's constraints, and the tables that refer to it.\<close>

definition pk_probe_sql :: string where
  "pk_probe_sql = ''SELECT name FROM pragma_table_info(?) WHERE pk > 0 LIMIT 1''"

definition fk_ids_sql :: string where
  "fk_ids_sql = ''SELECT DISTINCT id FROM pragma_foreign_key_list(?) ORDER BY id''"

definition unique_sql :: string where
  "unique_sql = ''SELECT name FROM pragma_index_list(?) WHERE origin='' @ sql_literal ''u'' @ '' ORDER BY seq''"

definition referrer_sql :: string where
  "referrer_sql = ''SELECT \"from\" FROM pragma_foreign_key_list(?) WHERE \"table\"=? COLLATE NOCASE''"

definition uniqueConstraints :: "'d engine \<Rightarrow> string \<Rightarrow> ('d, constraint_def list) io" where
  "uniqueConstraints E table =
     db_read E unique_sql [V_Text table]
       (Some (''dalgo2sqlite: ListConstraints unique probe: %w'', []))
       (Some (''dalgo2sqlite: ListConstraints unique rows: %w'', []))
       (append_row (\<lambda>row. map_sum id (\<lambda>name. \<lparr>ct_Name = name, ct_Type = ''unique''\<rparr>)
          (result_wrap ''dalgo2sqlite: ListConstraints unique scan: %w'' [] (scan_name row)))) []"

text \<open>
  The primary key is there when the probe has a row; the error that ended its rows is not looked at.
\<close>

definition ListConstraints :: "'d engine \<Rightarrow> string \<Rightarrow> ('d, constraint_def list) io" where
  "ListConstraints E ref =
     io_bind
       (io_wrap ''dalgo2sqlite: ListConstraints pk probe: %w'' [] (db_query E pk_probe_sql [V_Text ref]))
     (\<lambda>pkRows. io_bind (io_do (rows_close pkRows))
     (\<lambda>_. let hasPK = (rs_rows (snd pkRows) \<noteq> []);
              out = (if hasPK then [\<lparr>ct_Name = ref @ ''_pk'', ct_Type = ''primary-key''\<rparr>] else [])
          in io_bind
       (db_read E fk_ids_sql [V_Text ref]
          (Some (''dalgo2sqlite: ListConstraints fk probe: %w'', []))
          (Some (''dalgo2sqlite: ListConstraints fk rows: %w'', []))
          (append_row (\<lambda>row. map_sum id
             (\<lambda>(id, _). \<lparr>ct_Name = ref @ ''_fk_'' @ show_int id, ct_Type = ''foreign-key''\<rparr>)
             (result_wrap ''dalgo2sqlite: ListConstraints fk scan: %w'' []
               (scan_row 1 (scan_col scan_int scan_nil) row)))) out)
       (\<lambda>out. io_bind (uniqueConstraints E ref) (\<lambda>unique. io_return (out @ unique)))))"

definition referrerFields :: "'d engine \<Rightarrow> string \<Rightarrow> string \<Rightarrow> ('d, string list) io" where
  "referrerFields E from_table to_table =
     db_read E referrer_sql [V_Text from_table, V_Text to_table]
       (Some (''dalgo2sqlite: pragma_foreign_key_list (%s->%s): %w'', [Str from_table, Str to_table])) None
       (append_row (\<lambda>row. result_wrap ''dalgo2sqlite: referrerFields scan: %w'' [] (scan_name row))) []"

definition ListReferrers :: "'d engine \<Rightarrow> bool \<Rightarrow> string \<Rightarrow> ('d, referrer list) io" where
  "ListReferrers E lenient ref =
     io_bind (ListCollections E lenient) (\<lambda>tables.
       io_bind
         (io_map (\<lambda>t. if t = ref then io_return None
            else io_bind (referrerFields E t ref) (\<lambda>fields'.
              io_return (if fields' \<noteq> [] then Some \<lparr>rf_Collection = t, rf_Fields = fields'\<rparr> else None))) tables)
         (\<lambda>out. io_return (List.map_filter id out)))"

lemma pool_safe_close_first:
  assumes "\<And>h. pool_safe (rest h)"
  shows "pool_safe (io_bind (io_wrap f args (db_query E q qargs)) (\<lambda>h. io_bind (io_do (rows_close h)) (\<lambda>_. rest h)))"
  unfolding pool_safe_def
  by (rule pool_triple_bind [OF pool_triple_wrap [OF pool_triple_query]], rule pool_triple_bind [OF pool_triple_close])
    (use assms in \<open>simp add: pool_safe_def\<close>)

lemma pool_safe_uniqueConstraints [pool_rules]: "pool_safe (uniqueConstraints E table)"
  unfolding uniqueConstraints_def by (rule pool_safe_db_read)

lemma pool_safe_ListConstraints [pool_rules]: "pool_safe (ListConstraints E ref)"
  unfolding ListConstraints_def Let_def
  by (rule pool_safe_close_first) (auto intro!: pool_rules)

lemma pool_safe_ListReferrers [pool_rules]: "pool_safe (ListReferrers E lenient ref)"
  by (auto simp: ListReferrers_def referrerFields_def intro!: pool_rules)

end
