(* ===== verification/Reader_Runs.thy ===== *)
theory Reader_Runs
  imports Pool_Safety
begin

text \<open>
  Evaluation of a reader on a database that answers its queries and does not change. The judgement
  \<open>runs d C m r C'\<close>: started in state \<open>d\<close> with the connections \<open>C\<close> in use, the effect returns \<open>r\<close> and leaves
  \<open>d\<close> and the connections \<open>C'\<close>.
\<close>

section \<open>Running readers\<close>

definition runs :: "'d \<Rightarrow> nat list \<Rightarrow> ('d, 'a) io \<Rightarrow> 'a outcome \<Rightarrow> nat list \<Rightarrow> bool" where
  "runs d C m r C' \<longleftrightarrow>
     (\<forall>p. pl_db p = d \<and> pl_open p = C \<longrightarrow> (\<exists>q. m p = (r, q) \<and> pl_db q = d \<and> pl_open q = C'))"

named_theorems run_rules \<open>evaluation of an effect step by step\<close>

lemma runsI: "(\<And>p. pl_db p = d \<Longrightarrow> pl_open p = C \<Longrightarrow> \<exists>q. m p = (r, q) \<and> pl_db q = d \<and> pl_open q = C') \<Longrightarrow> runs d C m r C'"
  by (simp add: runs_def)

lemma runsD: "runs d C m r C' \<Longrightarrow> pl_db p = d \<Longrightarrow> pl_open p = C \<Longrightarrow> \<exists>q. m p = (r, q) \<and> pl_db q = d \<and> pl_open q = C'"
  by (simp add: runs_def)

lemma runs_return: "runs d C (io_return x) (Ok x) C"
  and runs_fail: "runs d C (io_fail e) (Fail e) C"
  by (simp_all add: runs_def)

lemma runs_bind:
  assumes "runs d C m (Ok x) C'" "runs d C' (f x) r C''"
  shows "runs d C (io_bind m f) r C''"
proof (rule runsI)
  fix p :: "'a pool" assume "pl_db p = d" "pl_open p = C"
  with assms(1) obtain q where "m p = (Ok x, q)" "pl_db q = d" "pl_open q = C'"
    unfolding runs_def by blast
  with assms(2) show "\<exists>q. io_bind m f p = (r, q) \<and> pl_db q = d \<and> pl_open q = C''"
    by (simp add: runs_def)
qed

lemma runs_bind_fail: "runs d C m (Fail e) C' \<Longrightarrow> runs d C (io_bind m f) (Fail e) C'"
  by (fastforce simp: runs_def)

lemma runs_try:
  assumes "runs d C m (Ok x) C'" "runs d C' (f x) r C''"
  shows "runs d C (io_try m h f) r C''"
proof (rule runsI)
  fix p :: "'a pool" assume "pl_db p = d" "pl_open p = C"
  with assms(1) obtain q where "m p = (Ok x, q)" "pl_db q = d" "pl_open q = C'"
    unfolding runs_def by blast
  with assms(2) show "\<exists>q. io_try m h f p = (r, q) \<and> pl_db q = d \<and> pl_open q = C''"
    by (simp add: runs_def)
qed

lemma runs_try_fail:
  assumes "runs d C m (Fail e) C'" "runs d C' (h e) r C''"
  shows "runs d C (io_try m h f) r C''"
proof (rule runsI)
  fix p :: "'a pool" assume "pl_db p = d" "pl_open p = C"
  with assms(1) obtain q where "m p = (Fail e, q)" "pl_db q = d" "pl_open q = C'"
    unfolding runs_def by blast
  with assms(2) show "\<exists>q. io_try m h f p = (r, q) \<and> pl_db q = d \<and> pl_open q = C''"
    by (simp add: runs_def)
qed

lemma runs_wrap: "runs d C m (Ok x) C' \<Longrightarrow> runs d C (io_wrap f args m) (Ok x) C'"
  and runs_wrap_fail: "runs d C m (Fail e) C' \<Longrightarrow> runs d C (io_wrap f args m) (Fail (Wrapf f args e)) C'"
  by (fastforce simp: runs_def)+

lemma runs_map: "(\<And>x. x \<in> set xs \<Longrightarrow> runs d C (f x) (Ok (g x)) C) \<Longrightarrow> runs d C (io_map f xs) (Ok (map g xs)) C"
proof (induction xs)
  case (Cons x xs)
  show ?case
    unfolding io_map.simps list.map
    by (rule runs_bind [OF Cons.prems]) (auto intro!: runs_bind runs_return Cons)
qed (simp add: runs_return)

lemma runs_map_image:
  "(\<And>x. x \<in> set xs \<Longrightarrow> runs d C (f (k x)) (Ok (g x)) C) \<Longrightarrow> runs d C (io_map f (map k xs)) (Ok (map g xs)) C"
proof (induction xs)
  case (Cons x xs)
  show ?case
    unfolding io_map.simps list.map
    by (rule runs_bind [OF Cons.prems]) (auto intro!: runs_bind runs_return Cons)
qed (simp add: runs_return)

lemma runs_lift: "runs d C (io_lift (Inr x)) (Ok x) C" "runs d C (io_lift (Inl e)) (Fail e) C"
  by (simp_all add: runs_return runs_fail)

text \<open>Queries that the engine answers without an error.\<close>

definition answers :: "'d engine \<Rightarrow> 'd \<Rightarrow> string \<Rightarrow> sqlval list \<Rightarrow> sqlval list list \<Rightarrow> bool" where
  "answers E d q args rows \<longleftrightarrow> eng_query E q args d = (Inr (all_rows rows), d)"

lemma runs_rows_each:
  assumes "rows_fold step acc rows = Inr x"
  shows "runs d (c # C) (rows_each (Some c, all_rows rows) step acc) (Ok x) (removeAll c C)"
    and "runs d C (rows_each (None, all_rows rows) step acc) (Ok x) C"
  using assms by (simp_all add: runs_def rows_each_def rows_close_def conn_close_def)

lemma context_Ok: "m p = (Ok x, q) \<Longrightarrow> io_context ctx m p = (Ok x, q)"
  by (cases ctx) (auto simp: io_context_def)

lemma db_query_run:
  assumes "answers E (pl_db p) q args rows" "pl_open p = []"
  shows "\<exists>p'. db_query E q args p = (Ok (Some (pl_next p), all_rows rows), p') \<and> pl_db p' = pl_db p \<and>
    pl_open p' = [pl_next p]"
  using assms by (auto simp: db_query_def io_bind_def db_conn_def conn_query_def answers_def)

lemma runs_db_read:
  assumes "answers E d q args rows" "rows_fold step acc rows = Inr x"
  shows "runs d [] (db_read E q args cq ce step acc) (Ok x) []"
proof (rule runsI)
  fix p :: "'a pool" assume p: "pl_db p = d" "pl_open p = []"
  with assms(1) obtain p' where "db_query E q args p = (Ok (Some (pl_next p), all_rows rows), p')"
      "pl_db p' = d" "pl_open p' = [pl_next p]"
    using db_query_run [of E p q args rows] by auto
  then show "\<exists>q'. db_read E q args cq ce step acc p = (Ok x, q') \<and> pl_db q' = d \<and> pl_open q' = []"
    using assms(2)
    by (simp add: db_read_def context_Ok rows_drain_def io_bind_def io_finally_def rows_each_def rows_err_def
        rows_close_def conn_close_def io_context_def io_wrap_def split: option.splits)
qed

lemma runs_db_read_fail:
  assumes "answers E d q args rows" "rows_fold step acc rows = Inl e"
  shows "runs d [] (db_read E q args cq ce step acc) (Fail e) []"
proof (rule runsI)
  fix p :: "'a pool" assume p: "pl_db p = d" "pl_open p = []"
  with assms(1) obtain p' where "db_query E q args p = (Ok (Some (pl_next p), all_rows rows), p')"
      "pl_db p' = d" "pl_open p' = [pl_next p]"
    using db_query_run [of E p q args rows] by auto
  then show "\<exists>q'. db_read E q args cq ce step acc p = (Fail e, q') \<and> pl_db q' = d \<and> pl_open q' = []"
    using assms(2)
    by (simp add: db_read_def context_Ok rows_drain_def io_bind_def io_finally_def rows_each_def
        rows_close_def conn_close_def)
qed

lemma runs_conn_read:
  assumes "answers E d q args rows" "rows_fold step acc rows = Inr x"
  shows "runs d C (conn_read E q args cq ce step acc) (Ok x) C"
proof (rule runsI)
  fix p :: "'a pool" assume p: "pl_db p = d" "pl_open p = C"
  have "io_context cq (conn_query E q args) p = (Ok (None, all_rows rows), p)"
    using assms(1) p by (intro context_Ok) (simp add: conn_query_def answers_def)
  then show "\<exists>q'. conn_read E q args cq ce step acc p = (Ok x, q') \<and> pl_db q' = d \<and> pl_open q' = C"
    using assms(2) p
    by (simp add: conn_read_def rows_drain_def io_bind_def io_finally_def rows_each_def rows_err_def
        rows_close_def io_context_def io_wrap_def split: option.splits)
qed

lemma runs_query_row:
  assumes "answers E d q args rows"
  shows "first_row (all_rows rows) scan = Inr x \<Longrightarrow> runs d [] (db_query_row E q args scan) (Ok x) []"
    and "first_row (all_rows rows) scan = Inl e \<Longrightarrow> runs d [] (db_query_row E q args scan) (Fail e) []"
    and "first_row (all_rows rows) scan = Inr x \<Longrightarrow> runs d C (conn_query_row E q args scan) (Ok x) C"
proof -
  have query: "\<exists>p'. db_query E q args p = (Ok (Some (pl_next p), all_rows rows), p') \<and> pl_db p' = d \<and> pl_open p' = [pl_next p]"
    if "pl_db p = d" "pl_open p = []" for p
    using db_query_run [of E p q args rows] that assms by auto
  show "first_row (all_rows rows) scan = Inr x \<Longrightarrow> runs d [] (db_query_row E q args scan) (Ok x) []"
    by (rule runsI) (use query in \<open>fastforce simp: db_query_row_def io_bind_def io_finally_def rows_close_def conn_close_def\<close>)
  show "first_row (all_rows rows) scan = Inl e \<Longrightarrow> runs d [] (db_query_row E q args scan) (Fail e) []"
    by (rule runsI) (use query in \<open>fastforce simp: db_query_row_def io_bind_def io_finally_def rows_close_def conn_close_def\<close>)
  show "first_row (all_rows rows) scan = Inr x \<Longrightarrow> runs d C (conn_query_row E q args scan) (Ok x) C"
    using assms by (auto simp: runs_def conn_query_row_def io_bind_def conn_query_def answers_def)
qed

lemma first_row_simps [simp]:
  "first_row (all_rows []) scan = Inl Err_No_Rows"
  "first_row (all_rows (row # rows)) scan = scan row"
  by (auto simp: first_row_def split: sum.splits)

lemma runs_with_conn:
  assumes "\<And>c. runs d [c] (body c) (Ok x) [c]"
  shows "runs d [] (io_bind (io_wrap f args db_conn) (\<lambda>c. io_finally (body c) (conn_close c))) (Ok x) []"
proof (rule runsI)
  fix p :: "'a pool" assume p: "pl_db p = d" "pl_open p = []"
  let ?p = "p\<lparr>pl_open := [pl_next p], pl_next := Suc (pl_next p)\<rparr>"
  have conn: "io_wrap f args db_conn p = (Ok (pl_next p), ?p)"
    using p by (auto simp: io_wrap_def db_conn_def)
  obtain q where "body (pl_next p) ?p = (Ok x, q)" "pl_db q = d" "pl_open q = [pl_next p]"
    using runsD [OF assms, of ?p "pl_next p"] p by auto
  then show "\<exists>q. io_bind (io_wrap f args db_conn) (\<lambda>c. io_finally (body c) (conn_close c)) p = (Ok x, q) \<and>
      pl_db q = d \<and> pl_open q = []"
    using conn by (simp add: io_bind_def io_finally_def conn_close_def)
qed

text \<open>Reading a list of rows that all scan.\<close>

lemma rows_fold_append_map:
  "(\<And>x. x \<in> set xs \<Longrightarrow> scan (row x) = Inr (g x)) \<Longrightarrow>
   rows_fold (append_row scan) acc (map row xs) = Inr (acc @ map g xs)"
  by (induction xs arbitrary: acc) (auto simp: append_row_def)

end
