(* ===== verification/Ddl_Transactions.thy ===== *)
theory Ddl_Transactions
  imports Pool_Safety
begin

text \<open>
  inTx (schema_modifier.go): the transaction every DDL operation of the driver runs in. What its
  callers share is stated once, in the locale \<open>tx_body\<close>: a body that touches the database only through
  statements on the transaction's connection is undone as a whole when it, or BeginTx, fails.
\<close>

section \<open>Bodies that only run statements\<close>

text \<open>The states that a sequence of statements can lead to.\<close>

inductive ran :: "'d engine \<Rightarrow> 'd \<Rightarrow> 'd \<Rightarrow> bool" for E :: "'d engine" where
  ran_none: "ran E d d"
| ran_exec: "ran E d d' \<Longrightarrow> ran E d (snd (eng_exec E q args d'))"
| ran_query: "ran E d d' \<Longrightarrow> ran E d (snd (eng_query E q args d'))"

lemma ran_trans: "ran E d' d'' \<Longrightarrow> ran E d d' \<Longrightarrow> ran E d d''"
  by (induction rule: ran.induct) (auto intro: ran.intros)

definition tx_local :: "'d engine \<Rightarrow> ('d, 'a) io \<Rightarrow> bool" where
  "tx_local E m \<longleftrightarrow>
     (\<forall>p. fst (m p) \<noteq> Blocked \<and> pl_open (snd (m p)) = pl_open p \<and> pl_max (snd (m p)) = pl_max p \<and>
          ran E (pl_db p) (pl_db (snd (m p))))"

named_theorems tx_rules \<open>rules that derive the confinement of a transaction body from its structure\<close>

lemma tx_localI:
  "(\<And>p. fst (m p) \<noteq> Blocked \<and> pl_open (snd (m p)) = pl_open p \<and> pl_max (snd (m p)) = pl_max p \<and>
     ran E (pl_db p) (pl_db (snd (m p)))) \<Longrightarrow> tx_local E m"
  by (simp add: tx_local_def)

lemma tx_localE:
  assumes "tx_local E m"
  obtains (ok) x q where "m p = (Ok x, q)" "pl_open q = pl_open p" "pl_max q = pl_max p" "ran E (pl_db p) (pl_db q)"
        | (fail) e q where "m p = (Fail e, q)" "pl_open q = pl_open p" "pl_max q = pl_max p" "ran E (pl_db p) (pl_db q)"
proof -
  obtain r q where r: "m p = (r, q)" by (cases "m p")
  from assms have "fst (m p) \<noteq> Blocked \<and> pl_open (snd (m p)) = pl_open p \<and>
      pl_max (snd (m p)) = pl_max p \<and> ran E (pl_db p) (pl_db (snd (m p)))"
    by (simp add: tx_local_def)
  with r that show thesis by (cases r) auto
qed

lemma tx_local_return [tx_rules]: "tx_local E (io_return x)"
  and tx_local_fail [tx_rules]: "tx_local E (io_fail e)"
  by (simp_all add: tx_local_def ran_none)

lemma tx_local_lift [tx_rules]: "tx_local E (io_lift r)"
  by (cases r) (simp_all add: tx_local_return tx_local_fail)

lemma tx_local_exec [tx_rules]: "tx_local E (conn_exec E q args)"
proof (rule tx_localI)
  fix p :: "'a pool"
  obtain r d where r: "eng_exec E q args (pl_db p) = (r, d)" by fastforce
  moreover have "ran E (pl_db p) d"
    using ran_exec [OF ran_none, of E "pl_db p" q args] r by simp
  ultimately show "fst (conn_exec E q args p) \<noteq> Blocked \<and> pl_open (snd (conn_exec E q args p)) = pl_open p \<and>
      pl_max (snd (conn_exec E q args p)) = pl_max p \<and> ran E (pl_db p) (pl_db (snd (conn_exec E q args p)))"
    by (cases r) (simp_all add: conn_exec_def)
qed

lemma tx_local_bind [tx_rules]:
  fixes m :: "('d, 'a) io"
  assumes m: "tx_local E m" and f: "\<And>x. tx_local E (f x)"
  shows "tx_local E (io_bind m f)"
proof (rule tx_localI)
  fix p :: "'d pool"
  show "fst (io_bind m f p) \<noteq> Blocked \<and> pl_open (snd (io_bind m f p)) = pl_open p \<and>
      pl_max (snd (io_bind m f p)) = pl_max p \<and> ran E (pl_db p) (pl_db (snd (io_bind m f p)))"
    using m
  proof (cases rule: tx_localE [where p = p])
    case (ok x q)
    show ?thesis
      by (cases rule: tx_localE [OF f [of x], where p = q]) (use ok in \<open>auto intro: ran_trans\<close>)
  qed simp_all
qed

lemma tx_local_wrap [tx_rules]: "tx_local E m \<Longrightarrow> tx_local E (io_wrap f args m)"
  by (rule tx_localI, erule_tac p = p in tx_localE) simp_all

lemma tx_local_ignore [tx_rules]: "tx_local E m \<Longrightarrow> tx_local E (io_ignore m)"
  by (rule tx_localI, erule_tac p = p in tx_localE) simp_all

lemma tx_local_for [tx_rules]: "(\<And>x. x \<in> set xs \<Longrightarrow> tx_local E (body x)) \<Longrightarrow> tx_local E (io_for xs body)"
  by (induction xs) (auto intro: tx_local_return tx_local_bind)

lemma tx_local_each [tx_rules]: "fst h = None \<Longrightarrow> tx_local E (rows_each h step acc)"
  by (auto simp: tx_local_def rows_each_def rows_close_def ran_none split: sum.splits)

lemma tx_local_err [tx_rules]: "tx_local E (rows_err h)"
  by (cases "rs_err (snd h)") (simp_all add: rows_err_def tx_local_return tx_local_fail)

text \<open>A query on the transaction: its rows belong to the transaction's connection.\<close>

lemma tx_local_rows [tx_rules]:
  assumes "\<And>h. fst h = None \<Longrightarrow> tx_local E (body h)"
  shows "tx_local E (io_bind (conn_query E q args) (\<lambda>h. io_finally (body h) (rows_close h)))"
proof (rule tx_localI)
  fix p :: "'a pool"
  let ?m = "io_bind (conn_query E q args) (\<lambda>h. io_finally (body h) (rows_close h))"
  obtain r d where r: "eng_query E q args (pl_db p) = (r, d)" by fastforce
  have d: "ran E (pl_db p) d"
    using ran_query [OF ran_none, of E "pl_db p" q args] r by simp
  show "fst (?m p) \<noteq> Blocked \<and> pl_open (snd (?m p)) = pl_open p \<and> pl_max (snd (?m p)) = pl_max p \<and>
      ran E (pl_db p) (pl_db (snd (?m p)))"
  proof (cases r)
    case (Inl e)
    then show ?thesis using r d by (simp add: conn_query_def io_bind_def)
  next
    case (Inr rs)
    have "?m p = io_finally (body (None, rs)) (rows_close (None, rs)) (p\<lparr>pl_db := d\<rparr>)"
      using r Inr by (simp add: conn_query_def io_bind_def)
    then show ?thesis
      by (cases rule: tx_localE [OF assms, of "(None, rs)" "p\<lparr>pl_db := d\<rparr>"])
        (use d in \<open>auto simp: rows_close_def intro: ran_trans\<close>)
  qed
qed

section \<open>inTx\<close>

definition inTx :: "'d engine \<Rightarrow> ('d, unit) io \<Rightarrow> ('d, unit) io" where
  "inTx E fn =
     io_bind (io_wrap ''dalgo2sqlite: begin tx: %w'' [] (begin_tx E))
       (\<lambda>tx. io_try fn
          (\<lambda>e. io_bind (io_ignore (tx_rollback E tx)) (\<lambda>_. io_fail e))
          (\<lambda>_. io_wrap ''dalgo2sqlite: commit tx: %w'' [] (tx_commit E tx)))"

text \<open>
  What a body needs of SQLite to be undone: \<open>content\<close> is the schema and the data of a database,
  \<open>saved\<close> those at the start of its open transaction. BeginTx saves the content, statements leave what
  was saved, and Rollback goes back to it.
\<close>

definition transactional :: "'d engine \<Rightarrow> ('d \<Rightarrow> 'c) \<Rightarrow> ('d \<Rightarrow> 'c) \<Rightarrow> bool" where
  "transactional E content saved \<longleftrightarrow>
     (\<forall>d. content (snd (eng_begin E d)) = content d) \<and>
     (\<forall>d d'. eng_begin E d = (None, d') \<longrightarrow> saved d' = content d) \<and>
     (\<forall>q args d. saved (snd (eng_exec E q args d)) = saved d) \<and>
     (\<forall>q args d. saved (snd (eng_query E q args d)) = saved d) \<and>
     (\<forall>d. content (snd (eng_rollback E d)) = saved d)"

lemma transactional_ran: "transactional E content saved \<Longrightarrow> ran E d d' \<Longrightarrow> saved d' = saved d"
  by (erule ran.induct; simp add: transactional_def)

definition free_pool :: "'d pool \<Rightarrow> bool" where
  "free_pool p \<longleftrightarrow> pl_max p = 0 \<or> length (pl_open p) < pl_max p"

definition commit_error :: "err \<Rightarrow> bool" where
  "commit_error e = (case e of Errorf f args (Some e') \<Rightarrow> f = ''dalgo2sqlite: commit tx: %w'' | _ \<Rightarrow> False)"

text \<open>The pool inside the transaction.\<close>

definition in_tx_pool :: "'d pool \<Rightarrow> 'd \<Rightarrow> 'd pool" where
  "in_tx_pool p d = p\<lparr>pl_db := d, pl_open := pl_next p # pl_open p, pl_next := Suc (pl_next p)\<rparr>"

lemma in_tx_pool_sel [simp]:
  "pl_db (in_tx_pool p d) = d" "pl_open (in_tx_pool p d) = pl_next p # pl_open p"
  "pl_max (in_tx_pool p d) = pl_max p"
  by (simp_all add: in_tx_pool_def)

text \<open>The names of connections are fresh.\<close>

definition pool_ok :: "'d pool \<Rightarrow> bool" where
  "pool_ok p \<longleftrightarrow> (\<forall>c \<in> set (pl_open p). c < pl_next p)"

lemma begin_tx_cases:
  "begin_tx E p =
     (if \<not> free_pool p then (Blocked, p)
      else case eng_begin E (pl_db p) of
        (None, d) \<Rightarrow> (Ok (pl_next p), in_tx_pool p d)
      | (Some e, d) \<Rightarrow> (Fail e, conn_close (pl_next p) (in_tx_pool p d)))"
  by (auto simp: begin_tx_def db_conn_def io_bind_def engine_step_def free_pool_def in_tx_pool_def
      conn_close_def intro!: pool.equality split: prod.splits option.splits)

lemma tx_end:
  "tx_rollback E c p = (case eng_rollback E (pl_db p) of
     (None, d) \<Rightarrow> (Ok (), conn_close c (p\<lparr>pl_db := d\<rparr>)) | (Some e, d) \<Rightarrow> (Fail e, conn_close c (p\<lparr>pl_db := d\<rparr>)))"
  "tx_commit E c p = (case eng_commit E (pl_db p) of
     (None, d) \<Rightarrow> (Ok (), conn_close c (p\<lparr>pl_db := d\<rparr>)) | (Some e, d) \<Rightarrow> (Fail e, conn_close c (p\<lparr>pl_db := d\<rparr>)))"
  by (auto simp: tx_rollback_def tx_commit_def engine_step_def io_finally_def split: prod.splits option.splits)

lemma conn_close_sel [simp]:
  "pl_db (conn_close c p) = pl_db p" "pl_max (conn_close c p) = pl_max p"
  "pl_open (conn_close c p) = removeAll c (pl_open p)"
  by (simp_all add: conn_close_def)

lemma removeAll_fresh: "pool_ok p \<Longrightarrow> removeAll (pl_next p) (pl_open p) = pl_open p"
  by (auto simp: pool_ok_def removeAll_id)

section \<open>The contract of a transaction body\<close>

locale tx_body =
  fixes E :: "'d engine" and body :: "('d, unit) io"
  assumes confined: "tx_local E body"
begin

text \<open>The four ways the transaction can end.\<close>

lemma outcome:
  assumes "free_pool p" "pool_ok p"
  obtains
    (no_begin) e d q where "eng_begin E (pl_db p) = (Some e, d)" "pl_db q = d" "pl_open q = pl_open p"
      "inTx E body p = (Fail (Wrapf ''dalgo2sqlite: begin tx: %w'' [] e), q)"
  | (rolled_back) d e r q where "eng_begin E (pl_db p) = (None, d)" "body (in_tx_pool p d) = (Fail e, r)"
      "ran E d (pl_db r)" "pl_db q = snd (eng_rollback E (pl_db r))" "pl_open q = pl_open p"
      "inTx E body p = (Fail e, q)"
  | (not_committed) d e r q where "eng_begin E (pl_db p) = (None, d)" "body (in_tx_pool p d) = (Ok (), r)"
      "eng_commit E (pl_db r) = (Some e, pl_db q)" "pl_open q = pl_open p"
      "inTx E body p = (Fail (Wrapf ''dalgo2sqlite: commit tx: %w'' [] e), q)"
  | (committed) d r q where "eng_begin E (pl_db p) = (None, d)" "body (in_tx_pool p d) = (Ok (), r)"
      "eng_commit E (pl_db r) = (None, pl_db q)" "pl_open q = pl_open p" "inTx E body p = (Ok (), q)"
proof -
  obtain b d where b: "eng_begin E (pl_db p) = (b, d)" by fastforce
  show thesis
  proof (cases b)
    case (Some e)
    let ?q = "conn_close (pl_next p) (in_tx_pool p d)"
    show thesis
      by (rule no_begin [of e d ?q])
        (use b Some assms in \<open>simp_all add: inTx_def io_bind_def begin_tx_cases io_wrap_def removeAll_fresh\<close>)
  next
    case None
    have run: "inTx E body p = io_try body (\<lambda>e. io_bind (io_ignore (tx_rollback E (pl_next p))) (\<lambda>_. io_fail e))
        (\<lambda>_. io_wrap ''dalgo2sqlite: commit tx: %w'' [] (tx_commit E (pl_next p))) (in_tx_pool p d)"
      using b None assms(1) by (simp add: inTx_def io_bind_def begin_tx_cases io_wrap_def)
    show thesis
      using confined
    proof (cases rule: tx_localE [where p = "in_tx_pool p d"])
      case (ok x r)
      obtain s d' where s: "eng_commit E (pl_db r) = (s, d')" by fastforce
      let ?q = "conn_close (pl_next p) (r\<lparr>pl_db := d'\<rparr>)"
      show thesis
      proof (cases s)
        case None
        show thesis
          by (rule committed [of d r ?q])
            (use b \<open>b = None\<close> s None ok run assms in \<open>simp_all add: tx_end removeAll_fresh\<close>)
      next
        case (Some e)
        show thesis
          by (rule not_committed [of d r e ?q])
            (use b \<open>b = None\<close> s Some ok run assms in \<open>simp_all add: tx_end removeAll_fresh\<close>)
      qed
    next
      case (fail e r)
      obtain s d' where s: "eng_rollback E (pl_db r) = (s, d')" by fastforce
      let ?q = "conn_close (pl_next p) (r\<lparr>pl_db := d'\<rparr>)"
      have "inTx E body p = (Fail e, ?q)"
        using run fail s by (cases s) (simp_all add: tx_end io_bind_def io_ignore_def)
      then show thesis
        by (intro rolled_back [of d e r ?q]) (use b None s fail assms in \<open>simp_all add: removeAll_fresh\<close>)
    qed
  qed
qed

lemma keeps_pool:
  assumes "free_pool p" "pool_ok p"
  shows "fst (inTx E body p) \<noteq> Blocked \<and> pl_open (snd (inTx E body p)) = pl_open p"
  by (rule outcome [OF assms]) simp_all

text \<open>Unless it is the commit that fails, an error leaves the content as it was.\<close>

lemma atomic:
  assumes "transactional E content saved" "free_pool p" "pool_ok p"
    and "inTx E body p = (Fail e, q)" "\<not> commit_error e"
  shows "content (pl_db q) = content (pl_db p)"
  using assms(2,3)
proof (cases rule: outcome)
  case (no_begin e' d q')
  have "content (snd (eng_begin E (pl_db p))) = content (pl_db p)"
    using assms(1) by (simp add: transactional_def)
  with no_begin assms(4) show ?thesis by simp
next
  case (rolled_back d e' r q')
  have "content (pl_db q) = saved (pl_db r)"
    using rolled_back assms(1,4) by (simp add: transactional_def)
  also have "\<dots> = saved d"
    using transactional_ran [OF assms(1)] rolled_back(3) by blast
  also have "\<dots> = content (pl_db p)"
    using assms(1) rolled_back(1) by (simp add: transactional_def)
  finally show ?thesis .
next
  case (not_committed d e' r q')
  then have "commit_error e" using assms(4) by (simp add: commit_error_def)
  with assms(5) show ?thesis by simp
next
  case (committed d r q')
  then show ?thesis using assms(4) by simp
qed

text \<open>Success means that the body ran to its end and was committed.\<close>

lemma success:
  assumes "free_pool p" "pool_ok p" and "inTx E body p = (Ok (), q)"
  obtains d r where "eng_begin E (pl_db p) = (None, d)" "body (in_tx_pool p d) = (Ok (), r)"
    "eng_commit E (pl_db r) = (None, pl_db q)" "pl_open q = pl_open p"
  by (rule outcome [OF assms(1,2)]) (use assms(3) that in auto)

lemma safe: "pool_safe (inTx E body)"
proof -
  have body: "pool_triple {c} {c} body (\<lambda>_. {c})" for c
  proof (rule pool_tripleI)
    fix p :: "'d pool" assume "set (pl_open p) \<subseteq> {c}"
    then show "pool_post {c} (\<lambda>_. {c}) (body p)"
      by (cases rule: tx_localE [OF confined, where p = p]) simp_all
  qed
  have undo: "pool_triple {} {c} (io_bind (io_ignore (tx_rollback E c)) (\<lambda>_. io_fail e)) (\<lambda>_. {})" for c e
    by (rule pool_triple_bind [where B = "\<lambda>_. {}"])
      (auto intro!: pool_triple_ignore [where F = "{}"] pool_triple_rollback pool_triple_fail)
  show ?thesis
    unfolding pool_safe_def inTx_def
    by (rule pool_triple_bind [OF pool_triple_wrap [OF pool_safe_begin]], rule pool_triple_try [OF body undo])
      (rule pool_triple_wrap [OF pool_triple_commit])
qed

end

end
