(* ===== verification/Schema_Modifier.thy ===== *)
theory Schema_Modifier
  imports Sql_Gen Pk_Order Time_Markers Ddl_Transactions
begin

text \<open>
  schema_modifier.go: CreateCollection, DropCollection and AlterCollection, each one transaction of
  DDL statements (theory Ddl_Transactions), and the applier that turns one alteration into statements.
\<close>

section \<open>CreateCollection\<close>

definition timeColumnsOf :: "collection_def \<Rightarrow> string list" where
  "timeColumnsOf c = map fd_Name (filter (\<lambda>f. fd_Type f = Type_Time) (cd_Fields c))"

text \<open>The text that creates the marker table, laid out with \<open>tabs\<close> tabs in its second line.\<close>

definition create_marker_table_sql :: "nat \<Rightarrow> string" where
  "create_marker_table_sql tabs =
     ''CREATE TABLE IF NOT EXISTS '' @ timeMarkerTable @
     '' (collection_name TEXT NOT NULL, column_name TEXT NOT NULL,'' @ line_break tabs @
     ''   PRIMARY KEY (collection_name, column_name))''"

definition mark_time_columns :: "'d engine \<Rightarrow> collection_def \<Rightarrow> ('d, unit) io" where
  "mark_time_columns E c =
     (if timeColumnsOf c = [] then io_return ()
      else io_bind
        (io_wrap ''dalgo2sqlite: ensure time marker table: %w'' []
          (conn_exec E (create_marker_table_sql 4) []))
        (\<lambda>_. io_for (timeColumnsOf c) (\<lambda>col.
           io_wrap ''dalgo2sqlite: insert time marker (%s.%s): %w'' [Str (cd_Name c), Str col]
             (conn_exec E insert_marker_sql [V_Text (cd_Name c), V_Text col]))))"

definition create_body :: "'d engine \<Rightarrow> collection_def \<Rightarrow> string \<Rightarrow> string list \<Rightarrow> ('d, unit) io" where
  "create_body E c createSQL indexSQLs =
     io_bind (io_wrap ''dalgo2sqlite: CreateCollection exec %q: %w'' [Str createSQL] (conn_exec E createSQL []))
     (\<lambda>_. io_bind
       (io_for indexSQLs (\<lambda>s.
          io_wrap ''dalgo2sqlite: CreateCollection index exec %q: %w'' [Str s] (conn_exec E s [])))
     (\<lambda>_. mark_time_columns E c))"

text \<open>An index without a collection is one of this collection.\<close>

definition on_collection :: "string \<Rightarrow> index_def \<Rightarrow> index_def" where
  "on_collection name idx = (if ix_Collection idx = [] then idx\<lparr>ix_Collection := name\<rparr> else idx)"

definition CreateCollection :: "'d engine \<Rightarrow> collection_def \<Rightarrow> ddl_options \<Rightarrow> ('d, unit) io" where
  "CreateCollection E c o' =
     (case buildCreateTableSQL c o' of
        Inl e \<Rightarrow> io_fail e
      | Inr createSQL \<Rightarrow>
          (case map_result (\<lambda>idx. buildCreateIndexSQL (on_collection (cd_Name c) idx) o') (cd_Indexes c) of
             Inl e \<Rightarrow> io_fail e
           | Inr indexSQLs \<Rightarrow> inTx E (create_body E c createSQL indexSQLs)))"

section \<open>DropCollection\<close>

definition drop_body :: "'d engine \<Rightarrow> string \<Rightarrow> ddl_options \<Rightarrow> ('d, unit) io" where
  "drop_body E name o' =
     io_bind (io_wrap ''dalgo2sqlite: DropCollection exec: %w'' [] (conn_exec E (buildDropTableSQL name o') []))
       (\<lambda>_. io_ignore (conn_exec E delete_markers_sql [V_Text name]))"

definition DropCollection :: "'d engine \<Rightarrow> string \<Rightarrow> ddl_options \<Rightarrow> ('d, unit) io" where
  "DropCollection E name o' = inTx E (drop_body E name o')"

section \<open>The applier\<close>

text \<open>
  ddl.Applier: one method per kind of alteration. An alteration (ddl.AlterOp, of package ddl) is what
  its ApplyTo does with an applier.
\<close>

record 'd applier =
  ap_AddField :: "field_def \<Rightarrow> ddl_options \<Rightarrow> ('d, unit) io"
  ap_DropField :: "string \<Rightarrow> ddl_options \<Rightarrow> ('d, unit) io"
  ap_RenameField :: "string \<Rightarrow> string \<Rightarrow> ddl_options \<Rightarrow> ('d, unit) io"
  ap_ModifyField :: "string \<Rightarrow> field_def \<Rightarrow> ddl_options \<Rightarrow> ('d, unit) io"
  ap_AddIndex :: "index_def \<Rightarrow> ddl_options \<Rightarrow> ('d, unit) io"
  ap_DropIndex :: "string \<Rightarrow> ddl_options \<Rightarrow> ('d, unit) io"

definition ApplyAddField :: "'d engine \<Rightarrow> string \<Rightarrow> field_def \<Rightarrow> ddl_options \<Rightarrow> ('d, unit) io" where
  "ApplyAddField E table f opts =
     (case buildAlterTableAddColumnSQL table f of
        Inl e \<Rightarrow> io_fail e
      | Inr sqlStmt \<Rightarrow>
          io_bind (io_wrap ''dalgo2sqlite: ApplyAddField %q: %w'' [Str (fd_Name f)] (conn_exec E sqlStmt []))
          (\<lambda>_. if fd_Type f = Type_Time
             then io_bind
               (io_wrap ''dalgo2sqlite: ApplyAddField marker table: %w'' []
                 (conn_exec E (create_marker_table_sql 3) []))
               (\<lambda>_. io_wrap ''dalgo2sqlite: ApplyAddField marker insert: %w'' []
                  (conn_exec E insert_marker_sql [V_Text table, V_Text (fd_Name f)]))
             else io_return ()))"

definition delete_marker_sql :: string where
  "delete_marker_sql = ''DELETE FROM '' @ timeMarkerTable @ '' WHERE collection_name=? AND column_name=?''"

definition rename_marker_sql :: string where
  "rename_marker_sql =
     ''UPDATE '' @ timeMarkerTable @ '' SET column_name=? WHERE collection_name=? AND column_name=?''"

definition ApplyDropField :: "'d engine \<Rightarrow> string \<Rightarrow> string \<Rightarrow> ddl_options \<Rightarrow> ('d, unit) io" where
  "ApplyDropField E table name opts =
     io_bind (io_wrap ''dalgo2sqlite: ApplyDropField %q: %w'' [Str name]
       (conn_exec E (buildAlterTableDropColumnSQL table name) []))
     (\<lambda>_. io_ignore (conn_exec E delete_marker_sql [V_Text table, V_Text name]))"

definition ApplyRenameField :: "'d engine \<Rightarrow> string \<Rightarrow> string \<Rightarrow> string \<Rightarrow> ddl_options \<Rightarrow> ('d, unit) io" where
  "ApplyRenameField E table oldName newName opts =
     io_bind (io_wrap ''dalgo2sqlite: ApplyRenameField %q->%q: %w'' [Str oldName, Str newName]
       (conn_exec E (buildAlterTableRenameColumnSQL table oldName newName) []))
     (\<lambda>_. io_ignore (conn_exec E rename_marker_sql [V_Text newName, V_Text table, V_Text oldName]))"

definition ApplyAddIndex :: "'d engine \<Rightarrow> string \<Rightarrow> index_def \<Rightarrow> ddl_options \<Rightarrow> ('d, unit) io" where
  "ApplyAddIndex E table idx opts =
     (case buildCreateIndexSQL (on_collection table idx) opts of
        Inl e \<Rightarrow> io_fail e
      | Inr sqlStmt \<Rightarrow>
          io_wrap ''dalgo2sqlite: ApplyAddIndex %q: %w'' [Str (ix_Name idx)] (conn_exec E sqlStmt []))"

definition ApplyDropIndex :: "'d engine \<Rightarrow> string \<Rightarrow> ddl_options \<Rightarrow> ('d, unit) io" where
  "ApplyDropIndex E name opts =
     io_wrap ''dalgo2sqlite: ApplyDropIndex %q: %w'' [Str name] (conn_exec E (buildDropIndexSQL name opts) [])"

text \<open>The shape of the table, read inside the transaction. The error that ended the rows is not checked.\<close>

definition tx_table_info_sql :: string where
  "tx_table_info_sql = ''SELECT name, type, \"notnull\", pk FROM pragma_table_info(?)''"

definition scan_tx_column :: "sqlval list \<Rightarrow> err + string \<times> string \<times> int \<times> int \<times> unit" where
  "scan_tx_column =
     scan_row 4 (scan_col scan_string (scan_col scan_string (scan_col scan_int (scan_col scan_int scan_nil))))"

definition tx_column :: "string \<times> string \<times> int \<times> int \<times> unit \<Rightarrow> field_def" where
  "tx_column = (\<lambda>(colName, declType, notnull, pkPos, _).
     case dbschemaTypeFromSQLite declType of (t, precision, ok) \<Rightarrow>
       \<lparr>fd_Name = colName, fd_Type = (if ok then t else Type_String), fd_Precision = precision,
        fd_Nullable = (notnull = 0 \<and> pkPos = 0), fd_AutoIncrement = False\<rparr>)"

definition tx_column_step ::
  "field_def list \<times> pk_entry list \<Rightarrow> sqlval list \<Rightarrow> err + field_def list \<times> pk_entry list" where
  "tx_column_step = (\<lambda>(fs, pkEs) row.
     result_bind (scan_tx_column row) (\<lambda>col.
       case col of (colName, declType, notnull, pkPos, _) \<Rightarrow>
         Inr (fs @ [tx_column col],
              if pkPos > 0 then pkEs @ [\<lparr>pk_colName = colName, pk_pkOrder = pkPos\<rparr>] else pkEs)))"

definition readCollectionDefViaTx :: "'d engine \<Rightarrow> string \<Rightarrow> ('d, collection_def) io" where
  "readCollectionDefViaTx E name =
     io_bind (conn_query E tx_table_info_sql [V_Text name])
       (\<lambda>rows. io_finally
          (io_bind (rows_each rows tx_column_step ([], []))
             (\<lambda>(fs, pkEs). io_return
                (bare_collection name fs (map pk_colName (sortPKByOrder pkEs)))))
          (rows_close rows))"

definition modify_fields :: "string \<Rightarrow> field_def \<Rightarrow> field_def list \<Rightarrow> field_def list" where
  "modify_fields name newDef fs =
     map (\<lambda>f. if fd_Name f = name then newDef\<lparr>fd_Name := name\<rparr> else f) fs"

definition copy_sql :: "string \<Rightarrow> field_def list \<Rightarrow> string" where
  "copy_sql table fs =
     (let cols = go_join '', '' (map (\<lambda>f. quoteIdentifier (fd_Name f)) fs)
      in ''INSERT INTO '' @ quoteIdentifier (table @ ''_new'') @ '' ('' @ cols @ '') SELECT '' @ cols @
         '' FROM '' @ quoteIdentifier table)"

definition rename_sql :: "string \<Rightarrow> string" where
  "rename_sql table =
     ''ALTER TABLE '' @ quoteIdentifier (table @ ''_new'') @ '' RENAME TO '' @ quoteIdentifier table"

definition ApplyModifyField :: "'d engine \<Rightarrow> string \<Rightarrow> string \<Rightarrow> field_def \<Rightarrow> ddl_options \<Rightarrow> ('d, unit) io" where
  "ApplyModifyField E table name newDef opts =
     io_bind (io_wrap ''dalgo2sqlite: ModifyField introspect %q: %w'' [Str table] (readCollectionDefViaTx E table))
     (\<lambda>current.
       let modified = bare_collection (table @ ''_new'') (modify_fields name newDef (cd_Fields current))
             (cd_PrimaryKey current)
       in if \<not> list_ex (\<lambda>f. fd_Name f = name) (cd_Fields current)
          then io_fail (Newf ''dalgo2sqlite: ModifyField: column %q does not exist on %q'' [Str name, Str table])
          else (case buildCreateTableSQL modified no_options of
             Inl e \<Rightarrow> io_fail e
           | Inr createSQL \<Rightarrow>
               io_bind (io_wrap ''dalgo2sqlite: ModifyField create new: %w'' [] (conn_exec E createSQL []))
               (\<lambda>_. io_bind (io_wrap ''dalgo2sqlite: ModifyField copy data: %w'' []
                  (conn_exec E (copy_sql table (cd_Fields modified)) []))
               (\<lambda>_. io_bind (io_wrap ''dalgo2sqlite: ModifyField drop original: %w'' []
                  (conn_exec E (buildDropTableSQL table no_options) []))
               (\<lambda>_. io_wrap ''dalgo2sqlite: ModifyField rename: %w'' []
                  (conn_exec E (rename_sql table) []))))))"

definition sqliteAlterApplier :: "'d engine \<Rightarrow> string \<Rightarrow> 'd applier" where
  "sqliteAlterApplier E table =
     \<lparr>ap_AddField = ApplyAddField E table, ap_DropField = ApplyDropField E table,
      ap_RenameField = ApplyRenameField E table, ap_ModifyField = ApplyModifyField E table,
      ap_AddIndex = ApplyAddIndex E table, ap_DropIndex = ApplyDropIndex E\<rparr>"

section \<open>AlterCollection\<close>

type_synonym 'd alter_op = "'d applier \<Rightarrow> ('d, unit) io"

definition alter_body :: "'d engine \<Rightarrow> string \<Rightarrow> 'd alter_op list \<Rightarrow> ('d, unit) io" where
  "alter_body E name ops = io_for ops (\<lambda>op. op (sqliteAlterApplier E name))"

definition AlterCollection :: "'d engine \<Rightarrow> string \<Rightarrow> 'd alter_op list \<Rightarrow> ('d, unit) io" where
  "AlterCollection E name ops = inTx E (alter_body E name ops)"

end
