(* ===== verification/Catalog.thy ===== *)
theory Catalog
  imports Schema_Constraints Reader_Runs Schema_Modifier
begin

text \<open>
  The schema of a database as values, and what SQLite documents the readers' queries to answer from it:
  sqlite_master compares names exactly, the pragma functions in any letter case, and \<open>serves E cat d\<close>
  says that in state \<open>d\<close> the engine gives these answers and changes nothing. \<open>catalog_engine\<close> is an
  engine that does.
\<close>

section \<open>Catalogs\<close>

datatype object_kind = Table | View

record column_entry =
  ce_name :: string
  ce_type :: string
  ce_notnull :: bool
  ce_default :: "string option"
  ce_pk :: int
  ce_hidden :: int

record term_entry =
  te_seqno :: int
  te_column :: "string option"
  te_desc :: bool
  te_coll :: "string option"
  te_key :: bool

text \<open>The DDL of an index: no row in sqlite_master, a row with NULL, or a text.\<close>

record index_entry =
  ie_name :: string
  ie_unique :: bool
  ie_origin :: string
  ie_partial :: bool
  ie_ddl :: "string option option"
  ie_terms :: "term_entry list"

text \<open>A foreign key: per column its position, the column, and the target's column if it is named.\<close>

record key_entry =
  ke_id :: int
  ke_target :: string
  ke_columns :: "(int \<times> string \<times> string option) list"
  ke_on_update :: string
  ke_on_delete :: string

record object_entry =
  oe_kind :: object_kind
  oe_name :: string
  oe_sql :: string
  oe_columns :: "column_entry list"
  oe_indexes :: "index_entry list"
  oe_keys :: "key_entry list"

text \<open>The objects are listed by name, as ORDER BY name lists them.\<close>

record catalog =
  cat_objects :: "object_entry list"
  cat_keys_on :: bool
  cat_markers :: "(string \<times> string) list"

definition visible :: "object_entry \<Rightarrow> column_entry list" where
  "visible ob = filter (\<lambda>ce. ce_hidden ce = 0) (oe_columns ob)"

definition key_columns :: "object_entry \<Rightarrow> column_entry list" where
  "key_columns ob = sort_key ce_pk (filter (\<lambda>ce. ce_pk ce > 0) (visible ob))"

definition all_indexes :: "catalog \<Rightarrow> index_entry list" where
  "all_indexes cat = concat (map oe_indexes (cat_objects cat))"

text \<open>
  Names are unique in any letter case, positions fit 64 bits, key positions are distinct, and foreign
  keys are numbered from 0 upwards and have columns.
\<close>

definition key_ok :: "key_entry \<Rightarrow> bool" where
  "key_ok k \<longleftrightarrow> 0 \<le> ke_id k \<and> int64_range (ke_id k) \<and> ke_columns k \<noteq> [] \<and>
     list_all (\<lambda>(seq, _). int64_range seq) (ke_columns k)"

definition wf_object :: "object_entry \<Rightarrow> bool" where
  "wf_object ob \<longleftrightarrow>
     list_all (\<lambda>ce. int64_range (ce_pk ce) \<and> int64_range (ce_hidden ce)) (oe_columns ob) \<and>
     distinct (map ce_pk (filter (\<lambda>ce. ce_pk ce > 0) (visible ob))) \<and>
     list_all (\<lambda>ix. list_all (\<lambda>t. int64_range (te_seqno t)) (ie_terms ix)) (oe_indexes ob) \<and>
     list_all key_ok (oe_keys ob) \<and>
     distinct (map ke_id (oe_keys ob))"

definition wf_catalog :: "catalog \<Rightarrow> bool" where
  "wf_catalog cat \<longleftrightarrow>
     distinct (map (\<lambda>ob. foldASCII (oe_name ob)) (cat_objects cat)) \<and>
     distinct (map (\<lambda>ix. foldASCII (ie_name ix)) (all_indexes cat)) \<and>
     list_all wf_object (cat_objects cat)"

section \<open>The documented answers\<close>

definition opt_text :: "string option \<Rightarrow> sqlval" where
  "opt_text s = (case s of None \<Rightarrow> V_Null | Some t \<Rightarrow> V_Text t)"

definition flag :: "bool \<Rightarrow> sqlval" where
  "flag b = V_Int (if b then 1 else 0)"

definition arg :: "nat \<Rightarrow> sqlval list \<Rightarrow> string" where
  "arg i args = (if i < length args then as_string (args ! i) else [])"

definition named :: "catalog \<Rightarrow> string \<Rightarrow> object_entry list" where
  "named cat n = filter (\<lambda>ob. oe_name ob = n) (cat_objects cat)"

definition on_object :: "catalog \<Rightarrow> string \<Rightarrow> (object_entry \<Rightarrow> sqlval list list) \<Rightarrow> sqlval list list" where
  "on_object cat n f =
     (case find (\<lambda>ob. foldASCII (oe_name ob) = foldASCII n) (cat_objects cat) of None \<Rightarrow> [] | Some ob \<Rightarrow> f ob)"

definition on_index :: "catalog \<Rightarrow> string \<Rightarrow> (index_entry \<Rightarrow> sqlval list list) \<Rightarrow> sqlval list list" where
  "on_index cat n f =
     (case find (\<lambda>ix. foldASCII (ie_name ix) = foldASCII n) (all_indexes cat) of None \<Rightarrow> [] | Some ix \<Rightarrow> f ix)"

definition column_row :: "column_entry \<Rightarrow> sqlval list" where
  "column_row ce =
     [V_Text (ce_name ce), V_Text (ce_type ce), flag (ce_notnull ce), opt_text (ce_default ce), V_Int (ce_pk ce)]"

definition tx_column_row :: "column_entry \<Rightarrow> sqlval list" where
  "tx_column_row ce = [V_Text (ce_name ce), V_Text (ce_type ce), flag (ce_notnull ce), V_Int (ce_pk ce)]"

definition term_row :: "term_entry \<Rightarrow> sqlval list" where
  "term_row t =
     [V_Int (te_seqno t), opt_text (te_column t), flag (te_desc t), opt_text (te_coll t), flag (te_key t)]"

definition key_rows :: "key_entry \<Rightarrow> sqlval list list" where
  "key_rows k = map (\<lambda>(seq, c, target_col).
     [V_Int (ke_id k), V_Int seq, V_Text (ke_target k), V_Text c, opt_text target_col,
      V_Text (ke_on_update k), V_Text (ke_on_delete k)]) (ke_columns k)"

definition sqlite_reserved :: "string \<Rightarrow> bool" where
  "sqlite_reserved n \<longleftrightarrow> prefix ''sqlite_'' (foldASCII n)"

definition own_tables :: "catalog \<Rightarrow> string list" where
  "own_tables cat = map oe_name (filter (\<lambda>ob. oe_kind ob = Table \<and> \<not> sqlite_reserved (oe_name ob) \<and>
     oe_name ob \<noteq> timeMarkerTable) (cat_objects cat))"

definition views :: "catalog \<Rightarrow> object_entry list" where
  "views cat = filter (\<lambda>ob. oe_kind ob = View) (cat_objects cat)"

definition tables :: "catalog \<Rightarrow> object_entry list" where
  "tables cat = filter (\<lambda>ob. oe_kind ob = Table) (cat_objects cat)"

definition text_rows :: "string list \<Rightarrow> sqlval list list" where
  "text_rows ns = map (\<lambda>n. [V_Text n]) ns"

definition kind_name :: "object_kind \<Rightarrow> string" where
  "kind_name k = (case k of Table \<Rightarrow> ''table'' | View \<Rightarrow> ''view'')"

definition catalog_answers :: "catalog \<Rightarrow> (string \<times> (sqlval list \<Rightarrow> sqlval list list)) list" where
  "catalog_answers cat =
    [(describe_probe_sql False, \<lambda>a. text_rows (map oe_name (filter (\<lambda>ob. oe_kind ob = Table) (named cat (arg 0 a))))),
     (describe_probe_sql True, \<lambda>a. text_rows (map oe_name (named cat (arg 0 a)))),
     (table_info_sql, \<lambda>a. on_object cat (arg 0 a) (\<lambda>ob. map column_row (visible ob))),
     (tx_table_info_sql, \<lambda>a. on_object cat (arg 0 a) (\<lambda>ob. map tx_column_row (visible ob))),
     (table_ddl_sql, \<lambda>a. text_rows (map oe_sql (filter (\<lambda>ob. oe_kind ob = Table) (named cat (arg 0 a))))),
     (index_list_sql, \<lambda>a. on_object cat (arg 0 a) (\<lambda>ob.
        map (\<lambda>ix. [V_Text (ie_name ix), flag (ie_unique ix), V_Text (ie_origin ix)]) (oe_indexes ob))),
     (index_info_sql, \<lambda>a. on_index cat (arg 0 a) (\<lambda>ix.
        map (\<lambda>t. [opt_text (te_column t)]) (filter te_key (ie_terms ix)))),
     (fk_enabled_sql, \<lambda>a. [[flag (cat_keys_on cat)]]),
     (fk_list_sql, \<lambda>a. on_object cat (arg 0 a) (\<lambda>ob. concat (map key_rows (oe_keys ob)))),
     (table_names_sql, \<lambda>a. text_rows (map oe_name (tables cat))),
     (target_key_sql, \<lambda>a. on_object cat (arg 0 a) (\<lambda>ob. text_rows (map ce_name (key_columns ob)))),
     (hidden_columns_sql, \<lambda>a. on_object cat (arg 0 a) (\<lambda>ob.
        map (\<lambda>ce. [V_Text (ce_name ce), V_Int (ce_hidden ce)]) (filter (\<lambda>ce. ce_hidden ce \<noteq> 0) (oe_columns ob)))),
     (source_ddl_sql, \<lambda>a. text_rows (map oe_sql (named cat (arg 0 a)))),
     (source_columns_sql, \<lambda>a. on_object cat (arg 0 a) (\<lambda>ob. map column_row (visible ob))),
     (source_indexes_sql, \<lambda>a. on_object cat (arg 0 a) (\<lambda>ob.
        map (\<lambda>ix. [V_Text (ie_name ix), flag (ie_unique ix), V_Text (ie_origin ix), flag (ie_partial ix)])
          (oe_indexes ob))),
     (index_ddl_sql, \<lambda>a. concat (map (\<lambda>ix. case ie_ddl ix of None \<Rightarrow> [] | Some s \<Rightarrow> [[opt_text s]])
        (filter (\<lambda>ix. ie_name ix = arg 0 a) (all_indexes cat)))),
     (index_terms_sql, \<lambda>a. on_index cat (arg 0 a) (\<lambda>ix. map term_row (ie_terms ix))),
     (source_views_sql, \<lambda>a. map (\<lambda>ob. [V_Text (oe_name ob), V_Text (oe_sql ob)]) (views cat)),
     (view_columns_sql, \<lambda>a. on_object cat (arg 0 a) (\<lambda>ob. text_rows (map ce_name (visible ob)))),
     (list_collections_sql, \<lambda>a. text_rows (own_tables cat)),
     (list_views_sql, \<lambda>a. text_rows (map oe_name (views cat))),
     (unnamed_objects_sql, \<lambda>a. text_rows (map (\<lambda>ob. kind_name (oe_kind ob)) (named cat []))),
     (pk_probe_sql, \<lambda>a. on_object cat (arg 0 a) (\<lambda>ob.
        text_rows (take 1 (map ce_name (filter (\<lambda>ce. ce_pk ce > 0) (visible ob)))))),
     (fk_ids_sql, \<lambda>a. on_object cat (arg 0 a) (\<lambda>ob. map (\<lambda>k. [V_Int (ke_id k)]) (oe_keys ob))),
     (unique_sql, \<lambda>a. on_object cat (arg 0 a) (\<lambda>ob.
        text_rows (map ie_name (filter (\<lambda>ix. ie_origin ix = ''u'') (oe_indexes ob))))),
     (referrer_sql, \<lambda>a. on_object cat (arg 0 a) (\<lambda>ob.
        concat (map (\<lambda>k. text_rows (map (\<lambda>(_, c, _). c) (ke_columns k)))
          (filter (\<lambda>k. foldASCII (ke_target k) = foldASCII (arg 1 a)) (oe_keys ob)))))]"

text \<open>The markers can be read only where their table exists; elsewhere the query fails.\<close>

definition marked :: "catalog \<Rightarrow> bool" where
  "marked cat \<longleftrightarrow> (\<exists>ob \<in> set (cat_objects cat). oe_kind ob = Table \<and> oe_name ob = timeMarkerTable)"

definition marker_rows :: "catalog \<Rightarrow> sqlval list \<Rightarrow> sqlval list list" where
  "marker_rows cat args = text_rows (map snd (filter (\<lambda>m. fst m = arg 0 args) (cat_markers cat)))"

definition serves :: "'d engine \<Rightarrow> catalog \<Rightarrow> 'd \<Rightarrow> bool" where
  "serves E cat d \<longleftrightarrow>
     (\<forall>q f args. map_of (catalog_answers cat) q = Some f \<longrightarrow> answers E d q args (f args)) \<and>
     (marked cat \<longrightarrow> (\<forall>args. answers E d select_markers_sql args (marker_rows cat args)))"

definition catalog_query :: "catalog \<Rightarrow> string \<Rightarrow> sqlval list \<Rightarrow> err + rowset" where
  "catalog_query cat q args =
     (case map_of (catalog_answers cat) q of
        Some f \<Rightarrow> Inr (all_rows (f args))
      | None \<Rightarrow> if q = select_markers_sql \<and> marked cat then Inr (all_rows (marker_rows cat args)) else Inl (Sqlite_Error 1))"

definition catalog_engine :: "catalog engine" where
  "catalog_engine =
     \<lparr>eng_query = (\<lambda>q args cat. (catalog_query cat q args, cat)),
      eng_exec = (\<lambda>q args cat. (Some (Sqlite_Error 8), cat)),
      eng_begin = (\<lambda>cat. (None, cat)), eng_commit = (\<lambda>cat. (None, cat)), eng_rollback = (\<lambda>cat. (None, cat))\<rparr>"

lemma catalog_texts_distinct: "distinct (select_markers_sql # map fst (catalog_answers cat))"
proof -
  have "map fst (catalog_answers cat) =
      [describe_probe_sql False, describe_probe_sql True, table_info_sql, tx_table_info_sql, table_ddl_sql,
       index_list_sql, index_info_sql, fk_enabled_sql, fk_list_sql, table_names_sql, target_key_sql,
       hidden_columns_sql, source_ddl_sql, source_columns_sql, source_indexes_sql, index_ddl_sql,
       index_terms_sql, source_views_sql, view_columns_sql, list_collections_sql, list_views_sql,
       unnamed_objects_sql, pk_probe_sql, fk_ids_sql, unique_sql, referrer_sql]"
    by (simp add: catalog_answers_def)
  moreover have "distinct (select_markers_sql # \<dots>)"
    by code_simp
  ultimately show ?thesis by simp
qed

lemma distinct_texts: "distinct (map fst (catalog_answers cat))"
  using catalog_texts_distinct [of cat] by simp

lemma markers_apart: "map_of (catalog_answers cat) select_markers_sql = None"
  using catalog_texts_distinct [of cat] unfolding map_of_eq_None_iff set_map [symmetric] by simp

lemma serves_catalog_query:
  assumes "\<And>q args. eng_query E q args d = (catalog_query cat q args, d)"
  shows "serves E cat d"
  using assms by (simp add: serves_def answers_def catalog_query_def markers_apart)

lemma catalog_engine_serves: "serves catalog_engine cat cat"
  by (rule serves_catalog_query) (simp add: catalog_engine_def)

lemma serves_answer:
  "serves E cat d \<Longrightarrow> (q, f) \<in> set (catalog_answers cat) \<Longrightarrow> answers E d q args (f args)"
  by (simp add: serves_def map_of_is_SomeI [OF distinct_texts])

lemma served: "serves E cat d \<Longrightarrow> list_all (\<lambda>(q, f). answers E d q args (f args)) (catalog_answers cat)"
  by (auto simp: list_all_iff intro: serves_answer)

lemma serves_markers: "serves E cat d \<Longrightarrow> marked cat \<Longrightarrow> answers E d select_markers_sql args (marker_rows cat args)"
  by (simp add: serves_def)

end
