(* ===== verification/Catalog_Spec.thy ===== *)
theory Catalog_Spec
  imports Catalog
begin

text \<open>
  The abstract specification of the schema reader: what each operation returns on a catalog, written
  over the catalog alone, and the proofs that the queries, loops and conversions of the code compute it.
\<close>

section \<open>Looking things up\<close>

lemma find_distinct:
  "distinct (map f xs) \<Longrightarrow> x \<in> set xs \<Longrightarrow> find (\<lambda>y. f y = f x) xs = Some x"
  by (induction xs) (auto simp: image_iff)

lemma filter_distinct:
  "distinct (map f xs) \<Longrightarrow> x \<in> set xs \<Longrightarrow> filter (\<lambda>y. f y = f x) xs = [x]"
proof (induction xs)
  case (Cons y ys)
  then show ?case by (auto simp: image_iff filter_empty_conv intro: sym)
qed simp

lemma distinct_map_of_fold: "distinct (map (\<lambda>x. g (f x)) xs) \<Longrightarrow> distinct (map f xs)"
  by (auto simp: distinct_map inj_on_def)

lemma on_object_self: "wf_catalog cat \<Longrightarrow> ob \<in> set (cat_objects cat) \<Longrightarrow> on_object cat (oe_name ob) f = f ob"
  using find_distinct [of "\<lambda>ob. foldASCII (oe_name ob)" "cat_objects cat" ob]
  by (simp add: on_object_def wf_catalog_def)

lemma named_self: "wf_catalog cat \<Longrightarrow> ob \<in> set (cat_objects cat) \<Longrightarrow> named cat (oe_name ob) = [ob]"
  unfolding named_def wf_catalog_def
  by (rule filter_distinct) (auto intro: distinct_map_of_fold [of foldASCII])

lemma on_index_self: "wf_catalog cat \<Longrightarrow> ix \<in> set (all_indexes cat) \<Longrightarrow> on_index cat (ie_name ix) f = f ix"
  using find_distinct [of "\<lambda>ix. foldASCII (ie_name ix)" "all_indexes cat" ix]
  by (simp add: on_index_def wf_catalog_def)

lemma index_named_self:
  "wf_catalog cat \<Longrightarrow> ix \<in> set (all_indexes cat) \<Longrightarrow> filter (\<lambda>i. ie_name i = ie_name ix) (all_indexes cat) = [ix]"
  unfolding wf_catalog_def
  by (rule filter_distinct) (auto intro: distinct_map_of_fold [of foldASCII])

lemma object_index: "ob \<in> set (cat_objects cat) \<Longrightarrow> ix \<in> set (oe_indexes ob) \<Longrightarrow> ix \<in> set (all_indexes cat)"
  by (auto simp: all_indexes_def)

lemma arg_simps [simp]: "arg 0 (V_Text n # as) = n" "arg (Suc 0) (x # V_Text n # as) = n"
  by (simp_all add: arg_def)

text \<open>Scanning the rows of a catalog.\<close>

lemma scan_flag [simp]: "scan_int (flag b) = Inr (if b then 1 else 0)"
  by (cases b) (simp_all add: flag_def int64_range_def)

lemma scan_opt_text [simp]: "scan_null_string (opt_text s) = Inr s"
  by (cases s) (simp_all add: opt_text_def)

lemma scan_column_row:
  "int64_range (ce_pk ce) \<Longrightarrow> scan_column (column_row ce) =
     Inr (ce_name ce, ce_type ce, if ce_notnull ce then 1 else 0, ce_default ce, ce_pk ce, ())"
  by (simp add: scan_column_def column_row_def scan_row_def)

section \<open>Time markers\<close>

definition spec_markers :: "catalog \<Rightarrow> string \<Rightarrow> string set" where
  "spec_markers cat n =
     (if marked cat then set (map snd (filter (\<lambda>m. fst m = n) (cat_markers cat))) else {})"

lemma probe_sql: "probe_table_sql = describe_probe_sql False"
  by (simp add: probe_table_sql_def describe_probe_sql_def)

lemma first_row_text_rows [simp]:
  "first_row (all_rows (text_rows ns)) scan_name = (case ns of [] \<Rightarrow> Inl Err_No_Rows | n # _ \<Rightarrow> Inr n)"
  by (cases ns) (simp_all add: text_rows_def)

lemma runs_readTimeMarkers:
  assumes "serves E cat d"
  shows "runs d [] (readTimeMarkers E n) (Ok (spec_markers cat n)) []"
proof -
  let ?tabs = "filter (\<lambda>ob. oe_kind ob = Table) (named cat timeMarkerTable)"
  have probe: "answers E d probe_table_sql [V_Text timeMarkerTable] (text_rows (map oe_name ?tabs))"
    using served [OF assms, of "[V_Text timeMarkerTable]"]
    by (simp add: catalog_answers_def probe_sql)
  have ex: "?tabs \<noteq> [] \<longleftrightarrow> marked cat"
    by (auto simp: named_def filter_empty_conv marked_def)
  show ?thesis
  proof (cases "?tabs = []")
    case True
    then have none: "spec_markers cat n = {}" using ex by (auto simp: spec_markers_def)
    show ?thesis
      unfolding readTimeMarkers_def none
      by (rule runs_try_fail, rule runs_query_row(2) [OF probe], simp add: True) (simp add: runs_return)
  next
    case False
    then have some: "spec_markers cat n = set (map snd (filter (\<lambda>m. fst m = n) (cat_markers cat))) \<union> {}"
      using ex by (simp add: spec_markers_def)
    have markers: "answers E d select_markers_sql [V_Text n]
        (text_rows (map snd (filter (\<lambda>m. fst m = n) (cat_markers cat))))"
      using serves_markers [OF assms, of "[V_Text n]"] False ex by (simp add: marker_rows_def)
    obtain ob obs where tabs: "?tabs = ob # obs" using False by (cases ?tabs) auto
    show ?thesis
      unfolding readTimeMarkers_def some
      by (rule runs_try, rule runs_query_row(1) [OF probe], simp add: tabs)
        (rule runs_db_read [OF markers rows_fold_insert [folded text_rows_def]])
  qed
qed

section \<open>Indexes\<close>

text \<open>The columns of an index, none when a term is an expression; the indexes a table is described with.\<close>

definition spec_index_fields :: "index_entry \<Rightarrow> string list" where
  "spec_index_fields ix =
     (let terms = map te_column (filter te_key (ie_terms ix))
      in if None \<in> set terms then [] else map the terms)"

definition spec_indexes :: "object_entry \<Rightarrow> index_def list" where
  "spec_indexes ob =
     map (\<lambda>ix. \<lparr>ix_Name = ie_name ix, ix_Collection = oe_name ob, ix_Fields = spec_index_fields ix,
            ix_Unique = ie_unique ix\<rparr>)
       (filter (\<lambda>ix. ie_origin ix \<noteq> ''pk'' \<and> spec_index_fields ix \<noteq> []) (oe_indexes ob))"

lemma index_field_fold:
  "rows_fold index_field_step (out, h) (map (\<lambda>c. [opt_text c]) cs) =
     Inr (out @ List.map_filter id cs, h \<or> None \<in> set cs)"
proof (induction cs arbitrary: out h)
  case (Cons c cs)
  then show ?case
    by (cases c) (simp_all add: index_field_step_def scan_row_def List.map_filter_simps)
qed (simp add: List.map_filter_simps)

lemma map_filter_id_the: "None \<notin> set cs \<Longrightarrow> List.map_filter id cs = map the cs"
proof (induction cs)
  case (Cons c cs)
  then show ?case by (cases c) (simp_all add: List.map_filter_simps)
qed (simp add: List.map_filter_simps)

lemma runs_readIndexFields:
  assumes "serves E cat d" "wf_catalog cat" "ix \<in> set (all_indexes cat)"
  shows "runs d [] (readIndexFields E (ie_name ix)) (Ok (spec_index_fields ix)) []"
proof -
  let ?cs = "map te_column (filter te_key (ie_terms ix))"
  have "answers E d index_info_sql [V_Text (ie_name ix)] (map (\<lambda>c. [opt_text c]) ?cs)"
    using served [OF assms(1), of "[V_Text (ie_name ix)]"]
    by (simp add: catalog_answers_def on_index_self [OF assms(2,3)] comp_def)
  note read = runs_db_read [OF this index_field_fold [of "[]" False]]
  have "spec_index_fields ix = (if False \<or> None \<in> set ?cs then [] else [] @ List.map_filter id ?cs)"
    by (simp add: spec_index_fields_def Let_def map_filter_id_the)
  then show ?thesis
    unfolding readIndexFields_def by (intro runs_bind [OF read]) (simp add: runs_return)
qed

definition listed :: "index_entry \<Rightarrow> string \<times> int \<times> string \<times> unit" where
  "listed ix = (ie_name ix, if ie_unique ix then 1 else 0, ie_origin ix, ())"

lemma runs_list_index:
  assumes "serves E cat d" "wf_catalog cat" "ix \<in> set (all_indexes cat)"
  shows "runs d [] (list_index E t (listed ix)) (Ok
    (if ie_origin ix \<noteq> ''pk'' \<and> spec_index_fields ix \<noteq> []
     then Some \<lparr>ix_Name = ie_name ix, ix_Collection = t, ix_Fields = spec_index_fields ix, ix_Unique = ie_unique ix\<rparr>
     else None)) []"
  by (auto simp: list_index_def listed_def intro!: runs_return runs_bind [OF runs_readIndexFields [OF assms]])

lemma map_filter_id_if:
  "List.map_filter id (map (\<lambda>x. if P x then Some (f x) else None) xs) = map f (filter P xs)"
  by (induction xs) (auto simp: List.map_filter_simps)

lemma runs_listIndexesImpl:
  assumes "serves E cat d" "wf_catalog cat" "ob \<in> set (cat_objects cat)"
  shows "runs d [] (listIndexesImpl E (oe_name ob)) (Ok (spec_indexes ob)) []"
proof -
  have "answers E d index_list_sql [V_Text (oe_name ob)]
      (map (\<lambda>ix. [V_Text (ie_name ix), flag (ie_unique ix), V_Text (ie_origin ix)]) (oe_indexes ob))"
    using served [OF assms(1), of "[V_Text (oe_name ob)]"]
    by (simp add: catalog_answers_def on_object_self [OF assms(2,3)])
  note read = runs_db_read [OF this rows_fold_append_map [where g = listed and acc = "[]"]]
  have entries: "runs d [] (io_map (list_index E (oe_name ob)) ([] @ map listed (oe_indexes ob)))
    (Ok (map (\<lambda>ix. if ie_origin ix \<noteq> ''pk'' \<and> spec_index_fields ix \<noteq> []
      then Some \<lparr>ix_Name = ie_name ix, ix_Collection = oe_name ob, ix_Fields = spec_index_fields ix,
        ix_Unique = ie_unique ix\<rparr> else None) (oe_indexes ob))) []"
    unfolding append_Nil
    by (rule runs_map_image) (rule runs_list_index [OF assms(1,2) object_index [OF assms(3)]])
  show ?thesis
    unfolding listIndexesImpl_def spec_indexes_def
    by (rule runs_bind, rule read, simp add: listed_def scan_row_def, rule runs_bind, rule entries)
      (simp add: map_filter_id_if runs_return)
qed

end
