(* ===== verification/Foreign_Key_Spec.thy ===== *)
theory Foreign_Key_Spec
  imports Catalog_Spec
begin

text \<open>
  The specification of a table's foreign keys over a catalog, and the proof that readForeignKeys
  (schema_foreign_keys.go) computes it.
\<close>

lemma rows_fold_append:
  "rows_fold step acc (xs @ ys) =
     (case rows_fold step acc xs of Inl e \<Rightarrow> Inl e | Inr acc' \<Rightarrow> rows_fold step acc' ys)"
  by (induction xs arbitrary: acc) (auto split: sum.splits)

section \<open>Foreign keys\<close>

text \<open>The table a key names, as the database spells it; a key without columns means the target's key.\<close>

definition spec_target :: "catalog \<Rightarrow> string \<Rightarrow> string" where
  "spec_target cat t =
     (case find (\<lambda>n. foldASCII n = foldASCII t) (map oe_name (tables cat)) of Some n \<Rightarrow> n | None \<Rightarrow> t)"

definition target_key :: "catalog \<Rightarrow> string \<Rightarrow> string list" where
  "target_key cat t =
     (case find (\<lambda>ob. foldASCII (oe_name ob) = foldASCII t) (cat_objects cat) of
        None \<Rightarrow> [] | Some ob \<Rightarrow> map ce_name (key_columns ob))"

definition named_columns :: "(int \<times> string \<times> string option) list \<Rightarrow> string list" where
  "named_columns cols = concat (map (\<lambda>(seq, c, target_col).
     case target_col of Some n \<Rightarrow> if n \<noteq> [] then [n] else [] | None \<Rightarrow> []) cols)"

definition spec_key :: "catalog \<Rightarrow> string \<Rightarrow> key_entry \<Rightarrow> foreign_key_def" where
  "spec_key cat table k =
     \<lparr>fk_Name = table @ ''_fk_'' @ show_int (ke_id k),
      fk_Fields = map (\<lambda>(seq, c, target_col). c) (ke_columns k),
      fk_ReferencedCollection = spec_target cat (ke_target k),
      fk_ReferencedFields = (if named_columns (ke_columns k) \<noteq> [] then named_columns (ke_columns k)
        else target_key cat (spec_target cat (ke_target k))),
      fk_Enforcement = (if cat_keys_on cat then Enforcement_Enabled else Enforcement_Disabled),
      fk_OnUpdate = ke_on_update k, fk_OnDelete = ke_on_delete k\<rparr>"

text \<open>A key as the rows of the list give it, before its target is resolved.\<close>

definition listed_key :: "string \<Rightarrow> enforcement \<Rightarrow> key_entry \<Rightarrow> (int \<times> string \<times> string option) list \<Rightarrow> foreign_key_def" where
  "listed_key table state k cols =
     \<lparr>fk_Name = table @ ''_fk_'' @ show_int (ke_id k),
      fk_Fields = map (\<lambda>(seq, c, target_col). c) cols,
      fk_ReferencedCollection = ke_target k, fk_ReferencedFields = named_columns cols,
      fk_Enforcement = state, fk_OnUpdate = ke_on_update k, fk_OnDelete = ke_on_delete k\<rparr>"

definition key_row :: "key_entry \<Rightarrow> int \<times> string \<times> string option \<Rightarrow> sqlval list" where
  "key_row k = (\<lambda>(seq, c, target_col).
     [V_Int (ke_id k), V_Int seq, V_Text (ke_target k), V_Text c, opt_text target_col,
      V_Text (ke_on_update k), V_Text (ke_on_delete k)])"

lemma key_rows_map: "key_rows k = map (key_row k) (ke_columns k)"
  by (simp add: key_rows_def key_row_def)

lemma scan_key_row:
  "int64_range (ke_id k) \<Longrightarrow> int64_range seq \<Longrightarrow> scan_fk (key_row k (seq, c, target_col)) =
     Inr (ke_id k, seq, ke_target k, c, target_col, ke_on_update k, ke_on_delete k, ())"
  by (simp add: scan_fk_def key_row_def scan_row_def)

lemma fk_step_more:
  assumes "int64_range (ke_id k)" "int64_range (fst col)"
  shows "fk_step table state (keys @ [listed_key table state k cols], ke_id k) (key_row k col) =
    Inr (keys @ [listed_key table state k (cols @ [col])], ke_id k)"
proof -
  obtain seq c target_col where col: "col = (seq, c, target_col)" by (cases col) auto
  show ?thesis
    using assms by (cases target_col)
      (auto simp: col fk_step_def scan_key_row listed_key_def named_columns_def Let_def)
qed

lemma fk_step_first:
  assumes "int64_range (ke_id k)" "int64_range (fst col)" "last_id \<noteq> ke_id k"
  shows "fk_step table state (keys, last_id) (key_row k col) =
    Inr (keys @ [listed_key table state k [col]], ke_id k)"
proof -
  obtain seq c target_col where col: "col = (seq, c, target_col)" by (cases col) auto
  show ?thesis
    using assms by (cases target_col)
      (auto simp: col fk_step_def scan_key_row listed_key_def named_columns_def Let_def)
qed

lemma fk_fold_more:
  assumes "int64_range (ke_id k)" "list_all (\<lambda>(seq, _). int64_range seq) cols'"
  shows "rows_fold (fk_step table state) (keys @ [listed_key table state k cols], ke_id k) (map (key_row k) cols') =
    Inr (keys @ [listed_key table state k (cols @ cols')], ke_id k)"
  using assms(2)
proof (induction cols' arbitrary: cols)
  case (Cons col cols')
  then show ?case
    using fk_step_more [OF assms(1), of col] by (auto simp: case_prod_beta)
qed simp

lemma fk_fold_key:
  assumes "key_ok k" "last_id \<noteq> ke_id k"
  shows "rows_fold (fk_step table state) (keys, last_id) (key_rows k) =
    Inr (keys @ [listed_key table state k (ke_columns k)], ke_id k)"
proof -
  obtain col cols where cols: "ke_columns k = col # cols"
    using assms(1) by (cases "ke_columns k") (auto simp: key_ok_def)
  have "int64_range (ke_id k)" "int64_range (fst col)" "list_all (\<lambda>(seq, _). int64_range seq) cols"
    using assms(1) by (auto simp: key_ok_def cols)
  then show ?thesis
    using fk_step_first [of k col last_id] assms(2) fk_fold_more [of k cols table state keys "[col]"]
    by (simp add: key_rows_map cols)
qed

lemma fk_fold:
  assumes "list_all key_ok ks" "distinct (map ke_id ks)" "last_id \<notin> set (map ke_id ks)"
  shows "\<exists>l. rows_fold (fk_step table state) (keys, last_id) (concat (map key_rows ks)) =
    Inr (keys @ map (\<lambda>k. listed_key table state k (ke_columns k)) ks, l)"
  using assms
proof (induction ks arbitrary: keys last_id)
  case (Cons k ks)
  then have "rows_fold (fk_step table state) (keys, last_id) (key_rows k) =
      Inr (keys @ [listed_key table state k (ke_columns k)], ke_id k)"
    by (intro fk_fold_key) auto
  then show ?case
    using Cons.IH [of "ke_id k" "keys @ [listed_key table state k (ke_columns k)]"] Cons.prems
    by (simp add: rows_fold_append)
qed simp

text \<open>The spellings are a map from the folded names to the names.\<close>

lemma spelling_fold:
  "\<exists>m'. rows_fold spelling_step m (text_rows ns) = Inr m' \<and>
     (distinct (map foldASCII ns) \<longrightarrow>
       (\<forall>t. m' t = (case find (\<lambda>n. foldASCII n = t) ns of Some n \<Rightarrow> Some n | None \<Rightarrow> m t)))"
proof (induction ns arbitrary: m)
  case (Cons n ns)
  from Cons.IH [of "m(foldASCII n \<mapsto> n)"] obtain m' where
    m': "rows_fold spelling_step (m(foldASCII n \<mapsto> n)) (text_rows ns) = Inr m'"
      "distinct (map foldASCII ns) \<Longrightarrow>
       m' t = (case find (\<lambda>n. foldASCII n = t) ns of Some n \<Rightarrow> Some n | None \<Rightarrow> (m(foldASCII n \<mapsto> n)) t)" for t
    by blast
  have "rows_fold spelling_step m (text_rows (n # ns)) = Inr m'"
    using m'(1) by (simp add: text_rows_def spelling_step_def)
  moreover have "m' t = (case find (\<lambda>n. foldASCII n = t) (n # ns) of Some n \<Rightarrow> Some n | None \<Rightarrow> m t)"
    if "distinct (map foldASCII (n # ns))" for t
  proof (cases "foldASCII n = t")
    case True
    then have "find (\<lambda>n. foldASCII n = t) ns = None"
      using that by (auto simp: find_None_iff image_iff)
    then show ?thesis using m'(2) [of t] that True by simp
  next
    case False
    then show ?thesis using m'(2) [of t] that by (auto split: option.splits)
  qed
  ultimately show ?case by blast
qed (simp add: text_rows_def)

lemma case_option_id: "(case r of Some n \<Rightarrow> Some n | None \<Rightarrow> Map.empty t) = r"
  by (cases r) simp_all

lemma distinct_tables: "wf_catalog cat \<Longrightarrow> distinct (map foldASCII (map oe_name (tables cat)))"
  unfolding wf_catalog_def tables_def by (auto simp: comp_def intro: distinct_map_filter)

lemma find_fold_same: "foldASCII a = foldASCII b \<Longrightarrow> find (\<lambda>n. foldASCII n = foldASCII a) ns = find (\<lambda>n. foldASCII n = foldASCII b) ns"
  by simp

lemma runs_resolve_key:
  assumes "serves E cat d"
    and "\<And>t. spelled t = find (\<lambda>n. foldASCII n = t) (map oe_name (tables cat))"
    and "state = (if cat_keys_on cat then Enforcement_Enabled else Enforcement_Disabled)"
  shows "runs d C (resolve_key E spelled (listed_key table state k (ke_columns k))) (Ok (spec_key cat table k)) C"
proof -
  let ?key = "listed_key table state k (ke_columns k)"
  let ?t = "spec_target cat (ke_target k)"
  have target: "(case spelled (foldASCII (fk_ReferencedCollection ?key)) of
        Some name \<Rightarrow> ?key\<lparr>fk_ReferencedCollection := name\<rparr> | None \<Rightarrow> ?key) = ?key\<lparr>fk_ReferencedCollection := ?t\<rparr>"
    by (auto simp: assms(2) spec_target_def listed_key_def split: option.splits)
  have "answers E d target_key_sql [V_Text ?t] (text_rows (target_key cat ?t))"
    using served [OF assms(1), of "[V_Text ?t]"]
    by (auto simp: catalog_answers_def on_object_def target_key_def text_rows_def split: option.splits)
  then have read: "answers E d target_key_sql [V_Text ?t] (map (\<lambda>n. [V_Text n]) (target_key cat ?t))"
    by (simp add: text_rows_def)
  show ?thesis
  proof (cases "named_columns (ke_columns k) = []")
    case True
    show ?thesis
      unfolding resolve_key_def Let_def target
      by (simp add: listed_key_def True, rule runs_bind,
          rule runs_conn_read [OF read rows_fold_append_map [where acc = "[]" and g = id]], simp)
        (simp add: runs_return spec_key_def True assms(3))
  next
    case False
    then have "spec_key cat table k = ?key\<lparr>fk_ReferencedCollection := ?t\<rparr>"
      by (simp add: spec_key_def listed_key_def assms(3))
    then show ?thesis
      unfolding resolve_key_def Let_def target using False by (simp add: listed_key_def runs_return)
  qed
qed

lemma runs_readForeignKeys:
  assumes "serves E cat d" "wf_catalog cat" "ob \<in> set (cat_objects cat)"
  shows "runs d [] (readForeignKeys E (oe_name ob)) (Ok (map (spec_key cat (oe_name ob)) (oe_keys ob))) []"
proof -
  let ?state = "if cat_keys_on cat then Enforcement_Enabled else Enforcement_Disabled"
  let ?keys = "map (\<lambda>k. listed_key (oe_name ob) ?state k (ke_columns k)) (oe_keys ob)"
  have ok: "list_all key_ok (oe_keys ob)" "distinct (map ke_id (oe_keys ob))"
    using assms(2,3) by (auto simp: wf_catalog_def wf_object_def list_all_iff)
  then have "-1 \<notin> set (map ke_id (oe_keys ob))"
    by (fastforce simp: list_all_iff key_ok_def)
  note ok = ok this
  obtain l where fold: "rows_fold (fk_step (oe_name ob) ?state) ([], -1) (concat (map key_rows (oe_keys ob))) =
      Inr (?keys, l)"
    using fk_fold [OF ok, of "oe_name ob" ?state "[]"] by auto
  have enabled: "answers E d fk_enabled_sql [] [[flag (cat_keys_on cat)]]"
    and list: "answers E d fk_list_sql [V_Text (oe_name ob)] (concat (map key_rows (oe_keys ob)))"
    using served [OF assms(1), of "[]"] served [OF assms(1), of "[V_Text (oe_name ob)]"]
    by (simp_all add: catalog_answers_def on_object_self [OF assms(2,3)])
  have names: "answers E d table_names_sql [] (text_rows (map oe_name (tables cat)))"
    using served [OF assms(1), of "[]"] by (simp add: catalog_answers_def)
  obtain m where m: "rows_fold spelling_step Map.empty (text_rows (map oe_name (tables cat))) = Inr m"
      and spelled: "\<And>t. m t = find (\<lambda>n. foldASCII n = t) (map oe_name (tables cat))"
    using spelling_fold [of Map.empty "map oe_name (tables cat)"] distinct_tables [OF assms(2)]
    unfolding case_option_id by blast
  have resolve: "runs d C (io_bind (tableSpellings E ?keys) (\<lambda>spelled. io_map (resolve_key E spelled) ?keys))
      (Ok (map (spec_key cat (oe_name ob)) (oe_keys ob))) C" for C
  proof (cases "oe_keys ob = []")
    case True
    then show ?thesis by (simp add: tableSpellings_def runs_def)
  next
    case False
    have "runs d C (tableSpellings E ?keys) (Ok m) C"
      using False by (auto simp: tableSpellings_def intro: runs_conn_read [OF names m])
    then show ?thesis
      by (rule runs_bind) (rule runs_map_image, rule runs_resolve_key [OF assms(1) spelled refl])
  qed
  have state: "(if (if cat_keys_on cat then 1 else 0 :: int) \<noteq> 0 then Enforcement_Enabled else Enforcement_Disabled) = ?state"
    by simp
  have row: "runs d C (io_wrap f args (conn_query_row E fk_enabled_sql [] (scan_row 1 (scan_col scan_int scan_nil))))
      (Ok (if cat_keys_on cat then 1 else 0, ())) C" for C f args
    by (rule runs_wrap, rule runs_query_row(3) [OF enabled]) (simp add: scan_row_def)
  show ?thesis
    unfolding readForeignKeys_def
    by (rule runs_with_conn, rule runs_bind, rule row)
      (simp only: prod.case Let_def state, rule runs_bind, rule runs_conn_read [OF list fold],
        simp only: prod.case resolve)
qed

end
