(* ===== verification/Describe_Spec.thy ===== *)
theory Describe_Spec
  imports Foreign_Key_Spec
begin

text \<open>
  The specification of DescribeCollection over a catalog, and the proof that describeCollection
  (schema_reader.go) with readSourceDefinition (schema_source.go) computes it.
\<close>

section \<open>The source definition\<close>

definition spec_source_column :: "column_entry \<Rightarrow> source_column_def" where
  "spec_source_column ce =
     \<lparr>sc_Name = ce_name ce, sc_DeclaredType = ce_type ce, sc_NotNull = ce_notnull ce,
      sc_PrimaryKeyPosition = ce_pk ce, sc_DefaultSQL = ce_default ce\<rparr>"

definition spec_source_index :: "index_entry \<Rightarrow> source_index_def" where
  "spec_source_index ix =
     \<lparr>si_Name = ie_name ix, si_Origin = ie_origin ix, si_Unique = ie_unique ix, si_Partial = ie_partial ix,
      si_CreateSQL = (case ie_ddl ix of Some (Some s) \<Rightarrow> s | _ \<Rightarrow> []),
      si_Columns = map (\<lambda>t. \<lparr>st_Position = te_seqno t, st_Name = te_column t, st_Descending = te_desc t,
        st_Collation = (case te_coll t of Some s \<Rightarrow> s | None \<Rightarrow> []), st_Key = te_key t\<rparr>) (ie_terms ix)\<rparr>"

definition spec_source :: "object_entry \<Rightarrow> source_definition" where
  "spec_source ob =
     \<lparr>sd_Dialect = ''sqlite'', sd_CreateSQL = oe_sql ob, sd_Columns = map spec_source_column (visible ob),
      sd_Indexes = map spec_source_index (oe_indexes ob)\<rparr>"

definition first_hidden :: "object_entry \<Rightarrow> column_entry option" where
  "first_hidden ob = find (\<lambda>ce. ce_hidden ce \<noteq> 0) (oe_columns ob)"

lemma find_filter: "find P xs = (case filter P xs of [] \<Rightarrow> None | x # _ \<Rightarrow> Some x)"
  by (induction xs) auto

lemma visible_in_range: "wf_catalog cat \<Longrightarrow> ob \<in> set (cat_objects cat) \<Longrightarrow> ce \<in> set (visible ob) \<Longrightarrow> int64_range (ce_pk ce)"
  by (auto simp: wf_catalog_def wf_object_def list_all_iff visible_def)

definition listed_source :: "index_entry \<Rightarrow> string \<times> int \<times> string \<times> int \<times> unit" where
  "listed_source ix =
     (ie_name ix, if ie_unique ix then 1 else 0, ie_origin ix, if ie_partial ix then 1 else 0, ())"

lemma runs_read_source_index:
  assumes "serves E cat d" "wf_catalog cat" "ob \<in> set (cat_objects cat)" "ix \<in> set (oe_indexes ob)"
  shows "runs d [] (read_source_index E (listed_source ix)) (Ok (spec_source_index ix)) []"
proof -
  note ix = object_index [OF assms(3,4)]
  have ddl: "answers E d index_ddl_sql [V_Text (ie_name ix)] (case ie_ddl ix of None \<Rightarrow> [] | Some s \<Rightarrow> [[opt_text s]])"
    and terms: "answers E d index_terms_sql [V_Text (ie_name ix)] (map term_row (ie_terms ix))"
    using served [OF assms(1), of "[V_Text (ie_name ix)]"]
    by (simp_all add: catalog_answers_def on_index_self [OF assms(2) ix] index_named_self [OF assms(2) ix])
  let ?ddl = "case ie_ddl ix of Some s \<Rightarrow> s | None \<Rightarrow> None"
  have read_ddl: "runs d []
      (io_try (db_query_row E index_ddl_sql [V_Text (ie_name ix)] (scan_row 1 (scan_col scan_null_string scan_nil)))
        (\<lambda>e. if errors_is e Err_No_Rows then io_return None
             else io_fail (Wrapf ''dalgo2sqlite: index DDL for %q: %w'' [Str (ie_name ix)] e))
        (\<lambda>(createSQL, _). io_return createSQL)) (Ok ?ddl) []"
  proof (cases "ie_ddl ix")
    case None
    show ?thesis
      by (rule runs_try_fail, rule runs_query_row(2) [OF ddl], simp add: None) (simp add: runs_return None)
  next
    case (Some s)
    show ?thesis
      by (rule runs_try, rule runs_query_row(1) [OF ddl], simp add: Some scan_row_def) (simp add: runs_return Some)
  qed
  have "int64_range (te_seqno t)" if "t \<in> set (ie_terms ix)" for t
    using assms(2-4) that by (auto simp: wf_catalog_def wf_object_def list_all_iff)
  then have scan: "t \<in> set (ie_terms ix) \<Longrightarrow> map_sum id source_term (result_wrap f args (scan_term (term_row t))) =
      Inr \<lparr>st_Position = te_seqno t, st_Name = te_column t, st_Descending = te_desc t,
        st_Collation = (case te_coll t of Some s \<Rightarrow> s | None \<Rightarrow> []), st_Key = te_key t\<rparr>" for t f args
    by (simp add: scan_term_def term_row_def scan_row_def source_term_def)
  show ?thesis
    unfolding read_source_index_def listed_source_def prod.case
    by (rule runs_bind, rule read_ddl, rule runs_bind, rule runs_db_read [OF terms rows_fold_append_map], erule scan)
      (auto simp: spec_source_index_def runs_return split: option.splits)
qed

lemma runs_rejectHidden:
  assumes "serves E cat d" "wf_catalog cat" "ob \<in> set (cat_objects cat)"
  shows "runs d [] (rejectHiddenSourceColumns E op (oe_name ob))
    (case first_hidden ob of None \<Rightarrow> Ok ()
     | Some ce \<Rightarrow> Fail (hidden_column_error op (oe_name ob) (ce_name ce) (ce_hidden ce))) []"
proof (rule runsI)
  fix p :: "'a pool" assume p: "pl_db p = d" "pl_open p = []"
  let ?hidden = "filter (\<lambda>ce. ce_hidden ce \<noteq> 0) (oe_columns ob)"
  let ?rows = "map (\<lambda>ce. [V_Text (ce_name ce), V_Int (ce_hidden ce)]) ?hidden"
  have "answers E (pl_db p) hidden_columns_sql [V_Text (oe_name ob)] ?rows"
    using served [OF assms(1), of "[V_Text (oe_name ob)]"] p
    by (simp add: catalog_answers_def on_object_self [OF assms(2,3)])
  then obtain p' where query: "db_query E hidden_columns_sql [V_Text (oe_name ob)] p =
      (Ok (Some (pl_next p), all_rows ?rows), p')" "pl_db p' = d" "pl_open p' = [pl_next p]"
    using db_query_run [of E p hidden_columns_sql "[V_Text (oe_name ob)]" ?rows] p by auto
  show "\<exists>q. rejectHiddenSourceColumns E op (oe_name ob) p =
      (case first_hidden ob of None \<Rightarrow> Ok ()
       | Some ce \<Rightarrow> Fail (hidden_column_error op (oe_name ob) (ce_name ce) (ce_hidden ce)), q) \<and>
      pl_db q = d \<and> pl_open q = []"
  proof (cases ?hidden)
    case Nil
    then have "first_hidden ob = None"
      by (simp add: first_hidden_def find_filter)
    then show ?thesis
      using query Nil
      by (simp add: rejectHiddenSourceColumns_def io_bind_def io_finally_def rows_err_def rows_close_def conn_close_def)
  next
    case (Cons ce rest)
    then have "first_hidden ob = Some ce"
      by (simp add: first_hidden_def find_filter)
    moreover have "int64_range (ce_hidden ce)"
    proof -
      have "ce \<in> set ?hidden" unfolding Cons by simp
      then show ?thesis using assms(2,3) by (auto simp: wf_catalog_def wf_object_def list_all_iff)
    qed
    ultimately show ?thesis
      using query Cons
      by (simp add: rejectHiddenSourceColumns_def io_bind_def io_finally_def rows_close_def conn_close_def scan_row_def)
  qed
qed

lemma runs_readSourceDefinition:
  assumes "serves E cat d" "wf_catalog cat" "ob \<in> set (cat_objects cat)"
    and "lenient \<or> first_hidden ob = None"
  shows "runs d [] (readSourceDefinition E (oe_name ob) lenient) (Ok (spec_source ob)) []"
proof -
  have reject: "runs d [] (if lenient then io_return () else rejectHiddenSourceColumns E ''DescribeCollection'' (oe_name ob))
      (Ok ()) []"
    using assms(4) runs_rejectHidden [OF assms(1-3), of "''DescribeCollection''"]
    by (cases lenient) (auto simp: runs_return)
  have ddl: "answers E d source_ddl_sql [V_Text (oe_name ob)] (text_rows [oe_sql ob])"
    and columns: "answers E d source_columns_sql [V_Text (oe_name ob)] (map column_row (visible ob))"
    and indexes: "answers E d source_indexes_sql [V_Text (oe_name ob)]
      (map (\<lambda>ix. [V_Text (ie_name ix), flag (ie_unique ix), V_Text (ie_origin ix), flag (ie_partial ix)]) (oe_indexes ob))"
    using served [OF assms(1), of "[V_Text (oe_name ob)]"]
    by (simp_all add: catalog_answers_def on_object_self [OF assms(2,3)] named_self [OF assms(2,3)])
  have scan_col: "ce \<in> set (visible ob) \<Longrightarrow> map_sum id source_column (result_wrap f args (scan_column (column_row ce))) =
      Inr (spec_source_column ce)" for ce f args
    using visible_in_range [OF assms(2,3)]
    by (simp add: scan_column_row source_column_def spec_source_column_def)
  have scan_ix: "result_wrap f args (scan_listed_index
      [V_Text (ie_name ix), flag (ie_unique ix), V_Text (ie_origin ix), flag (ie_partial ix)]) = Inr (listed_source ix)"
    for ix f args
    by (simp add: scan_listed_index_def listed_source_def scan_row_def)
  show ?thesis
    unfolding readSourceDefinition_def
    by (rule runs_bind, rule reject, rule runs_bind, rule runs_wrap, rule runs_query_row(1) [OF ddl], simp,
        rule runs_bind, rule runs_db_read [OF columns rows_fold_append_map], erule scan_col,
        rule runs_bind, rule runs_db_read [OF indexes rows_fold_append_map], rule scan_ix,
        rule runs_bind, simp only: append_Nil, rule runs_map_image,
        erule runs_read_source_index [OF assms(1-3)])
      (simp add: spec_source_def runs_return)
qed

section \<open>Columns\<close>

definition recognized :: "string \<Rightarrow> bool" where
  "recognized declared \<longleftrightarrow> snd (snd (dbschemaTypeFromSQLite declared))"

definition spec_type :: "string set \<Rightarrow> column_entry \<Rightarrow> db_type \<times> precision option" where
  "spec_type marks ce =
     (if ce_name ce \<in> marks then (Type_Time, None)
      else (fst (dbschemaTypeFromSQLite (ce_type ce)), fst (snd (dbschemaTypeFromSQLite (ce_type ce)))))"

definition spec_field :: "string set \<Rightarrow> column_entry \<Rightarrow> field_def" where
  "spec_field marks ce =
     \<lparr>fd_Name = ce_name ce, fd_Type = fst (spec_type marks ce), fd_Precision = snd (spec_type marks ce),
      fd_Nullable = (\<not> ce_notnull ce), fd_AutoIncrement = False\<rparr>"

definition unreadable :: "string set \<Rightarrow> column_entry \<Rightarrow> bool" where
  "unreadable marks ce \<longleftrightarrow> ce_name ce \<notin> marks \<and> \<not> recognized (ce_type ce)"

definition unreadable_error :: "column_entry \<Rightarrow> err" where
  "unreadable_error ce =
     Not_Supported ''DescribeCollection'' ''dalgo2sqlite''
       [Str ''column %q has unrecognized SQLite type %q'', Str (ce_name ce), Str (ce_type ce)]"

definition key_entries :: "column_entry list \<Rightarrow> pk_entry list" where
  "key_entries cs = map (\<lambda>ce. \<lparr>pk_colName = ce_name ce, pk_pkOrder = ce_pk ce\<rparr>) (filter (\<lambda>ce. ce_pk ce > 0) cs)"

text \<open>An Int column that is first in the key is the one that may be AUTOINCREMENT.\<close>

definition int_key :: "string set \<Rightarrow> column_entry \<Rightarrow> bool" where
  "int_key marks ce \<longleftrightarrow> fst (spec_type marks ce) = Type_Int \<and> ce_pk ce = 1"

fun last_index :: "('a \<Rightarrow> bool) \<Rightarrow> nat \<Rightarrow> 'a list \<Rightarrow> nat option \<Rightarrow> nat option" where
  "last_index P i [] r = r"
| "last_index P i (x # xs) r = last_index P (Suc i) xs (if P x then Some i else r)"

lemma last_index_None: "last_index P i xs r = None \<longleftrightarrow> r = None \<and> (\<forall>x \<in> set xs. \<not> P x)"
  by (induction xs arbitrary: i r) auto

lemma last_index_Some:
  "last_index P i xs r = Some j \<Longrightarrow> r = Some j \<or> (i \<le> j \<and> j < i + length xs \<and> P (xs ! (j - i)))"
proof (induction xs arbitrary: i r)
  case (Cons x xs)
  then have "last_index P (Suc i) xs (if P x then Some i else r) = Some j" by simp
  from Cons.IH [OF this] show ?case
    by (auto simp: nth_Cons' split: if_splits)
qed simp

lemma column_type_ok:
  "lenient \<or> \<not> unreadable marks ce \<Longrightarrow> column_type marks lenient (ce_name ce) (ce_type ce) = Inr (spec_type marks ce)"
  by (auto simp: column_type_def spec_type_def unreadable_def recognized_def split: prod.splits)

lemma column_type_refused:
  "unreadable marks ce \<Longrightarrow> column_type marks False (ce_name ce) (ce_type ce) = Inl (unreadable_error ce)"
  by (auto simp: column_type_def unreadable_def recognized_def unreadable_error_def split: prod.splits)

lemma describe_step_ok:
  assumes "lenient \<or> \<not> unreadable marks ce" "int64_range (ce_pk ce)"
  shows "describe_step marks lenient (fs, pks, auto) (column_row ce) =
    Inr (fs @ [spec_field marks ce], pks @ key_entries [ce], if int_key marks ce then Some (length fs) else auto)"
  using assms(2)
  by (cases "spec_type marks ce")
    (auto simp: describe_step_def scan_column_row column_type_ok [OF assms(1)] spec_field_def key_entries_def int_key_def)

lemma describe_fold:
  assumes "list_all (\<lambda>ce. (lenient \<or> \<not> unreadable marks ce) \<and> int64_range (ce_pk ce)) cs"
  shows "rows_fold (describe_step marks lenient) (fs, pks, auto) (map column_row cs) =
    Inr (fs @ map (spec_field marks) cs, pks @ key_entries cs, last_index (int_key marks) (length fs) cs auto)"
  using assms
proof (induction cs arbitrary: fs pks auto)
  case (Cons ce cs)
  then show ?case
    by (simp add: describe_step_ok) (simp add: key_entries_def)
qed (simp add: key_entries_def)

lemma describe_fold_refused:
  assumes "find (unreadable marks) cs = Some ce" "list_all (\<lambda>ce. int64_range (ce_pk ce)) cs"
  shows "rows_fold (describe_step marks False) (fs, pks, auto) (map column_row cs) = Inl (unreadable_error ce)"
  using assms
proof (induction cs arbitrary: fs pks auto)
  case (Cons c cs)
  show ?case
  proof (cases "unreadable marks c")
    case True
    then show ?thesis
      using Cons.prems by (simp add: describe_step_def scan_column_row column_type_refused)
  next
    case False
    then show ?thesis
      using Cons.prems Cons.IH by (simp add: describe_step_ok)
  qed
qed simp

text \<open>The key columns in key order.\<close>

lemma sort_key_map: "sort_key f (map g xs) = map g (sort_key (\<lambda>x. f (g x)) xs)"
proof -
  have insort: "insort_key f (g x) (map g ys) = map g (insort_key (\<lambda>x. f (g x)) x ys)" for x ys
    by (induction ys) auto
  show ?thesis by (induction xs) (auto simp: insort)
qed

lemma sorted_key_entries: "map pk_colName (sortPKByOrder (key_entries (visible ob))) = map ce_name (key_columns ob)"
  by (simp add: sortPKByOrder_sort_key key_entries_def sort_key_map key_columns_def comp_def)

text \<open>At most one column is first in the key.\<close>

lemma distinct_filter_nth:
  "distinct (map f (filter P xs)) \<Longrightarrow> i < length xs \<Longrightarrow> j < length xs \<Longrightarrow> P (xs ! i) \<Longrightarrow> P (xs ! j) \<Longrightarrow>
   f (xs ! i) = f (xs ! j) \<Longrightarrow> i = j"
proof (induction xs arbitrary: i j)
  case (Cons x xs)
  have not_in: False if "P x" "k < length xs" "P (xs ! k)" "f (xs ! k) = f x" for k
  proof -
    have "xs ! k \<in> set (filter P xs)" using that by simp
    then show False using Cons.prems(1) that by (metis distinct.simps(2) filter.simps(2) image_eqI list.set_map list.simps(9))
  qed
  have dist: "distinct (map f (filter P xs))" using Cons.prems(1) by (auto split: if_splits)
  show ?case
  proof (cases i)
    case 0
    then show ?thesis using Cons.prems not_in [of "j - 1"] by (cases j) auto
  next
    case (Suc i')
    note i = this
    show ?thesis
    proof (cases j)
      case 0
      then show ?thesis using Cons.prems not_in [of i'] i by auto
    next
      case (Suc j')
      then show ?thesis using Cons.prems Cons.IH [OF dist, of i' j'] i by simp
    qed
  qed
qed simp

definition auto_text :: "object_entry \<Rightarrow> bool" where
  "auto_text ob \<longleftrightarrow> oe_kind ob = Table \<and> go_contains (go_to_upper (oe_sql ob)) ''AUTOINCREMENT''"

definition auto_field :: "string set \<Rightarrow> object_entry \<Rightarrow> column_entry \<Rightarrow> field_def" where
  "auto_field marks ob ce = (spec_field marks ce)\<lparr>fd_AutoIncrement := auto_text ob \<and> int_key marks ce\<rparr>"

lemma mark_auto_increment:
  assumes "distinct (map ce_pk (filter (\<lambda>ce. ce_pk ce > 0) (visible ob)))"
  shows "(case last_index (int_key marks) 0 (visible ob) None of
      None \<Rightarrow> map (spec_field marks) (visible ob)
    | Some i \<Rightarrow> (map (spec_field marks) (visible ob))
        [i := (map (spec_field marks) (visible ob) ! i)\<lparr>fd_AutoIncrement := auto_text ob\<rparr>]) =
    map (auto_field marks ob) (visible ob)"
proof (cases "last_index (int_key marks) 0 (visible ob) None")
  case None
  then have "\<forall>ce \<in> set (visible ob). \<not> int_key marks ce"
    by (simp add: last_index_None)
  then show ?thesis using None by (auto simp: auto_field_def spec_field_def)
next
  case (Some i)
  then have i: "i < length (visible ob)" "int_key marks (visible ob ! i)"
    using last_index_Some [OF Some] by auto
  have only: "j = i" if "j < length (visible ob)" "int_key marks (visible ob ! j)" for j
    by (rule distinct_filter_nth [OF assms that(1) i(1)]) (use i(2) that(2) in \<open>auto simp: int_key_def\<close>)
  have "(map (spec_field marks) (visible ob))
      [i := (map (spec_field marks) (visible ob) ! i)\<lparr>fd_AutoIncrement := auto_text ob\<rparr>] =
      map (auto_field marks ob) (visible ob)"
  proof (rule nth_equalityI)
    fix j assume "j < length ((map (spec_field marks) (visible ob))
        [i := (map (spec_field marks) (visible ob) ! i)\<lparr>fd_AutoIncrement := auto_text ob\<rparr>])"
    then have j: "j < length (visible ob)" by simp
    show "(map (spec_field marks) (visible ob))
        [i := (map (spec_field marks) (visible ob) ! i)\<lparr>fd_AutoIncrement := auto_text ob\<rparr>] ! j =
        map (auto_field marks ob) (visible ob) ! j"
    proof (cases "j = i")
      case True
      then show ?thesis using i by (simp add: auto_field_def)
    next
      case False
      with only [OF j] have "\<not> int_key marks (visible ob ! j)" by blast
      with False show ?thesis using j by (simp add: auto_field_def spec_field_def)
    qed
  qed simp
  then show ?thesis using Some by simp
qed

lemma runs_describe_columns:
  assumes "serves E cat d" "wf_catalog cat" "ob \<in> set (cat_objects cat)"
    and "lenient \<or> find (unreadable marks) (visible ob) = None"
  shows "runs d [] (describe_columns E (oe_name ob) lenient marks)
    (Ok (map (auto_field marks ob) (visible ob), map ce_name (key_columns ob))) []"
proof -
  have info: "answers E d table_info_sql [V_Text (oe_name ob)] (map column_row (visible ob))"
    and ddl: "answers E d table_ddl_sql [V_Text (oe_name ob)]
      (text_rows (map oe_sql (filter (\<lambda>ob. oe_kind ob = Table) [ob])))"
    using served [OF assms(1), of "[V_Text (oe_name ob)]"]
    by (simp_all add: catalog_answers_def on_object_self [OF assms(2,3)] named_self [OF assms(2,3)])
  have "list_all (\<lambda>ce. (lenient \<or> \<not> unreadable marks ce) \<and> int64_range (ce_pk ce)) (visible ob)"
    using assms(4) visible_in_range [OF assms(2,3)] by (auto simp: list_all_iff find_None_iff)
  note read = runs_db_read [OF info describe_fold [OF this, of "[]" "[]" None]]
  have has: "runs d [] (io_try (tableHasAutoIncrement E (oe_name ob)) (\<lambda>_. io_return False) io_return)
      (Ok (auto_text ob)) []"
  proof (cases "oe_kind ob = Table")
    case True
    show ?thesis
      unfolding tableHasAutoIncrement_def
      by (rule runs_try, rule runs_bind, rule runs_wrap, rule runs_query_row(1) [OF ddl], simp add: True,
          rule runs_return) (simp add: auto_text_def True runs_return)
  next
    case False
    show ?thesis
      unfolding tableHasAutoIncrement_def
      by (rule runs_try_fail, rule runs_bind_fail, rule runs_wrap_fail, rule runs_query_row(2) [OF ddl], simp add: False)
        (simp add: auto_text_def False runs_return)
  qed
  let ?auto = "last_index (int_key marks) 0 (visible ob) None"
  let ?fs = "map (spec_field marks) (visible ob)"
  have set_auto: "runs d [] (case ?auto of None \<Rightarrow> io_return ?fs
      | Some i \<Rightarrow> io_bind (io_try (tableHasAutoIncrement E (oe_name ob)) (\<lambda>_. io_return False) io_return)
          (\<lambda>has. io_return (?fs[i := (?fs ! i)\<lparr>fd_AutoIncrement := has\<rparr>])))
      (Ok (map (auto_field marks ob) (visible ob))) []"
  proof -
    have dist: "distinct (map ce_pk (filter (\<lambda>ce. ce_pk ce > 0) (visible ob)))"
      using assms(2,3) by (auto simp: wf_catalog_def wf_object_def list_all_iff)
    show ?thesis
      unfolding mark_auto_increment [OF dist, of marks, symmetric]
      by (cases ?auto) (auto intro: runs_return runs_bind [OF has])
  qed
  show ?thesis
    unfolding describe_columns_def
    by (rule runs_bind, rule read) (simp add: sorted_key_entries, rule runs_bind, rule set_auto, rule runs_return)
qed

end
