(* ===== verification/Schema_Refinement.thy ===== *)
theory Schema_Refinement
  imports Describe_Spec
begin

text \<open>
  The refinement theorems of the schema reader: on a database that serves a catalog, each operation
  returns what its specification says of the catalog, leaves the database as it is, and works with one
  connection.
\<close>

section \<open>DescribeCollection\<close>

text \<open>
  A sole key column declared INTEGER is an alias of the rowid and never NULL, unless the table has an
  index for its key or no rowid.
\<close>

definition alias_column :: "object_entry \<Rightarrow> column_entry \<Rightarrow> bool" where
  "alias_column ob ce \<longleftrightarrow>
     length (key_columns ob) = 1 \<and> ce_pk ce = 1 \<and>
     go_equal_fold_ascii (go_trim_space (ce_type ce)) ''INTEGER'' \<and>
     (\<forall>ix \<in> set (oe_indexes ob). ie_origin ix \<noteq> ''pk'') \<and>
     \<not> go_contains (go_to_upper (oe_sql ob)) ''WITHOUT ROWID''"

definition describe_field :: "string set \<Rightarrow> object_entry \<Rightarrow> column_entry \<Rightarrow> field_def" where
  "describe_field marks ob ce =
     \<lparr>fd_Name = ce_name ce, fd_Type = fst (spec_type marks ce), fd_Precision = snd (spec_type marks ce),
      fd_Nullable = (\<not> ce_notnull ce \<and> \<not> alias_column ob ce),
      fd_AutoIncrement = (auto_text ob \<and> int_key marks ce)\<rparr>"

definition describe_object :: "catalog \<Rightarrow> bool \<Rightarrow> object_entry \<Rightarrow> collection_def" where
  "describe_object cat lenient ob =
     (let fs = map (describe_field (spec_markers cat (oe_name ob)) ob) (visible ob)
      in \<lparr>cd_Name = oe_name ob, cd_Fields = fs, cd_PrimaryKey = map ce_name (key_columns ob),
          cd_Indexes = (if lenient then indexesOnFields (spec_indexes ob) fs else spec_indexes ob),
          cd_ForeignKeys = map (spec_key cat (oe_name ob)) (oe_keys ob),
          cd_SourceDefinition = Some (spec_source ob)\<rparr>)"

text \<open>
  The strict reader refuses first a column without a portable type, then a hidden or generated one; the
  lenient reader describes views too and refuses nothing.
\<close>

definition described :: "catalog \<Rightarrow> bool \<Rightarrow> string \<Rightarrow> object_entry option" where
  "described cat lenient name = find (\<lambda>ob. oe_name ob = name \<and> (lenient \<or> oe_kind ob = Table)) (cat_objects cat)"

definition describe_spec :: "catalog \<Rightarrow> bool \<Rightarrow> string \<Rightarrow> err + collection_def" where
  "describe_spec cat lenient name =
     (case described cat lenient name of
        None \<Rightarrow> Inl (newCollectionNotFoundError name)
      | Some ob \<Rightarrow>
          if lenient then Inr (describe_object cat True ob)
          else case find (unreadable (spec_markers cat name)) (visible ob) of
              Some ce \<Rightarrow> Inl (unreadable_error ce)
            | None \<Rightarrow>
                (case first_hidden ob of
                   Some ce \<Rightarrow> Inl (hidden_column_error ''DescribeCollection'' name (ce_name ce) (ce_hidden ce))
                 | None \<Rightarrow> Inr (describe_object cat False ob)))"

fun outcome_of :: "err + 'a \<Rightarrow> 'a outcome" where
  "outcome_of (Inl e) = Fail e"
| "outcome_of (Inr x) = Ok x"

lemma match_columns_run:
  "match_columns name alias (length pre) (map src cs) (pre @ map g cs) =
     Inr (pre @ map (\<lambda>ce. if alias (src ce) then (g ce)\<lparr>fd_Nullable := False\<rparr> else g ce) cs)"
  if "\<And>ce. sc_Name (src ce) = fd_Name (g ce)"
proof (induction cs arbitrary: pre)
  case (Cons ce cs)
  let ?f = "if alias (src ce) then (g ce)\<lparr>fd_Nullable := False\<rparr> else g ce"
  have "match_columns name alias (length pre) (map src (ce # cs)) (pre @ map g (ce # cs)) =
      match_columns name alias (length (pre @ [?f])) (map src cs) ((pre @ [?f]) @ map g cs)"
    using that [of ce] by (simp add: nth_append list_update_append)
  then show ?case
    unfolding Cons.IH by simp
qed simp

lemma rowid_alias_column:
  "rowid_alias (map ce_name (key_columns ob)) (spec_source ob) (spec_source_column ce) \<longleftrightarrow> alias_column ob ce"
  by (auto simp: rowid_alias_def alias_column_def spec_source_def spec_source_column_def spec_source_index_def list_ex_iff)

lemma match_source_columns:
  "match_columns name (rowid_alias (map ce_name (key_columns ob)) (spec_source ob)) 0
      (sd_Columns (spec_source ob)) (map (auto_field marks ob) (visible ob)) =
     Inr (map (describe_field marks ob) (visible ob))"
proof -
  have "sc_Name (spec_source_column ce) = fd_Name (auto_field marks ob ce)" for ce
    by (simp add: spec_source_column_def auto_field_def spec_field_def)
  note run = match_columns_run [of spec_source_column "auto_field marks ob" name
      "rowid_alias (map ce_name (key_columns ob)) (spec_source ob)" "[]" "visible ob", OF this]
  have "(if alias_column ob ce then (auto_field marks ob ce)\<lparr>fd_Nullable := False\<rparr> else auto_field marks ob ce) =
      describe_field marks ob ce" for ce
    by (simp add: auto_field_def spec_field_def describe_field_def)
  with run show ?thesis
    by (simp add: rowid_alias_column) (simp add: spec_source_def)
qed

lemma indexesOnFields_names:
  "map fd_Name fs = map fd_Name fs' \<Longrightarrow> indexesOnFields ixs fs = indexesOnFields ixs fs'"
  by (simp add: indexesOnFields_def)

lemma described_Some:
  assumes "described cat lenient name = Some ob"
  shows "ob \<in> set (cat_objects cat)" "oe_name ob = name" "lenient \<or> oe_kind ob = Table"
  using assms by (auto simp: described_def find_Some_iff)

lemma runs_probe:
  assumes "serves E cat d" "wf_catalog cat"
  shows "described cat lenient name = None \<Longrightarrow>
      runs d [] (db_query_row E (describe_probe_sql lenient) [V_Text name] scan_name) (Fail Err_No_Rows) []"
    and "described cat lenient name = Some ob \<Longrightarrow>
      runs d [] (db_query_row E (describe_probe_sql lenient) [V_Text name] scan_name) (Ok name) []"
proof -
  have probe: "answers E d (describe_probe_sql lenient) [V_Text name]
      (text_rows (map oe_name (filter (\<lambda>ob. lenient \<or> oe_kind ob = Table) (named cat name))))"
    using served [OF assms(1), of "[V_Text name]"] by (cases lenient) (simp_all add: catalog_answers_def)
  show "runs d [] (db_query_row E (describe_probe_sql lenient) [V_Text name] scan_name) (Fail Err_No_Rows) []"
    if "described cat lenient name = None"
  proof -
    have "filter (\<lambda>ob. lenient \<or> oe_kind ob = Table) (named cat name) = []"
      using that by (auto simp: described_def find_None_iff named_def filter_empty_conv)
    then show ?thesis by (intro runs_query_row(2) [OF probe]) simp
  qed
  show "runs d [] (db_query_row E (describe_probe_sql lenient) [V_Text name] scan_name) (Ok name) []"
    if some: "described cat lenient name = Some ob"
  proof -
    have "filter (\<lambda>ob. lenient \<or> oe_kind ob = Table) (named cat name) = [ob]"
      using described_Some [OF some] named_self [OF assms(2), of ob] by auto
    then show ?thesis using described_Some [OF some] by (intro runs_query_row(1) [OF probe]) simp
  qed
qed

lemma runs_describe_columns_refused:
  assumes "serves E cat d" "wf_catalog cat" "ob \<in> set (cat_objects cat)"
    and "find (unreadable marks) (visible ob) = Some ce"
  shows "runs d [] (describe_columns E (oe_name ob) False marks) (Fail (unreadable_error ce)) []"
proof -
  have info: "answers E d table_info_sql [V_Text (oe_name ob)] (map column_row (visible ob))"
    using served [OF assms(1), of "[V_Text (oe_name ob)]"]
    by (simp add: catalog_answers_def on_object_self [OF assms(2,3)])
  have "list_all (\<lambda>ce. int64_range (ce_pk ce)) (visible ob)"
    using visible_in_range [OF assms(2,3)] by (simp add: list_all_iff)
  from runs_db_read_fail [OF info describe_fold_refused [OF assms(4) this]] show ?thesis
    unfolding describe_columns_def by (rule runs_bind_fail)
qed

text \<open>The reads of an object that is described, in the order describeCollection makes them: its columns, and
  then its indexes and foreign keys.\<close>

lemma runs_described_columns:
  assumes "serves E cat d" "wf_catalog cat" "described cat lenient name = Some ob"
    and "lenient \<or> find (unreadable (spec_markers cat name)) (visible ob) = None"
  shows "runs d [] (describe_columns E name lenient (spec_markers cat name))
      (Ok (map (auto_field (spec_markers cat name) ob) (visible ob), map ce_name (key_columns ob))) []"
  using runs_describe_columns [OF assms(1,2) described_Some(1) [OF assms(3)] assms(4)] described_Some(2) [OF assms(3)] by simp

lemma runs_described_parts:
  assumes "serves E cat d" "wf_catalog cat" "described cat lenient name = Some ob"
  shows "runs d [] (listIndexesImpl E name) (Ok (spec_indexes ob)) []"
    "runs d [] (readForeignKeys E name) (Ok (map (spec_key cat name) (oe_keys ob))) []"
  using runs_listIndexesImpl [OF assms(1,2) described_Some(1) [OF assms(3)]] described_Some(2) [OF assms(3)]
    runs_readForeignKeys [OF assms(1,2) described_Some(1) [OF assms(3)]] by simp_all

lemma runs_described:
  assumes "serves E cat d" "wf_catalog cat" "described cat lenient name = Some ob"
    and "lenient \<or> find (unreadable (spec_markers cat name)) (visible ob) = None" "lenient \<or> first_hidden ob = None"
  shows "runs d [] (describeCollection E name lenient) (Ok (describe_object cat lenient ob)) []"
proof -
  let ?marks = "spec_markers cat name"
  note ob = described_Some [OF assms(3)]
  have source: "runs d [] (readSourceDefinition E name lenient) (Ok (spec_source ob)) []"
    using runs_readSourceDefinition [OF assms(1,2) ob(1) assms(5)] ob(2) by simp
  have same: "indexesOnFields (spec_indexes ob) (map (auto_field ?marks ob) (visible ob)) =
      indexesOnFields (spec_indexes ob) (map (describe_field ?marks ob) (visible ob))"
    by (rule indexesOnFields_names) (simp add: auto_field_def spec_field_def describe_field_def)
  show ?thesis
    unfolding describeCollection_def
    by (rule runs_try, rule runs_probe(2) [OF assms(1-3)], rule runs_bind, rule runs_readTimeMarkers [OF assms(1)],
        rule runs_bind, rule runs_described_columns [OF assms(1-4)], simp only: prod.case,
        rule runs_bind, rule runs_described_parts(1) [OF assms(1-3)],
        rule runs_bind, rule runs_described_parts(2) [OF assms(1-3)], rule runs_bind, rule source, rule runs_bind,
        simp only: match_source_columns, rule runs_lift(1))
      (simp add: runs_return describe_object_def Let_def same ob(2))
qed

text \<open>The strict reader refuses a type it cannot map before it reads the rest, and a hidden column after.\<close>

lemma runs_describe_unreadable:
  assumes "serves E cat d" "wf_catalog cat" "described cat False name = Some ob"
    and "find (unreadable (spec_markers cat name)) (visible ob) = Some ce"
  shows "runs d [] (describeCollection E name False) (Fail (unreadable_error ce)) []"
proof -
  note ob = described_Some [OF assms(3)]
  have "runs d [] (describe_columns E name False (spec_markers cat name)) (Fail (unreadable_error ce)) []"
    using runs_describe_columns_refused [OF assms(1,2) ob(1) assms(4)] ob(2) by simp
  then show ?thesis
    unfolding describeCollection_def
    by (intro runs_try [OF runs_probe(2) [OF assms(1-3)]] runs_bind [OF runs_readTimeMarkers [OF assms(1)]] runs_bind_fail)
qed

lemma runs_describe_hidden:
  assumes "serves E cat d" "wf_catalog cat" "described cat False name = Some ob"
    and "find (unreadable (spec_markers cat name)) (visible ob) = None" "first_hidden ob = Some ce"
  shows "runs d [] (describeCollection E name False)
    (Fail (hidden_column_error ''DescribeCollection'' name (ce_name ce) (ce_hidden ce))) []"
proof -
  note ob = described_Some [OF assms(3)]
  have "runs d [] (rejectHiddenSourceColumns E ''DescribeCollection'' name)
      (Fail (hidden_column_error ''DescribeCollection'' name (ce_name ce) (ce_hidden ce))) []"
    using runs_rejectHidden [OF assms(1,2) ob(1), of "''DescribeCollection''"] assms(5) ob(2) by simp
  then have source: "runs d [] (readSourceDefinition E name False)
      (Fail (hidden_column_error ''DescribeCollection'' name (ce_name ce) (ce_hidden ce))) []"
    unfolding readSourceDefinition_def by (simp add: runs_bind_fail)
  show ?thesis
    unfolding describeCollection_def
    by (rule runs_try, rule runs_probe(2) [OF assms(1-3)], rule runs_bind, rule runs_readTimeMarkers [OF assms(1)],
        rule runs_bind, rule runs_described_columns [OF assms(1-3)], simp add: assms(4), simp only: prod.case,
        rule runs_bind, rule runs_described_parts(1) [OF assms(1-3)],
        rule runs_bind, rule runs_described_parts(2) [OF assms(1-3)], rule runs_bind_fail, rule source)
qed

lemma runs_describeCollection:
  assumes "serves E cat d" "wf_catalog cat"
  shows "runs d [] (describeCollection E name lenient) (outcome_of (describe_spec cat lenient name)) []"
proof (cases "described cat lenient name")
  case None
  show ?thesis
    unfolding describeCollection_def
    by (rule runs_try_fail, rule runs_probe(1) [OF assms None]) (simp add: describe_spec_def None runs_fail)
next
  case (Some ob)
  consider (full) "lenient \<or> find (unreadable (spec_markers cat name)) (visible ob) = None" "lenient \<or> first_hidden ob = None"
    | (type) ce where "\<not> lenient" "find (unreadable (spec_markers cat name)) (visible ob) = Some ce"
    | (hidden) ce where "\<not> lenient" "find (unreadable (spec_markers cat name)) (visible ob) = None" "first_hidden ob = Some ce"
    by fastforce
  then show ?thesis
  proof cases
    case full
    with runs_described [OF assms Some this] Some show ?thesis by (auto simp: describe_spec_def)
  next
    case type
    with runs_describe_unreadable [OF assms, of name ob] Some show ?thesis by (simp add: describe_spec_def)
  next
    case hidden
    with runs_describe_hidden [OF assms, of name ob] Some show ?thesis by (simp add: describe_spec_def)
  qed
qed

lemma runs_run:
  "runs (pl_db p) [] m r [] \<Longrightarrow> pl_open p = [] \<Longrightarrow> \<exists>q. m p = (r, q) \<and> pl_db q = pl_db p \<and> pl_open q = []"
  by (simp add: runs_def)

text \<open>C2: DescribeCollection refines its specification: on a database that serves a catalog it returns
  exactly \<open>describe_spec\<close>, the fields in column order with their types, markers, nullability and
  AUTOINCREMENT, the key in key order, the indexes, foreign keys and source definition, or the refusal
  of the strict reader, or "not found"; and it leaves the database and the pool as they were.\<close>

theorem DescribeCollection_refines:
  assumes "serves E cat (pl_db p)" "wf_catalog cat" "pl_open p = []"
  shows "\<exists>q. DescribeCollection E lenient name p = (outcome_of (describe_spec cat lenient name), q) \<and>
    pl_db q = pl_db p \<and> pl_open q = []"
  unfolding DescribeCollection_def
  by (rule runs_run [OF runs_describeCollection [OF assms(1,2)] assms(3)])

section \<open>Listings\<close>

definition unnamed_error :: "string \<Rightarrow> string \<Rightarrow> err" where
  "unnamed_error op kind =
     Not_Supported op ''dalgo2sqlite'' [Str (''a '' @ kind @ '' with an empty name, unsupported for lossless export'')]"

definition list_spec :: "bool \<Rightarrow> string \<Rightarrow> string \<Rightarrow> string list \<Rightarrow> err + string list" where
  "list_spec lenient op kind names =
     (if [] \<in> set names \<and> \<not> lenient then Inl (unnamed_error op kind) else Inr (filter (\<lambda>n. n \<noteq> []) names))"

lemma ref_fold:
  "rows_fold (ref_step lenient op kind) out (text_rows names) = map_sum id ((@) out) (list_spec lenient op kind names)"
proof (induction names arbitrary: out)
  case (Cons n names)
  then show ?case
    by (auto simp: text_rows_def ref_step_def list_spec_def unnamed_error_def)
qed (simp add: text_rows_def list_spec_def)

lemma db_read_as_query: "io_bind (io_wrap f args (db_query E q qargs)) (\<lambda>rows. collectionRefs lenient rows op kind) =
    db_read E q qargs (Some (f, args)) None (ref_step lenient op kind) []"
  by (simp add: db_read_def io_context_def collectionRefs_def)

lemma runs_refs:
  assumes "answers E d q qargs (text_rows names)"
  shows "runs d [] (io_bind (io_wrap f args (db_query E q qargs)) (\<lambda>rows. collectionRefs lenient rows op kind))
    (outcome_of (list_spec lenient op kind names)) []"
  using ref_fold [of lenient op kind "[]" names]
  by (cases "list_spec lenient op kind names")
    (auto simp: db_read_as_query intro: runs_db_read [OF assms] runs_db_read_fail [OF assms])

lemma runs_ListCollections:
  assumes "serves E cat d"
  shows "runs d [] (ListCollections E lenient)
    (outcome_of (list_spec lenient ''ListCollections'' ''table'' (own_tables cat))) []"
  unfolding ListCollections_def
  by (rule runs_refs) (use served [OF assms, of "[V_Text timeMarkerTable]"] in \<open>simp add: catalog_answers_def\<close>)


section \<open>Indexes, constraints and referrers\<close>

definition constraint_spec :: "object_entry \<Rightarrow> constraint_def list" where
  "constraint_spec ob =
     (if key_columns ob \<noteq> [] then [\<lparr>ct_Name = oe_name ob @ ''_pk'', ct_Type = ''primary-key''\<rparr>] else []) @
     map (\<lambda>k. \<lparr>ct_Name = oe_name ob @ ''_fk_'' @ show_int (ke_id k), ct_Type = ''foreign-key''\<rparr>) (oe_keys ob) @
     map (\<lambda>ix. \<lparr>ct_Name = ie_name ix, ct_Type = ''unique''\<rparr>) (filter (\<lambda>ix. ie_origin ix = ''u'') (oe_indexes ob))"

lemma runs_close_first:
  assumes "answers E d q qargs rows"
    and "\<And>c. runs d [] (rest (Some c, all_rows rows)) r []"
  shows "runs d [] (io_bind (io_wrap f args (db_query E q qargs)) (\<lambda>h. io_bind (io_do (rows_close h)) (\<lambda>_. rest h))) r []"
proof (rule runsI)
  fix p :: "'a pool" assume p: "pl_db p = d" "pl_open p = []"
  then obtain p' where query: "db_query E q qargs p = (Ok (Some (pl_next p), all_rows rows), p')"
      "pl_db p' = d" "pl_open p' = [pl_next p]"
    using db_query_run [of E p q qargs rows] assms(1) by auto
  then show "\<exists>q'. io_bind (io_wrap f args (db_query E q qargs))
      (\<lambda>h. io_bind (io_do (rows_close h)) (\<lambda>_. rest h)) p = (r, q') \<and> pl_db q' = d \<and> pl_open q' = []"
    using runsD [OF assms(2), of "rows_close (Some (pl_next p), all_rows rows) p'" "pl_next p"]
    by (simp add: io_bind_def rows_close_def conn_close_def)
qed

lemma runs_ListConstraints:
  assumes "serves E cat d" "wf_catalog cat" "ob \<in> set (cat_objects cat)"
  shows "runs d [] (ListConstraints E (oe_name ob)) (Ok (constraint_spec ob)) []"
proof -
  let ?pk = "filter (\<lambda>ce. ce_pk ce > 0) (visible ob)"
  let ?fk = "\<lambda>k. \<lparr>ct_Name = oe_name ob @ ''_fk_'' @ show_int (ke_id k), ct_Type = ''foreign-key''\<rparr>"
  let ?u = "\<lambda>n. \<lparr>ct_Name = n, ct_Type = ''unique''\<rparr>"
  let ?us = "map ie_name (filter (\<lambda>ix. ie_origin ix = ''u'') (oe_indexes ob))"
  have pk: "answers E d pk_probe_sql [V_Text (oe_name ob)] (text_rows (take 1 (map ce_name ?pk)))"
    and fk: "answers E d fk_ids_sql [V_Text (oe_name ob)] (map (\<lambda>k. [V_Int (ke_id k)]) (oe_keys ob))"
    and u: "answers E d unique_sql [V_Text (oe_name ob)] (map (\<lambda>n. [V_Text n]) ?us)"
    using served [OF assms(1), of "[V_Text (oe_name ob)]"]
    by (simp_all add: catalog_answers_def on_object_self [OF assms(2,3)] flip: text_rows_def)
  have has_pk: "text_rows (take 1 (map ce_name ?pk)) \<noteq> [] \<longleftrightarrow> key_columns ob \<noteq> []"
  proof -
    have "set (key_columns ob) = set ?pk" by (simp add: key_columns_def)
    then have "key_columns ob = [] \<longleftrightarrow> ?pk = []" by (metis set_empty)
    then show ?thesis by (simp add: text_rows_def)
  qed
  have in_range: "k \<in> set (oe_keys ob) \<Longrightarrow> int64_range (ke_id k)" for k
    using assms(2,3) by (auto simp: wf_catalog_def wf_object_def list_all_iff key_ok_def)
  show ?thesis
    unfolding ListConstraints_def Let_def
    by (rule runs_close_first [OF pk], rule runs_bind,
        rule runs_db_read [OF fk rows_fold_append_map [where g = ?fk]], simp add: scan_row_def in_range,
        rule runs_bind, simp only: uniqueConstraints_def, rule runs_db_read [OF u rows_fold_append_map [where g = ?u]],
        simp)
      (use has_pk in \<open>simp add: constraint_spec_def runs_return comp_def\<close>)
qed

text \<open>C31: ListConstraints names the primary key when the table has one, every foreign key once in order
  of its id, and every UNIQUE constraint by the name of its index, in this order.\<close>

theorem ListConstraints_refines:
  assumes "serves E cat (pl_db p)" "wf_catalog cat" "ob \<in> set (cat_objects cat)" "pl_open p = []"
  shows "\<exists>q. ListConstraints E (oe_name ob) p = (Ok (constraint_spec ob), q) \<and> pl_db q = pl_db p \<and> pl_open q = []"
  by (rule runs_run [OF runs_ListConstraints [OF assms(1-3)] assms(4)])

definition referring_fields :: "string \<Rightarrow> object_entry \<Rightarrow> string list" where
  "referring_fields ref ob =
     concat (map (\<lambda>k. map (\<lambda>(_, c, _). c) (ke_columns k))
       (filter (\<lambda>k. foldASCII (ke_target k) = foldASCII ref) (oe_keys ob)))"

definition referrer_spec :: "catalog \<Rightarrow> string \<Rightarrow> referrer list" where
  "referrer_spec cat ref =
     map (\<lambda>ob. \<lparr>rf_Collection = oe_name ob, rf_Fields = referring_fields ref ob\<rparr>)
       (filter (\<lambda>ob. oe_kind ob = Table \<and> \<not> sqlite_reserved (oe_name ob) \<and> oe_name ob \<noteq> timeMarkerTable \<and>
          oe_name ob \<noteq> [] \<and> oe_name ob \<noteq> ref \<and> referring_fields ref ob \<noteq> []) (cat_objects cat))"

lemma runs_referrerFields:
  assumes "serves E cat d" "wf_catalog cat" "ob \<in> set (cat_objects cat)"
  shows "runs d [] (referrerFields E (oe_name ob) ref) (Ok (referring_fields ref ob)) []"
proof -
  have "answers E d referrer_sql [V_Text (oe_name ob), V_Text ref] (text_rows (referring_fields ref ob))"
    using served [OF assms(1), of "[V_Text (oe_name ob), V_Text ref]"]
    by (simp add: catalog_answers_def on_object_self [OF assms(2,3)] referring_fields_def text_rows_def map_concat
        comp_def)
  then have "answers E d referrer_sql [V_Text (oe_name ob), V_Text ref] (map (\<lambda>n. [V_Text n]) (referring_fields ref ob))"
    by (simp add: text_rows_def)
  from runs_db_read [OF this rows_fold_append_map [where g = id and acc = "[]"]] show ?thesis
    unfolding referrerFields_def by simp
qed


end
