(* ===== verification/Schema_Examples.thy ===== *)
theory Schema_Examples
  imports Schema_Refinement
begin

text \<open>
  A concrete catalog and the refinement theorems of the schema reader applied to it: a table with an
  AUTOINCREMENT key and a marked Time column, a table that refers to it in another letter case and has
  an index on an expression, a view, and a table with a generated column.
\<close>

definition plain_column :: "string \<Rightarrow> string \<Rightarrow> bool \<Rightarrow> int \<Rightarrow> column_entry" where
  "plain_column n t nn pk =
     \<lparr>ce_name = n, ce_type = t, ce_notnull = nn, ce_default = None, ce_pk = pk, ce_hidden = 0\<rparr>"

definition index_on :: "string \<Rightarrow> string option \<Rightarrow> string \<Rightarrow> index_entry" where
  "index_on n col origin =
     \<lparr>ie_name = n, ie_unique = (origin = ''u''), ie_origin = origin, ie_partial = False, ie_ddl = None,
      ie_terms = [\<lparr>te_seqno = 0, te_column = col, te_desc = False, te_coll = Some ''BINARY'', te_key = True\<rparr>]\<rparr>"

definition orders :: object_entry where
  "orders = \<lparr>oe_kind = Table, oe_name = ''orders'', oe_sql = ''CREATE TABLE orders (id INTEGER PRIMARY KEY autoincrement, at TEXT)'',
     oe_columns = [plain_column ''id'' ''INTEGER'' False 1, plain_column ''at'' ''TEXT'' True 0],
     oe_indexes = [], oe_keys = []\<rparr>"

definition lines :: object_entry where
  "lines = \<lparr>oe_kind = Table, oe_name = ''lines'', oe_sql = ''CREATE TABLE lines'',
     oe_columns = [plain_column ''no'' ''INT'' True 2, plain_column ''ord'' ''INTEGER'' True 1,
       plain_column ''price'' ''REAL'' False 0],
     oe_indexes = [index_on ''sqlite_autoindex_lines_1'' (Some ''ord'') ''pk'', index_on ''u1'' (Some ''price'') ''u'',
       index_on ''x1'' None ''c''],
     oe_keys = [\<lparr>ke_id = 0, ke_target = ''ORDERS'', ke_columns = [(0, ''ord'', None)],
       ke_on_update = ''NO ACTION'', ke_on_delete = ''CASCADE''\<rparr>]\<rparr>"

definition generated :: object_entry where
  "generated = \<lparr>oe_kind = Table, oe_name = ''gen'', oe_sql = ''CREATE TABLE gen'',
     oe_columns = [plain_column ''a'' ''TEXT'' False 0, (plain_column ''b'' ''TEXT'' False 0)\<lparr>ce_hidden := 2\<rparr>],
     oe_indexes = [index_on ''on_b'' (Some ''b'') ''c''], oe_keys = []\<rparr>"

definition order_view :: object_entry where
  "order_view = \<lparr>oe_kind = View, oe_name = ''v'', oe_sql = ''CREATE VIEW v'',
     oe_columns = [plain_column ''x'' [] False 0], oe_indexes = [], oe_keys = []\<rparr>"

definition markers_table :: object_entry where
  "markers_table = \<lparr>oe_kind = Table, oe_name = timeMarkerTable, oe_sql = ''CREATE TABLE'',
     oe_columns = [plain_column ''collection_name'' ''TEXT'' True 1], oe_indexes = [], oe_keys = []\<rparr>"

definition shop :: catalog where
  "shop = \<lparr>cat_objects = [markers_table, generated, lines, orders, order_view], cat_keys_on = True,
     cat_markers = [(''orders'', ''at'')]\<rparr>"

lemma shop_wf: "wf_catalog shop"
  by (simp add: wf_catalog_def shop_def wf_object_def all_indexes_def markers_table_def generated_def lines_def
      orders_def order_view_def plain_column_def index_on_def foldASCII_def timeMarkerTable_def ascii_lower_def
      visible_def int64_range_def key_ok_def)

lemma one_connection_sel [simp]: "pl_db (one_connection d) = d" "pl_open (one_connection d) = []"
  by (simp_all add: one_connection_def)

text \<open>The texts of the catalog, evaluated once.\<close>

lemma declared_integer: "dbschemaTypeFromSQLite ''INTEGER'' = (Type_Int, None, True)"
  by code_simp

lemma declared_text: "dbschemaTypeFromSQLite ''TEXT'' = (Type_String, None, True)"
  by code_simp

lemma declared_int: "dbschemaTypeFromSQLite ''INT'' = (Type_Int, None, True)"
  by code_simp

lemma declared_real: "dbschemaTypeFromSQLite ''REAL'' = (Type_Float, None, True)"
  by code_simp

lemmas declared_types = declared_integer declared_text declared_int declared_real

lemma ddl_words:
  "go_contains (go_to_upper (oe_sql orders)) ''AUTOINCREMENT''"
  "\<not> go_contains (go_to_upper (oe_sql orders)) ''WITHOUT ROWID''"
  "go_equal_fold_ascii (go_trim_space ''INTEGER'') ''INTEGER''"
  by code_simp+

lemma folded_names:
  "foldASCII ''ORDERS'' = ''orders''" "foldASCII ''orders'' = ''orders''" "foldASCII ''lines'' = ''lines''"
  "foldASCII ''gen'' = ''gen''" "foldASCII timeMarkerTable = timeMarkerTable" "foldASCII ''v'' = ''v''"
  by code_simp+

lemma shop_objects:
  "oe_name orders = ''orders''" "oe_name lines = ''lines''" "oe_name generated = ''gen''"
  "oe_name markers_table = timeMarkerTable" "oe_name order_view = ''v''"
  "oe_kind orders = Table" "oe_kind lines = Table" "oe_kind generated = Table" "oe_kind markers_table = Table"
  "oe_kind order_view = View" "cat_objects shop = [markers_table, generated, lines, orders, order_view]"
  "timeMarkerTable \<noteq> ''orders''" "timeMarkerTable \<noteq> ''lines''" "timeMarkerTable \<noteq> ''gen''"
  by (simp_all add: orders_def lines_def generated_def markers_table_def order_view_def shop_def timeMarkerTable_def)

lemma shop_columns:
  "visible orders = [plain_column ''id'' ''INTEGER'' False 1, plain_column ''at'' ''TEXT'' True 0]"
  "visible lines = [plain_column ''no'' ''INT'' True 2, plain_column ''ord'' ''INTEGER'' True 1,
     plain_column ''price'' ''REAL'' False 0]"
  "visible generated = [plain_column ''a'' ''TEXT'' False 0]"
  by (simp_all add: visible_def orders_def lines_def generated_def plain_column_def)

lemma shop_markers: "spec_markers shop n = (if n = ''orders'' then {''at''} else {})"
  by (simp add: spec_markers_def marked_def shop_objects) (auto simp: shop_def)

lemma plain_column_sel [simp]:
  "ce_name (plain_column n t nn pk) = n" "ce_type (plain_column n t nn pk) = t"
  "ce_notnull (plain_column n t nn pk) = nn" "ce_pk (plain_column n t nn pk) = pk" "ce_hidden (plain_column n t nn pk) = 0"
  by (simp_all add: plain_column_def)

lemmas shop_facts = declared_types ddl_words folded_names shop_objects shop_columns shop_markers
  describe_spec_def described_def describe_object_def Let_def unreadable_def recognized_def first_hidden_def

lemma describe_orders:
  "describe_spec shop False ''orders'' = Inr (describe_object shop False orders) \<and>
   map (\<lambda>f. (fd_Type f, fd_AutoIncrement f, fd_Nullable f)) (cd_Fields (describe_object shop False orders)) =
     [(Type_Int, True, False), (Type_Time, False, False)]"
proof -
  have "first_hidden orders = None" "oe_indexes orders = []" by (simp_all add: first_hidden_def orders_def)
  then show ?thesis
    by (simp add: shop_facts describe_field_def spec_type_def auto_text_def int_key_def alias_column_def key_columns_def)
qed

lemma lines_shape:
  "first_hidden lines = None" "map (\<lambda>k. (ke_target k, ke_columns k)) (oe_keys lines) = [(''ORDERS'', [(0, ''ord'', None)])]"
  by (simp_all add: first_hidden_def lines_def)

lemma lines_key: "map ce_name (key_columns lines) = [''ord'', ''no'']"
  by (simp add: key_columns_def shop_columns)

lemma lines_index: "map ix_Name (spec_indexes lines) = [''u1'']"
  by code_simp

lemmas lines_parts = lines_shape lines_key lines_index

lemma lines_keys:
  "map (\<lambda>k. (fk_ReferencedCollection k, fk_ReferencedFields k)) (map (spec_key shop ''lines'') (oe_keys lines)) =
     [(''orders'', [''id''])]"
  by code_simp

lemma describe_lines:
  "describe_spec shop False ''lines'' = Inr (describe_object shop False lines) \<and>
   cd_PrimaryKey (describe_object shop False lines) = [''ord'', ''no''] \<and>
   map ix_Name (cd_Indexes (describe_object shop False lines)) = [''u1''] \<and>
   map (\<lambda>k. (fk_ReferencedCollection k, fk_ReferencedFields k)) (cd_ForeignKeys (describe_object shop False lines)) =
     [(''orders'', [''id''])]"
proof (intro conjI)
  show "describe_spec shop False ''lines'' = Inr (describe_object shop False lines)"
    by (simp add: describe_spec_def described_def shop_objects shop_columns shop_markers unreadable_def
        recognized_def declared_types lines_parts(1))
qed (use lines_keys in \<open>simp_all add: describe_object_def Let_def lines_parts shop_objects\<close>)

lemma describe_generated:
  "describe_spec shop False ''gen'' = Inl (hidden_column_error ''DescribeCollection'' ''gen'' ''b'' 2)"
proof -
  have "first_hidden generated = Some ((plain_column ''b'' ''TEXT'' False 0)\<lparr>ce_hidden := 2\<rparr>)"
    by (simp add: first_hidden_def generated_def)
  then show ?thesis by (simp add: shop_facts)
qed

theorem DescribeCollection_refines_witness:
  "(\<exists>c q. DescribeCollection catalog_engine False ''orders'' (one_connection shop) = (Ok c, q) \<and>
      map (\<lambda>f. (fd_Type f, fd_AutoIncrement f, fd_Nullable f)) (cd_Fields c) =
        [(Type_Int, True, False), (Type_Time, False, False)]) \<and>
   (\<exists>c q. DescribeCollection catalog_engine False ''lines'' (one_connection shop) = (Ok c, q) \<and>
      map (\<lambda>k. (fk_ReferencedCollection k, fk_ReferencedFields k)) (cd_ForeignKeys c) = [(''orders'', [''id''])]) \<and>
   (\<exists>q. DescribeCollection catalog_engine False ''gen'' (one_connection shop) =
      (Fail (hidden_column_error ''DescribeCollection'' ''gen'' ''b'' 2), q))"
proof -
  have run: "\<exists>q. DescribeCollection catalog_engine False n (one_connection shop) =
      (outcome_of (describe_spec shop False n), q)" for n
    using DescribeCollection_refines [of catalog_engine shop "one_connection shop" False n]
    by (auto simp: catalog_engine_serves shop_wf)
  show ?thesis
    using run [of "''orders''"] run [of "''lines''"] run [of "''gen''"]
      describe_orders describe_lines describe_generated by auto
qed


theorem ListConstraints_refines_witness:
  "\<exists>q. ListConstraints catalog_engine ''lines'' (one_connection shop) = (Ok (constraint_spec lines), q) \<and>
     map ct_Name (constraint_spec lines) = [''lines_pk'', ''lines_fk_0'', ''u1'']"
proof -
  have "map ct_Name (constraint_spec lines) = [''lines_pk'', ''lines_fk_0'', ''u1'']"
    by code_simp
  moreover have "lines \<in> set (cat_objects shop)" "oe_name lines = ''lines''"
    by (simp_all add: shop_def lines_def)
  ultimately show ?thesis
    using ListConstraints_refines [of catalog_engine shop "one_connection shop" lines]
    by (auto simp: catalog_engine_serves shop_wf)
qed


end
