(* ===== verification/Database.thy ===== *)
theory Database
  imports Sqlite_Errors
begin

text \<open>
  database.go, database_dal.go and transactional_ddl.go: the construction of a Database, its lenient
  view, Close, and the delegation of the data-access operations. Package dalgo2sql, which the Database
  embeds as a dal.DB, is not part of this repository: it is the parameter \<open>'db\<close> and the functions that
  act on it.
\<close>

section \<open>Database values\<close>

text \<open>\<open>'h\<close> is the handle *sql.DB, \<open>None\<close> where the field is nil.\<close>

record ('db, 'h) database =
  da_DB :: "'db option"
  da_sqlDB :: "'h option"
  da_dbPath :: string
  da_lenient :: bool

definition LenientSchema :: "('db, 'h) database \<Rightarrow> ('db, 'h) database" where
  "LenientSchema d = d\<lparr>da_lenient := True\<rparr>"

definition SupportsConcurrentConnections :: "('db, 'h) database \<Rightarrow> bool" where
  "SupportsConcurrentConnections d = False"

definition SupportsTransactionalDDL :: "('db, 'h) database \<Rightarrow> bool" where
  "SupportsTransactionalDDL d = True"

definition Version :: string where "Version = ''0.1.0''"

definition Adapter :: "('db, 'h) database \<Rightarrow> string \<times> string" where
  "Adapter d = (''dalgo2sqlite'', Version)"

section \<open>Opening and closing\<close>

text \<open>
  The handles that sql.Open has made and nobody has closed. \<open>sqlOpen\<close> and \<open>ping\<close> are the answers of
  the driver, \<open>closing\<close> that of closing a handle, and \<open>newInner\<close> is dalgo2sql.NewDatabase.
\<close>

record handles =
  hs_open :: "nat list"
  hs_next :: nat

record 'o db_options =
  do_IsAlreadyExists :: "(err \<Rightarrow> bool) option"
  do_other :: 'o

record ('db, 'o, 's) driver =
  dv_sqlOpen :: "string \<Rightarrow> err option"
  dv_ping :: "nat \<Rightarrow> err option"
  dv_closing :: "nat \<Rightarrow> err option"
  dv_newInner :: "nat \<Rightarrow> 's \<Rightarrow> 'o db_options \<Rightarrow> 'db"

definition close_handle :: "nat \<Rightarrow> handles \<Rightarrow> handles" where
  "close_handle h w = w\<lparr>hs_open := removeAll h (hs_open w)\<rparr>"

definition default_classifier :: "'o db_options \<Rightarrow> 'o db_options" where
  "default_classifier opts =
     (if do_IsAlreadyExists opts = None then opts\<lparr>do_IsAlreadyExists := Some IsAlreadyExists\<rparr> else opts)"

definition NewDatabaseWithOptions ::
  "('db, 'o, 's) driver \<Rightarrow> string \<Rightarrow> 's \<Rightarrow> 'o db_options \<Rightarrow> handles \<Rightarrow> (err + ('db, nat) database) \<times> handles" where
  "NewDatabaseWithOptions D dbPath schema opts w =
     (let opts = default_classifier opts
      in case dv_sqlOpen D dbPath of
           Some e \<Rightarrow> (Inl (Wrapf ''dalgo2sqlite: sql.Open(%q): %w'' [Str dbPath] e), w)
         | None \<Rightarrow>
             let sqlDB = hs_next w; w = w\<lparr>hs_open := sqlDB # hs_open w, hs_next := Suc sqlDB\<rparr>
             in case dv_ping D sqlDB of
                  Some e \<Rightarrow> (Inl (Wrapf ''dalgo2sqlite: PingContext(%q): %w'' [Str dbPath] e), close_handle sqlDB w)
                | None \<Rightarrow>
                    (Inr \<lparr>da_DB = Some (dv_newInner D sqlDB schema opts), da_sqlDB = Some sqlDB,
                       da_dbPath = dbPath, da_lenient = False\<rparr>, w))"

text \<open>NewDatabase passes dal.NewSchema(nil, nil) and empty options.\<close>

definition NewDatabase ::
  "('db, 'o, 's) driver \<Rightarrow> 's \<Rightarrow> 'o \<Rightarrow> string \<Rightarrow> handles \<Rightarrow> (err + ('db, nat) database) \<times> handles" where
  "NewDatabase D emptySchema noOptions dbPath =
     NewDatabaseWithOptions D dbPath emptySchema \<lparr>do_IsAlreadyExists = None, do_other = noOptions\<rparr>"

definition Database_Close ::
  "('db, 'o, 's) driver \<Rightarrow> ('db, nat) database \<Rightarrow> handles \<Rightarrow> err option \<times> handles" where
  "Database_Close D d w =
     (case da_sqlDB d of None \<Rightarrow> (None, w) | Some h \<Rightarrow> (dv_closing D h, close_handle h w))"

text \<open>Opening a database either succeeds with one new handle, a dal.DB built on it, and the package's own
  duplicate-key classifier unless the caller chose one; or it fails and leaves no handle open, also when
  the ping fails after the handle was opened.\<close>

theorem NewDatabaseWithOptions_handles:
  "NewDatabaseWithOptions D dbPath schema opts w =
     (case dv_sqlOpen D dbPath of
        Some e \<Rightarrow> (Inl (Wrapf ''dalgo2sqlite: sql.Open(%q): %w'' [Str dbPath] e), w)
      | None \<Rightarrow>
          (case dv_ping D (hs_next w) of
             Some e \<Rightarrow> (Inl (Wrapf ''dalgo2sqlite: PingContext(%q): %w'' [Str dbPath] e),
               \<lparr>hs_open = removeAll (hs_next w) (hs_open w), hs_next = Suc (hs_next w)\<rparr>)
           | None \<Rightarrow>
               (Inr \<lparr>da_DB = Some (dv_newInner D (hs_next w) schema
                   (opts\<lparr>do_IsAlreadyExists :=
                      Some (case do_IsAlreadyExists opts of None \<Rightarrow> IsAlreadyExists | Some f \<Rightarrow> f)\<rparr>)),
                  da_sqlDB = Some (hs_next w), da_dbPath = dbPath, da_lenient = False\<rparr>,
                \<lparr>hs_open = hs_next w # hs_open w, hs_next = Suc (hs_next w)\<rparr>)))"
  by (cases opts; cases "do_IsAlreadyExists opts")
    (auto simp: NewDatabaseWithOptions_def default_classifier_def close_handle_def Let_def split: option.split)

section \<open>The life of the handles\<close>

text \<open>
  What a program does with this package: it opens databases, takes lenient views of them and closes
  them, in any order and any number of times. The state is the open handles and the databases at hand.
\<close>

inductive db_step ::
  "('db, 'o, 's) driver \<Rightarrow> handles \<times> ('db, nat) database list \<Rightarrow> handles \<times> ('db, nat) database list \<Rightarrow> bool"
  for D where
  step_new: "NewDatabaseWithOptions D path schema opts w = (Inr d, w') \<Longrightarrow> db_step D (w, ds) (w', d # ds)"
| step_refused: "NewDatabaseWithOptions D path schema opts w = (Inl e, w') \<Longrightarrow> db_step D (w, ds) (w', ds)"
| step_lenient: "d \<in> set ds \<Longrightarrow> db_step D (w, ds) (w, LenientSchema d # ds)"
| step_close: "d \<in> set ds \<Longrightarrow> Database_Close D d w = (r, w') \<Longrightarrow> db_step D (w, ds) (w', ds)"

inductive_cases db_stepE: "db_step D (w, ds) st'"

definition no_handles :: handles where
  "no_handles = \<lparr>hs_open = [], hs_next = 0\<rparr>"

definition db_reachable ::
  "('db, 'o, 's) driver \<Rightarrow> handles \<times> ('db, nat) database list \<Rightarrow> bool" where
  "db_reachable D st \<longleftrightarrow> (db_step D)\<^sup>*\<^sup>* (no_handles, []) st"

definition owned :: "handles \<times> ('db, nat) database list \<Rightarrow> bool" where
  "owned st = (case st of (w, ds) \<Rightarrow>
     list_all (\<lambda>d. \<exists>h. da_sqlDB d = Some h \<and> h < hs_next w) ds \<and> distinct (hs_open w) \<and>
     set (hs_open w) \<subseteq> {h. Some h \<in> set (map da_sqlDB ds)})"

lemma db_step_owned: "db_step D st st' \<Longrightarrow> owned st \<Longrightarrow> owned st'"
proof (induction rule: db_step.induct)
  case (step_new path schema opts w d w' ds)
  then have "da_sqlDB d = Some (hs_next w)" "w' = \<lparr>hs_open = hs_next w # hs_open w, hs_next = Suc (hs_next w)\<rparr>"
    by (auto simp: NewDatabaseWithOptions_def close_handle_def Let_def split: option.splits)
  moreover have "hs_next w \<notin> set (hs_open w)"
    using step_new.prems by (fastforce simp: owned_def list_all_iff)
  ultimately show ?case
    using step_new.prems by (auto simp: owned_def list_all_iff)
next
  case (step_refused path schema opts w e w' ds)
  then have "set (hs_open w') \<subseteq> set (hs_open w)" "distinct (hs_open w) \<Longrightarrow> distinct (hs_open w')" "hs_next w \<le> hs_next w'"
    by (auto simp: NewDatabaseWithOptions_def close_handle_def Let_def distinct_removeAll split: option.splits)
  then show ?case
    using step_refused.prems by (fastforce simp: owned_def list_all_iff)
next
  case (step_lenient d ds w)
  then show ?case by (auto simp: owned_def LenientSchema_def list_all_iff)
next
  case (step_close d ds w r w')
  then have "set (hs_open w') \<subseteq> set (hs_open w)" "distinct (hs_open w) \<Longrightarrow> distinct (hs_open w')" "hs_next w' = hs_next w"
    by (auto simp: Database_Close_def close_handle_def distinct_removeAll split: option.splits)
  then show ?case
    using step_close.prems by (fastforce simp: owned_def list_all_iff)
qed

lemma db_reachable_owned: "db_reachable D st \<Longrightarrow> owned st"
  unfolding db_reachable_def
  by (induction rule: rtranclp_induct) (simp add: owned_def no_handles_def, rule db_step_owned)

definition close_all :: "('db, 'o, 's) driver \<Rightarrow> ('db, nat) database list \<Rightarrow> handles \<Rightarrow> handles" where
  "close_all D ds w = foldl (\<lambda>w d. snd (Database_Close D d w)) w ds"

lemma close_all_open:
  "set (hs_open (close_all D ds w)) = set (hs_open w) - {h. Some h \<in> set (map da_sqlDB ds)}"
  unfolding close_all_def
  by (induction ds arbitrary: w) (auto simp: Database_Close_def close_handle_def split: option.splits)

text \<open>C23: No handle leaks: however a program opens databases, takes lenient views and closes them, every open
  handle belongs to a database it still has, so closing those, one by one, leaves nothing open.\<close>

theorem handles_never_leak:
  assumes "db_reachable D (w, ds)"
  shows "set (hs_open w) \<subseteq> {h. Some h \<in> set (map da_sqlDB ds)} \<and> hs_open (close_all D ds w) = []"
proof -
  have "set (hs_open w) \<subseteq> {h. Some h \<in> set (map da_sqlDB ds)}"
    using db_reachable_owned [OF assms] by (simp add: owned_def)
  moreover from this have "set (hs_open (close_all D ds w)) = {}"
    by (simp add: close_all_open)
  ultimately show ?thesis by simp
qed

text \<open>A driver that refuses an empty path, and a program that opens a database and views it leniently.\<close>

definition sample_driver :: "(nat, unit, unit) driver" where
  "sample_driver = \<lparr>dv_sqlOpen = (\<lambda>path. if path = [] then Some (Foreign 0) else None), dv_ping = (\<lambda>h. None),
     dv_closing = (\<lambda>h. None), dv_newInner = (\<lambda>h s opts. h)\<rparr>"

theorem handles_never_leak_witness:
  "\<exists>w ds. db_reachable sample_driver (w, ds) \<and> hs_open w = [0] \<and> length ds = 2 \<and>
     hs_open (close_all sample_driver ds w) = []"
proof -
  let ?d = "\<lparr>da_DB = Some 0, da_sqlDB = Some 0, da_dbPath = ''a.db'', da_lenient = False\<rparr> :: (nat, nat) database"
  let ?w = "\<lparr>hs_open = [0], hs_next = 1\<rparr>"
  have "NewDatabaseWithOptions sample_driver ''a.db'' () \<lparr>do_IsAlreadyExists = None, do_other = ()\<rparr> no_handles = (Inr ?d, ?w)"
    by (simp add: NewDatabaseWithOptions_def sample_driver_def no_handles_def)
  from db_step.step_new [OF this, of "[]"] have "db_step sample_driver (no_handles, []) (?w, [?d])" .
  moreover have "db_step sample_driver (?w, [?d]) (?w, [LenientSchema ?d, ?d])"
    by (rule db_step.step_lenient) simp
  ultimately have reached: "db_reachable sample_driver (?w, [LenientSchema ?d, ?d])"
    unfolding db_reachable_def by (meson rtranclp.rtrancl_into_rtrancl rtranclp.rtrancl_refl)
  with handles_never_leak [OF reached] show ?thesis
    by (intro exI [of _ ?w] exI [of _ "[LenientSchema ?d, ?d]"]) simp
qed

end
