(* ===== verification/Lenient_Schema.thy ===== *)
theory Lenient_Schema
  imports Schema_Examples Database
begin

text \<open>
  The strict and the lenient reader compared, and ListIndexes compared with the description, on a
  database that serves a catalog.
\<close>

lemma outcome_of_iff [simp]: "outcome_of r = Ok x \<longleftrightarrow> r = Inr x" "outcome_of r = Fail e \<longleftrightarrow> r = Inl e"
  by (cases r; simp)+

lemma describe_run:
  assumes "serves E cat (pl_db p)" "wf_catalog cat" "pl_open p = []"
  shows "fst (DescribeCollection E lenient name p) = outcome_of (describe_spec cat lenient name)"
  using runs_run [OF runs_describeCollection [OF assms(1,2), where name = name and lenient = lenient] assms(3)]
  by (auto simp: DescribeCollection_def)

lemma describe_lines_run:
  "fst (DescribeCollection catalog_engine False ''lines'' (one_connection shop)) = Ok (describe_object shop False lines)"
  using describe_lines by (simp add: describe_run [of _ shop] catalog_engine_serves shop_wf)

text \<open>SQLite's catalog is consistent: a term of an index that is a column is a column of its table.\<close>

definition index_columns_exist :: "catalog \<Rightarrow> bool" where
  "index_columns_exist cat \<longleftrightarrow>
     list_all (\<lambda>ob. list_all (\<lambda>ix. list_all (\<lambda>t. case te_column t of None \<Rightarrow> True
        | Some c \<Rightarrow> c \<in> set (map ce_name (oe_columns ob))) (ie_terms ix)) (oe_indexes ob)) (cat_objects cat)"

lemma described_some:
  "described cat lenient name = Some ob \<Longrightarrow> ob \<in> set (cat_objects cat) \<and> oe_name ob = name"
  by (auto simp: described_def find_Some_iff)

lemma described_unique:
  assumes "wf_catalog cat" "described cat lenient name = Some ob" "ob' \<in> set (cat_objects cat)" "oe_name ob' = name"
  shows "ob' = ob"
proof -
  have "inj_on (\<lambda>ob. foldASCII (oe_name ob)) (set (cat_objects cat))"
    using assms(1) by (simp add: wf_catalog_def distinct_map)
  then show ?thesis
    using described_some [OF assms(2)] assms(3,4) by (simp add: inj_on_def)
qed

lemma described_lenient:
  assumes "wf_catalog cat" "described cat False name = Some ob"
  shows "described cat True name = Some ob"
proof -
  have ob: "ob \<in> set (cat_objects cat)" "oe_name ob = name" using described_some [OF assms(2)] by auto
  then obtain ob' where "described cat True name = Some ob'"
    by (cases "described cat True name") (auto simp: described_def find_None_iff)
  with described_unique [OF assms(1) this ob] show ?thesis by simp
qed

lemma index_fields_exist:
  assumes "index_columns_exist cat" "ob \<in> set (cat_objects cat)" "ix \<in> set (spec_indexes ob)" "c \<in> set (ix_Fields ix)"
  shows "c \<in> set (map ce_name (oe_columns ob))"
proof -
  from assms(3,4) obtain ie where ie: "ie \<in> set (oe_indexes ob)" "c \<in> set (spec_index_fields ie)"
    by (auto simp: spec_indexes_def)
  let ?terms = "map te_column (filter te_key (ie_terms ie))"
  have "None \<notin> set ?terms" "c \<in> the ` set ?terms"
    using ie(2) by (simp_all add: spec_index_fields_def Let_def image_comp comp_def del: set_filter split: if_splits)
  then have "Some c \<in> set ?terms"
    by (metis imageE option.collapse)
  then obtain t where "t \<in> set (ie_terms ie)" "te_column t = Some c"
    by auto
  then show ?thesis
    using assms(1,2) ie(1) by (force simp: index_columns_exist_def list_all_iff)
qed

lemma indexes_on_visible:
  assumes "index_columns_exist cat" "ob \<in> set (cat_objects cat)" "first_hidden ob = None"
  shows "indexesOnFields (spec_indexes ob) (map (describe_field marks ob) (visible ob)) = spec_indexes ob"
proof -
  have "visible ob = oe_columns ob"
    using assms(3) by (auto simp: visible_def first_hidden_def find_None_iff filter_id_conv)
  then have "set (ix_Fields ix) \<subseteq> set (map fd_Name (map (describe_field marks ob) (visible ob)))"
    if "ix \<in> set (spec_indexes ob)" for ix
    using index_fields_exist [OF assms(1,2) that] by (auto simp: describe_field_def comp_def)
  then show ?thesis
    by (auto simp: indexesOnFields_def list_all_iff intro!: filter_True)
qed

lemma describe_spec_lenient:
  assumes "wf_catalog cat" "index_columns_exist cat" "describe_spec cat False name = Inr c"
  shows "describe_spec cat True name = Inr c"
proof -
  from assms(3) obtain ob where ob: "described cat False name = Some ob" "first_hidden ob = None"
      "c = describe_object cat False ob"
    by (auto simp: describe_spec_def split: option.splits)
  have "describe_object cat True ob = describe_object cat False ob"
    using indexes_on_visible [OF assms(2) _ ob(2)] described_some [OF ob(1)]
    by (simp add: describe_object_def Let_def)
  then show ?thesis
    using described_lenient [OF assms(1) ob(1)] ob(3) by (simp add: describe_spec_def)
qed

text \<open>C22: LenientSchema only adds descriptions: whatever the strict Database describes, the lenient one
  describes identically, field for field and index for index; and the lenient one fails only for a name
  that is neither a table nor a view, with "not found".\<close>

theorem LenientSchema_conservative:
  assumes "serves E cat (pl_db p)" "wf_catalog cat" "index_columns_exist cat" "pl_open p = []" "\<not> da_lenient d"
  shows "(\<forall>c. fst (DescribeCollection E (da_lenient d) name p) = Ok c \<longrightarrow>
      fst (DescribeCollection E (da_lenient (LenientSchema d)) name p) = Ok c) \<and>
    (\<forall>e. fst (DescribeCollection E (da_lenient (LenientSchema d)) name p) = Fail e \<longrightarrow>
      e = newCollectionNotFoundError name \<and> name \<notin> set (map oe_name (cat_objects cat)))"
proof -
  note run = describe_run [OF assms(1,2,4)]
  have "describe_spec cat True name = Inl e \<Longrightarrow>
      e = newCollectionNotFoundError name \<and> name \<notin> set (map oe_name (cat_objects cat))" for e
    by (auto simp: describe_spec_def described_def find_None_iff split: option.splits)
  then show ?thesis
    using describe_spec_lenient [OF assms(2,3), of name] assms(5)
    by (auto simp: run LenientSchema_def)
qed

lemma runs_ListIndexes:
  assumes "serves E cat d" "wf_catalog cat" "describe_spec cat lenient name = Inr c"
  shows "runs d [] (ListIndexes E lenient name) (Ok (cd_Indexes c)) []"
proof -
  from assms(3) obtain ob where ob: "described cat lenient name = Some ob" "c = describe_object cat lenient ob"
    by (auto simp: describe_spec_def split: option.splits if_splits)
  note found = described_some [OF ob(1)]
  have list: "runs d [] (listIndexesImpl E name) (Ok (spec_indexes ob)) []"
    using runs_listIndexesImpl [OF assms(1,2), of ob] found by simp
  have "runs d [] (describeCollection E name True) (Ok c) []" if lenient
    using runs_describeCollection [OF assms(1,2), of name True] assms(3) that by simp
  then show ?thesis
    unfolding ListIndexes_def
    by (intro runs_bind [OF list]) (auto simp: ob(2) describe_object_def Let_def intro!: runs_bind runs_return)
qed

text \<open>ListIndexes and DescribeCollection agree: for a collection that can be described, in either mode,
  ListIndexes returns exactly the indexes of its description.\<close>

theorem ListIndexes_agrees:
  assumes "serves E cat (pl_db p)" "wf_catalog cat" "pl_open p = []"
    and "fst (DescribeCollection E lenient name p) = Ok c"
  shows "fst (ListIndexes E lenient name p) = Ok (cd_Indexes c)"
proof -
  have "describe_spec cat lenient name = Inr c"
    using assms(4) by (simp add: describe_run [OF assms(1-3)])
  from runs_run [OF runs_ListIndexes [OF assms(1,2) this] assms(3)] show ?thesis by auto
qed

theorem LenientSchema_conservative_witness:
  "\<exists>c. fst (DescribeCollection catalog_engine False ''lines'' (one_connection shop)) = Ok c \<and>
     fst (DescribeCollection catalog_engine True ''lines'' (one_connection shop)) = Ok c"
proof -
  let ?d = "\<lparr>da_DB = None, da_sqlDB = Some (), da_dbPath = [], da_lenient = False\<rparr> :: (unit, unit) database"
  have "index_columns_exist shop"
    by (simp add: index_columns_exist_def shop_def lines_def orders_def generated_def order_view_def markers_table_def
        index_on_def plain_column_def)
  then have conservative: "fst (DescribeCollection catalog_engine False ''lines'' (one_connection shop)) = Ok c \<Longrightarrow>
      fst (DescribeCollection catalog_engine True ''lines'' (one_connection shop)) = Ok c" for c
    using LenientSchema_conservative [of catalog_engine shop "one_connection shop" ?d "''lines''"]
    by (simp add: catalog_engine_serves shop_wf LenientSchema_def)
  with describe_lines_run show ?thesis by blast
qed

theorem ListIndexes_agrees_witness:
  "\<exists>ixs. fst (ListIndexes catalog_engine False ''lines'' (one_connection shop)) = Ok ixs \<and> map ix_Name ixs = [''u1'']"
proof -
  from ListIndexes_agrees [OF _ _ _ describe_lines_run, of shop] show ?thesis
    using describe_lines by (simp add: catalog_engine_serves shop_wf)
qed

end
