(* ===== verification/Create_Describe.thy ===== *)
theory Create_Describe
  imports Lenient_Schema Sql_Text Schema_Modifier
begin

text \<open>
  Describing a created collection: the text of CREATE TABLE, read as SQLite reads it, makes a table, and
  DescribeCollection of that table gives the collection back, for the collections that are \<open>portable\<close>; what is
  lost for the others is in Type_Mapping and Sql_Text. Ddl_Catalog has the theorem about CreateCollection.
\<close>

section \<open>The table that a statement makes\<close>

text \<open>
  What SQLite documents: the columns in order with their declared types and NOT NULL, the position of a
  column in the key counted from 1, a key of one column declared INTEGER is the rowid and has no index,
  and the text of the statement is kept.
\<close>

fun key_position :: "string list \<Rightarrow> string \<Rightarrow> int" where
  "key_position [] n = 0"
| "key_position (m # ms) n = (if m = n then 1 else if n \<in> set ms then key_position ms n + 1 else 0)"

definition created_column :: "parsed_table \<Rightarrow> parsed_column \<Rightarrow> column_entry" where
  "created_column t pc =
     \<lparr>ce_name = pc_Name pc, ce_type = pc_Type pc, ce_notnull = pc_NotNull pc, ce_default = None,
      ce_pk = (if pc_PrimaryKey pc then 1 else key_position (pt_PrimaryKey t) (pc_Name pc)), ce_hidden = 0\<rparr>"

definition integer_key :: "parsed_table \<Rightarrow> bool" where
  "integer_key t \<longleftrightarrow> (\<exists>pc \<in> set (pt_Columns t). pc_Type pc = ''INTEGER'' \<and>
     (pc_PrimaryKey pc \<or> pt_PrimaryKey t = [pc_Name pc]))"

text \<open>An index by its name, uniqueness and key terms.\<close>

definition catalog_index :: "index_entry \<Rightarrow> string \<times> bool \<times> string option list" where
  "catalog_index ix = (ie_name ix, ie_unique ix, map te_column (filter te_key (ie_terms ix)))"

definition defined_index :: "index_def \<Rightarrow> string \<times> bool \<times> string option list" where
  "defined_index i = (ix_Name i, ix_Unique i, map Some (ix_Fields i))"

definition created_table :: "string \<Rightarrow> index_def list \<Rightarrow> object_entry \<Rightarrow> bool" where
  "created_table s idx ob \<longleftrightarrow>
     (\<exists>t. read_create_table s = Some t \<and> oe_kind ob = Table \<and> oe_name ob = pt_Name t \<and> oe_sql ob = s \<and>
        oe_columns ob = map (created_column t) (pt_Columns t) \<and> oe_keys ob = [] \<and>
        (integer_key t \<longrightarrow> list_all (\<lambda>ix. ie_origin ix \<noteq> ''pk'') (oe_indexes ob)) \<and>
        mset (map catalog_index (filter (\<lambda>ix. ie_origin ix \<noteq> ''pk'') (oe_indexes ob))) = mset (map defined_index idx))"

section \<open>Collections that survive\<close>

text \<open>
  No Bool and no foreign keys, which the text does not declare; AUTOINCREMENT only on the inline key; a non-nullable column outside a composite key has no
  place for its NOT NULL, and a sole Int key cannot be nullable. And the text must not mention
  AUTOINCREMENT or WITHOUT ROWID by accident, in a name, because the reader searches the whole text.
\<close>

definition inline_key :: "collection_def \<Rightarrow> field_def \<Rightarrow> bool" where
  "inline_key c f \<longleftrightarrow> has_inline_pk c \<and> fd_Name f = cd_PrimaryKey c ! 0"

definition portable :: "collection_def \<Rightarrow> bool" where
  "portable c \<longleftrightarrow>
     cd_Fields c \<noteq> [] \<and> distinct (map fd_Name (cd_Fields c)) \<and> distinct (cd_PrimaryKey c) \<and>
     set (cd_PrimaryKey c) \<subseteq> set (map fd_Name (cd_Fields c)) \<and>
     list_all (\<lambda>f. fd_Type f \<noteq> Type_Bool \<and> fd_AutoIncrement f = inline_key c f \<and>
        (length (cd_PrimaryKey c) > 1 \<and> fd_Name f \<notin> set (cd_PrimaryKey c) \<longrightarrow> fd_Nullable f) \<and>
        (cd_PrimaryKey c = [fd_Name f] \<and> fd_Type f = Type_Int \<longrightarrow> \<not> fd_Nullable f)) (cd_Fields c) \<and>
     list_all (\<lambda>i. ix_Collection i = cd_Name c \<and> ix_Fields i \<noteq> [] \<and>
        set (ix_Fields i) \<subseteq> set (map fd_Name (cd_Fields c))) (cd_Indexes c) \<and>
     cd_ForeignKeys c = []"

definition plain_text :: "collection_def \<Rightarrow> string \<Rightarrow> bool" where
  "plain_text c s \<longleftrightarrow>
     (has_inline_pk c \<or> \<not> go_contains (go_to_upper s) ''AUTOINCREMENT'') \<and>
     \<not> go_contains (go_to_upper s) ''WITHOUT ROWID''"

section \<open>The key\<close>

lemma key_position_zero: "key_position pk n = 0 \<longleftrightarrow> n \<notin> set pk"
  and key_position_nonneg: "0 \<le> key_position pk n"
  by (induction pk) auto

lemma key_position_pos: "0 < key_position pk n \<longleftrightarrow> n \<in> set pk"
  using key_position_zero [of pk n] key_position_nonneg [of pk n] by linarith

lemma key_positions: "distinct pk \<Longrightarrow> map (key_position pk) pk = map int [1..<Suc (length pk)]"
proof (induction pk)
  case (Cons m ms)
  have "map (key_position (m # ms)) ms = map ((\<lambda>i. i + 1) \<circ> key_position ms) ms"
    using Cons.prems by auto
  also have "\<dots> = map (\<lambda>i. i + 1) (map int [1..<Suc (length ms)])"
    using Cons by (simp only: map_map [symmetric]) simp
  also have "\<dots> = map int (map Suc [1..<Suc (length ms)])"
    by (simp add: comp_def del: upt_Suc)
  also have "\<dots> = map int [Suc 1..<Suc (Suc (length ms))]"
    by (simp only: map_Suc_upt)
  finally have "map (key_position (m # ms)) ms = map int [Suc 1..<Suc (Suc (length ms))]" .
  moreover have "key_position (m # ms) m = 1" by simp
  ultimately show ?case
    by (simp add: upt_conv_Cons del: upt_Suc key_position.simps)
qed simp

lemma key_position_inj: "inj_on (key_position pk) (set pk)"
proof (induction pk)
  case (Cons m ms)
  show ?case
  proof (rule inj_onI)
    fix x y assume xy: "x \<in> set (m # ms)" "y \<in> set (m # ms)" "key_position (m # ms) x = key_position (m # ms) y"
    show "x = y"
    proof (cases "x = m \<or> y = m")
      case True
      then show ?thesis
        using xy key_position_pos [of ms x] key_position_pos [of ms y] by (auto split: if_splits)
    next
      case False
      then have "x \<in> set ms" "y \<in> set ms" "key_position ms x = key_position ms y" using xy by auto
      then show ?thesis using Cons by (simp add: inj_on_def)
    qed
  qed
qed simp

text \<open>Columns that carry their key positions are sorted into key order.\<close>

lemma sort_by_position:
  assumes "distinct pk" "distinct (map ce_name cs)" "set pk \<subseteq> set (map ce_name cs)"
    and "\<And>ce. ce \<in> set cs \<Longrightarrow> ce_pk ce = key_position pk (ce_name ce)"
  shows "map ce_name (sort_key ce_pk (filter (\<lambda>ce. ce_pk ce > 0) cs)) = pk"
proof -
  have "\<exists>ce \<in> set cs. ce_name ce = n" if "n \<in> set pk" for n
    using assms(3) that by auto
  then obtain pick where pick: "\<And>n. n \<in> set pk \<Longrightarrow> pick n \<in> set cs \<and> ce_name (pick n) = n"
    by metis
  have names: "map ce_name (map pick pk) = pk"
    using pick by (simp add: map_idI)
  have unique: "ce \<in> set cs \<Longrightarrow> ce' \<in> set cs \<Longrightarrow> ce_name ce = ce_name ce' \<Longrightarrow> ce = ce'" for ce ce'
    using assms(2) by (auto simp: distinct_map inj_on_def)
  have key: "{ce \<in> set cs. ce_pk ce > 0} = pick ` set pk"
    using assms(4) pick unique by (force simp: key_position_pos)
  have "distinct cs" using assms(2) by (simp add: distinct_map)
  then have "distinct (filter (\<lambda>ce. ce_pk ce > 0) cs)" by simp
  moreover have "distinct (map pick pk)" using assms(1) names by (metis distinct_map)
  moreover have "set (map pick pk) = set (filter (\<lambda>ce. ce_pk ce > 0) cs)" using key by simp
  ultimately have "mset (map pick pk) = mset (filter (\<lambda>ce. ce_pk ce > 0) cs)"
    using set_eq_iff_mset_eq_distinct by metis
  moreover have "map ce_pk (map pick pk) = map int [1..<Suc (length pk)]"
    using assms(4) pick key_positions [OF assms(1)] by (simp add: comp_def cong: map_cong)
  then have "sorted (map ce_pk (map pick pk))" by (simp only:) (simp add: sorted_iff_nth_mono del: upt_Suc)
  moreover have "inj_on ce_pk (set (filter (\<lambda>ce. ce_pk ce > 0) cs))"
  proof (rule inj_onI)
    fix x y
    assume xy: "x \<in> set (filter (\<lambda>ce. ce_pk ce > 0) cs)" "y \<in> set (filter (\<lambda>ce. ce_pk ce > 0) cs)" "ce_pk x = ce_pk y"
    then have "x \<in> set cs" "y \<in> set cs" "0 < ce_pk x" "0 < ce_pk y" by auto
    moreover from this have "ce_name x \<in> set pk" "ce_name y \<in> set pk"
      using assms(4) key_position_pos by metis+
    ultimately show "x = y"
      using xy(3) assms(4) unique inj_onD [OF key_position_inj [of pk]] by metis
  qed
  ultimately have "sort_key ce_pk (filter (\<lambda>ce. ce_pk ce > 0) cs) = map pick pk"
    by (intro sort_key_inj_key_eq) simp_all
  then show ?thesis using names by simp
qed
section \<open>The statement's text\<close>

lemma go_to_upper_append: "c < CHR 0x80 \<Longrightarrow> go_to_upper (a @ c # b) = go_to_upper a @ go_to_upper (c # b)"
proof (induction a rule: go_to_upper.induct)
  case (2 d)
  then have "c \<noteq> CHR 0xB1" "c \<noteq> CHR 0xBF" by (auto simp: less_char_def)
  then show ?case by simp
qed auto

lemma go_join_element: "x \<in> set xs \<Longrightarrow> \<exists>a b. go_join sep xs = a @ x @ b"
proof (induction xs)
  case (Cons y ys)
  show ?case
  proof (cases "x = y")
    case True
    then show ?thesis by (metis append_Nil go_join_Cons)
  next
    case False
    with Cons have "\<exists>a b. go_join sep ys = a @ x @ b" "ys \<noteq> []" by auto
    then obtain a b where "go_join sep ys = a @ x @ b" "ys \<noteq> []" by blast
    then have "go_join sep (y # ys) = (y @ sep @ a) @ x @ b" by (simp add: go_join_Cons)
    then show ?thesis by blast
  qed
qed simp

lemma upper_autoincrement: "go_contains (go_to_upper (a @ ''AUTOINCREMENT'' @ b)) ''AUTOINCREMENT''"
proof -
  have "go_to_upper (CHR ''T'' # b) = CHR ''T'' # go_to_upper b"
    by (cases b) (auto simp: ascii_upper_def less_eq_char_def)
  then have "go_to_upper (''AUTOINCREMENT'' @ b) = ''AUTOINCREMENT'' @ go_to_upper b"
    by (simp add: ascii_upper_def less_eq_char_def)
  then have "go_to_upper (a @ ''AUTOINCREMENT'' @ b) = go_to_upper a @ ''AUTOINCREMENT'' @ go_to_upper b"
    by (simp add: go_to_upper_append less_char_def)
  then show ?thesis by (metis go_contains_iff sublist_appendI)
qed

lemma fieldHasAutoIncIntPK_ex:
  "fieldHasAutoIncIntPK fs n \<Longrightarrow> \<exists>f \<in> set fs. fd_Name f = n \<and> fd_Type f = Type_Int \<and> fd_AutoIncrement f"
  by (induction fs) (auto split: if_splits)

lemma inline_key_text:
  assumes "buildCreateTableSQL c opts = Inr s" "has_inline_pk c"
  shows "go_contains (go_to_upper s) ''AUTOINCREMENT''"
proof -
  obtain f where f: "f \<in> set (cd_Fields c)" "fd_Name f = cd_PrimaryKey c ! 0" "fd_Type f = Type_Int" "fd_AutoIncrement f"
    using fieldHasAutoIncIntPK_ex assms(2) by (auto simp: has_inline_pk_def)
  let ?decl = "\<lambda>f. buildColumnDecl f (has_inline_pk c \<and> fd_Name f = cd_PrimaryKey c ! 0) (has_composite_pk c)
    (fd_Name f \<in> set (cd_PrimaryKey c))"
  from assms obtain cols a0 where cols: "map_result ?decl (cd_Fields c) = Inr cols"
    and s: "s = a0 @ go_join '', '' cols @ '')''"
    unfolding buildCreateTableSQL_def Let_def by (auto split: sum.splits)
  define w where "w = quoteIdentifier (fd_Name f) @ '' INTEGER PRIMARY KEY ''"
  have "?decl f = Inr (w @ ''AUTOINCREMENT'')"
    using f assms(2) by (simp add: buildColumnDecl_def w_def Let_def)
  then have "w @ ''AUTOINCREMENT'' \<in> set cols"
    using cols f(1) unfolding map_result_Inr_iff by (force simp: list_all2_conv_all_nth in_set_conv_nth)
  then obtain a b where "go_join '', '' cols = a @ (w @ ''AUTOINCREMENT'') @ b"
    using go_join_element by blast
  then have "s = (a0 @ a @ w) @ ''AUTOINCREMENT'' @ (b @ '')'')" using s by simp
  then show ?thesis using upper_autoincrement by metis
qed


section \<open>Describing the created table\<close>

text \<open>The facts that the created table gives: its parts in terms of the definition.\<close>

lemma created_parts:
  assumes "buildCreateTableSQL c no_options = Inr s" "portable c" "created_table s idx ob"
  defines "t \<equiv> table_shape c no_options"
  shows "oe_kind ob = Table" "oe_name ob = cd_Name c" "oe_sql ob = s \<and> oe_keys ob = []"
    and "oe_columns ob = map (\<lambda>f. created_column t (column_shape c f)) (cd_Fields c)"
    and "integer_key t \<Longrightarrow> list_all (\<lambda>ix. ie_origin ix \<noteq> ''pk'') (oe_indexes ob)"
    and "mset (map catalog_index (filter (\<lambda>ix. ie_origin ix \<noteq> ''pk'') (oe_indexes ob))) = mset (map defined_index idx)"
proof -
  have "read_create_table s = Some t"
    unfolding t_def using read_built_table [OF assms(1)] assms(2) by (simp add: portable_def)
  moreover have "pt_Name t = cd_Name c" "pt_Columns t = map (column_shape c) (cd_Fields c)"
    by (simp_all add: t_def table_shape_def)
  ultimately show "oe_kind ob = Table" "oe_name ob = cd_Name c" "oe_sql ob = s \<and> oe_keys ob = []"
    and "oe_columns ob = map (\<lambda>f. created_column t (column_shape c f)) (cd_Fields c)"
    and "integer_key t \<Longrightarrow> list_all (\<lambda>ix. ie_origin ix \<noteq> ''pk'') (oe_indexes ob)"
    and "mset (map catalog_index (filter (\<lambda>ix. ie_origin ix \<noteq> ''pk'') (oe_indexes ob))) = mset (map defined_index idx)"
    using assms(3) unfolding created_table_def by auto
qed

lemma created_column_simps [simp]:
  "ce_name (created_column t pc) = pc_Name pc" "ce_type (created_column t pc) = pc_Type pc"
  "ce_notnull (created_column t pc) = pc_NotNull pc" "ce_hidden (created_column t pc) = 0"
  by (simp_all add: created_column_def)

lemma column_shape_simps [simp]:
  "pc_Name (column_shape c f) = fd_Name f" "pc_Type (column_shape c f) = declared_type (fd_Type f)"
  by (simp_all add: column_shape_def Let_def)

lemma created_key:
  "ce_pk (created_column (table_shape c opts) (column_shape c f)) = key_position (cd_PrimaryKey c) (fd_Name f)"
proof (cases "has_inline_pk c")
  case True
  then obtain k where "cd_PrimaryKey c = [k]"
    by (auto simp: has_inline_pk_def length_Suc_conv)
  with True show ?thesis
    by (auto simp: created_column_def column_shape_def table_shape_def Let_def)
qed (simp add: created_column_def column_shape_def table_shape_def Let_def)

lemma created_visible:
  assumes "buildCreateTableSQL c no_options = Inr s" "portable c" "created_table s idx ob"
  shows "visible ob = map (\<lambda>f. created_column (table_shape c no_options) (column_shape c f)) (cd_Fields c)"
    and "first_hidden ob = None"
  using created_parts(4) [OF assms] by (auto simp: visible_def first_hidden_def find_None_iff)

lemma created_primary_key:
  assumes "buildCreateTableSQL c no_options = Inr s" "portable c" "created_table s idx ob"
  shows "map ce_name (key_columns ob) = cd_PrimaryKey c"
proof -
  have "map ce_name (visible ob) = map fd_Name (cd_Fields c)"
    by (simp add: created_visible(1) [OF assms] comp_def)
  moreover have "ce_pk ce = key_position (cd_PrimaryKey c) (ce_name ce)" if "ce \<in> set (visible ob)" for ce
    using that by (auto simp: created_visible(1) [OF assms] created_key)
  ultimately show ?thesis
    unfolding key_columns_def using assms(2)
    by (intro sort_by_position) (simp_all add: portable_def)
qed

lemma created_indexes:
  assumes "buildCreateTableSQL c no_options = Inr s" "portable c" "created_table s (cd_Indexes c) ob"
  shows "mset (spec_indexes ob) = mset (cd_Indexes c)"
proof -
  let ?ixs = "filter (\<lambda>ix. ie_origin ix \<noteq> ''pk'') (oe_indexes ob)"
  define make where "make = (\<lambda>(n, u, cols). \<lparr>ix_Name = n, ix_Collection = cd_Name c,
    ix_Fields = map (the :: string option \<Rightarrow> string) cols, ix_Unique = u\<rparr>)"
  have restored: "make (defined_index i) = i" "ix_Fields i \<noteq> []" if "i \<in> set (cd_Indexes c)" for i
    using assms(2) that by (auto simp: make_def defined_index_def portable_def list_all_iff comp_def)
  note made = created_parts(6) [OF assms]
  have "set (map catalog_index ?ixs) = set (map defined_index (cd_Indexes c))"
    using mset_eq_setD [OF made] .
  then have "\<forall>ix \<in> set ?ixs. \<exists>i. i \<in> set (cd_Indexes c) \<and> catalog_index ix = defined_index i"
    unfolding set_map by blast
  then obtain d where "\<forall>ix \<in> set ?ixs. d ix \<in> set (cd_Indexes c) \<and> catalog_index ix = defined_index (d ix)"
    by metis
  then have d: "d ix \<in> set (cd_Indexes c)" "catalog_index ix = defined_index (d ix)" if "ix \<in> set ?ixs" for ix
    using that by auto
  have named: "spec_index_fields ix = ix_Fields (d ix)" "spec_index_fields ix \<noteq> []" if "ix \<in> set ?ixs" for ix
    using d [OF that] restored(2) [OF d(1) [OF that]]
    by (auto simp: spec_index_fields_def Let_def catalog_index_def defined_index_def comp_def)
  have "filter (\<lambda>ix. ie_origin ix \<noteq> ''pk'' \<and> spec_index_fields ix \<noteq> []) (oe_indexes ob) = ?ixs"
    using named(2) by (intro filter_cong) auto
  moreover have "\<lparr>ix_Name = ie_name ix, ix_Collection = oe_name ob, ix_Fields = spec_index_fields ix,
      ix_Unique = ie_unique ix\<rparr> = make (catalog_index ix)" if "ix \<in> set ?ixs" for ix
    using named(1) [OF that] d(2) [OF that] created_parts(2) [OF assms]
    by (simp add: make_def catalog_index_def defined_index_def comp_def)
  ultimately have "spec_indexes ob = map make (map catalog_index ?ixs)"
    unfolding spec_indexes_def by (simp only: map_map) (auto intro!: map_cong)
  then have "mset (spec_indexes ob) = image_mset make (mset (map defined_index (cd_Indexes c)))"
    using made by (simp only: mset_map)
  also have "\<dots> = mset (map (make \<circ> defined_index) (cd_Indexes c))"
    by (simp only: mset_map [symmetric] map_map)
  also have "map (make \<circ> defined_index) (cd_Indexes c) = cd_Indexes c"
    using restored(1) by (intro map_idI) simp
  finally show ?thesis .
qed

lemma spec_type_created:
  assumes "sqliteTypeFor (fd_Type f) = Inr ty" "fd_Type f \<noteq> Type_Bool" "fd_Name f \<in> marks \<longleftrightarrow> fd_Type f = Type_Time"
  shows "spec_type marks (created_column t (column_shape c f)) = (fd_Type f, None)"
    and "\<not> unreadable marks (created_column t (column_shape c f))"
  using assms sqliteTypeFor_read_back [OF assms(1)]
  by (cases "fd_Type f"; simp add: spec_type_def unreadable_def recognized_def declared_type_def)+

lemma declared_type_integer: "declared_type ty = ''INTEGER'' \<longleftrightarrow> ty = Type_Int \<or> ty = Type_Bool"
  by (cases ty) (simp_all add: declared_type_def)

lemma integer_declared:
  "sqliteTypeFor ty = Inr d \<Longrightarrow> go_equal_fold_ascii (go_trim_space d) ''INTEGER'' \<longleftrightarrow> ty = Type_Int \<or> ty = Type_Bool"
  by (cases ty)
    (auto simp: go_equal_fold_ascii_def go_trim_space_letters caseless_def less_eq_char_def ascii_upper_def ascii_lower_def)

lemma key_position_sole: "key_position [k] n = (if n = k then 1 else 0)"
  by simp

lemma created_alias:
  assumes "buildCreateTableSQL c no_options = Inr s" "portable c" "plain_text c s" "created_table s (cd_Indexes c) ob"
    and "f \<in> set (cd_Fields c)" "sqliteTypeFor (fd_Type f) = Inr ty"
  shows "alias_column ob (created_column (table_shape c no_options) (column_shape c f)) \<longleftrightarrow>
    cd_PrimaryKey c = [fd_Name f] \<and> fd_Type f = Type_Int"
proof -
  note parts = created_parts [OF assms(1,2,4)]
  have len: "length (key_columns ob) = length (cd_PrimaryKey c)"
    using created_primary_key [OF assms(1,2,4)] by (metis length_map)
  have f: "fd_Type f \<noteq> Type_Bool" using assms(2,5) by (auto simp: portable_def list_all_iff)
  have sole: "length pk = 1 \<and> key_position pk n = 1 \<longleftrightarrow> pk = [n]" for pk n
    by (auto simp: length_Suc_conv key_position_sole simp del: key_position.simps split: if_splits)
  have "integer_key (table_shape c no_options)" if "cd_PrimaryKey c = [fd_Name f]" "fd_Type f = Type_Int"
    using that assms(5)
    by (auto simp: integer_key_def table_shape_def column_shape_def Let_def declared_type_integer intro!: bexI [of _ f])
  then have "list_all (\<lambda>ix. ie_origin ix \<noteq> ''pk'') (oe_indexes ob)"
    if "cd_PrimaryKey c = [fd_Name f]" "fd_Type f = Type_Int"
    using parts(5) that by blast
  moreover have "go_equal_fold_ascii (go_trim_space (declared_type (fd_Type f))) ''INTEGER'' \<longleftrightarrow> fd_Type f = Type_Int"
    using integer_declared [OF assms(6)] f assms(6) by (simp add: declared_type_def)
  ultimately show ?thesis
    using sole [of "cd_PrimaryKey c" "fd_Name f"] assms(3) parts(3)
    by (auto simp: alias_column_def len created_key plain_text_def list_all_iff)
qed

lemma built_field_type:
  assumes "buildCreateTableSQL c opts = Inr s" "f \<in> set (cd_Fields c)"
  shows "\<exists>ty. sqliteTypeFor (fd_Type f) = Inr ty"
proof -
  let ?decl = "\<lambda>f. buildColumnDecl f (has_inline_pk c \<and> fd_Name f = cd_PrimaryKey c ! 0) (has_composite_pk c)
    (fd_Name f \<in> set (cd_PrimaryKey c))"
  from assms obtain cols where "map_result ?decl (cd_Fields c) = Inr cols"
    unfolding buildCreateTableSQL_def Let_def by (auto split: sum.splits)
  then obtain d where "?decl f = Inr d"
    using assms(2) unfolding map_result_Inr_iff by (force simp: list_all2_conv_all_nth in_set_conv_nth)
  then show ?thesis by (auto simp: buildColumnDecl_def split: sum.splits)
qed

lemma inline_key_int:
  assumes "portable c" "f \<in> set (cd_Fields c)" "inline_key c f"
  shows "cd_PrimaryKey c = [fd_Name f] \<and> fd_Type f = Type_Int"
proof -
  from assms(3) obtain k where k: "cd_PrimaryKey c = [k]" "fd_Name f = k" "fieldHasAutoIncIntPK (cd_Fields c) k"
    by (auto simp: inline_key_def has_inline_pk_def length_Suc_conv)
  from fieldHasAutoIncIntPK_ex [OF k(3)] obtain g where g: "g \<in> set (cd_Fields c)" "fd_Name g = k" "fd_Type g = Type_Int"
    by blast
  moreover have "inj_on fd_Name (set (cd_Fields c))"
    using assms(1) by (simp add: portable_def distinct_map)
  ultimately have "g = f" using assms(2) k(2) by (simp add: inj_on_def)
  with g k show ?thesis by simp
qed

lemma described_created_field:
  assumes "buildCreateTableSQL c no_options = Inr s" "portable c" "plain_text c s" "created_table s (cd_Indexes c) ob"
    and "f \<in> set (cd_Fields c)" "fd_Name f \<in> marks \<longleftrightarrow> fd_Type f = Type_Time"
  defines "ce \<equiv> created_column (table_shape c no_options) (column_shape c f)"
  shows "describe_field marks ob ce = f\<lparr>fd_Precision := None\<rparr>" and "\<not> unreadable marks ce"
proof -
  have f: "fd_Type f \<noteq> Type_Bool" "fd_AutoIncrement f = inline_key c f"
    "length (cd_PrimaryKey c) > 1 \<and> fd_Name f \<notin> set (cd_PrimaryKey c) \<longrightarrow> fd_Nullable f"
    "cd_PrimaryKey c = [fd_Name f] \<and> fd_Type f = Type_Int \<longrightarrow> \<not> fd_Nullable f"
    using assms(2,5) by (auto simp: portable_def list_all_iff)
  obtain ty where ty: "sqliteTypeFor (fd_Type f) = Inr ty"
    using built_field_type [OF assms(1,5)] by blast
  note type = spec_type_created [OF ty f(1) assms(6), of "table_shape c no_options" c]
  show "\<not> unreadable marks ce" unfolding ce_def by (rule type(2))
  have inline: "cd_PrimaryKey c = [fd_Name f] \<and> fd_Type f = Type_Int" if "inline_key c f"
    using inline_key_int [OF assms(2,5) that] .
  have auto_text: "auto_text ob \<longleftrightarrow> has_inline_pk c"
    using created_parts(1,3) [OF assms(1,2,4)] inline_key_text [OF assms(1)] assms(3)
    by (auto simp: auto_text_def plain_text_def)
  have key: "auto_text ob \<and> int_key marks ce \<longleftrightarrow> inline_key c f"
    using inline type(1)
    by (auto simp: auto_text int_key_def ce_def created_key inline_key_def has_inline_pk_def length_Suc_conv split: if_splits)
  have "pc_NotNull (column_shape c f) \<longleftrightarrow> \<not> inline_key c f \<and> \<not> fd_Nullable f"
    using f(3) by (auto simp: column_shape_def Let_def inline_key_def)
  then have "\<not> ce_notnull ce \<and> \<not> alias_column ob ce \<longleftrightarrow> fd_Nullable f"
    using created_alias [OF assms(1-5) ty] inline f(4) by (auto simp: ce_def)
  then show "describe_field marks ob ce = f\<lparr>fd_Precision := None\<rparr>"
    using key type(1) f(2) by (simp add: describe_field_def ce_def)
qed

lemma described_table:
  assumes "wf_catalog cat" "ob \<in> set (cat_objects cat)" "oe_kind ob = Table"
  shows "described cat False (oe_name ob) = Some ob"
proof -
  obtain ob' where ob': "described cat False (oe_name ob) = Some ob'"
    using assms(2,3) by (cases "described cat False (oe_name ob)") (auto simp: described_def find_None_iff)
  with described_unique [OF assms(1) ob' assms(2)] show ?thesis by simp
qed

text \<open>
  On a database that serves a catalog with the created table, its indexes and its Time markers, the
  description is the collection it was built from.
\<close>

lemma describe_created:
  assumes "buildCreateTableSQL c no_options = Inr s" "portable c" "plain_text c s"
    and "created_table s (cd_Indexes c) ob" "ob \<in> set (cat_objects cat)"
    and "spec_markers cat (cd_Name c) = set (timeColumnsOf c)"
    and "serves E cat (pl_db p)" "wf_catalog cat" "pl_open p = []"
  shows "\<exists>d. fst (DescribeCollection E False (cd_Name c) p) = Ok d \<and>
    cd_Name d = cd_Name c \<and> cd_Fields d = map (\<lambda>f. f\<lparr>fd_Precision := None\<rparr>) (cd_Fields c) \<and>
    cd_PrimaryKey d = cd_PrimaryKey c \<and> mset (cd_Indexes d) = mset (cd_Indexes c) \<and>
    cd_ForeignKeys d = cd_ForeignKeys c"
proof -
  note made = assms(1,2,4)
  have ob: "oe_name ob = cd_Name c" "oe_kind ob = Table" using created_parts(1,2) [OF made] by auto
  have marks: "fd_Name f \<in> set (timeColumnsOf c) \<longleftrightarrow> fd_Type f = Type_Time" if "f \<in> set (cd_Fields c)" for f
  proof -
    have "inj_on fd_Name (set (cd_Fields c))" using assms(2) by (simp add: portable_def distinct_map)
    then show ?thesis using that by (auto simp: timeColumnsOf_def inj_on_def)
  qed
  note each = described_created_field [OF assms(1-4) _ marks]
  have cols: "map (describe_field (set (timeColumnsOf c)) ob) (visible ob) =
      map (\<lambda>f. f\<lparr>fd_Precision := None\<rparr>) (cd_Fields c)"
    using each(1) by (simp add: created_visible(1) [OF made])
  have "find (unreadable (set (timeColumnsOf c))) (visible ob) = None"
    using each(2) by (auto simp: created_visible(1) [OF made] find_None_iff)
  then have "describe_spec cat False (cd_Name c) = Inr (describe_object cat False ob)"
    using described_table [OF assms(8,5) ob(2)] ob assms(6) created_visible(2) [OF made] by (simp add: describe_spec_def)
  then have "fst (DescribeCollection E False (cd_Name c) p) = Ok (describe_object cat False ob)"
    by (simp add: describe_run [OF assms(7-9)])
  moreover have "cd_Fields (describe_object cat False ob) = map (\<lambda>f. f\<lparr>fd_Precision := None\<rparr>) (cd_Fields c)"
    using cols ob assms(6) by (simp add: describe_object_def Let_def)
  ultimately show ?thesis
    using created_primary_key [OF made] created_indexes [OF made] ob created_parts(3) [OF made] assms(2)
    by (intro exI [of _ "describe_object cat False ob"]) (simp add: describe_object_def Let_def portable_def)
qed

section \<open>A name in the text\<close>

text \<open>
  Without the hypothesis on the text: a column named "autoincrement" makes the plain integer key of its
  table look like an AUTOINCREMENT one.
\<close>

definition switch_table :: object_entry where
  "switch_table = \<lparr>oe_kind = Table, oe_name = ''switch'',
     oe_sql = ''CREATE TABLE \"switch\" (\"nr\" INTEGER NOT NULL, \"autoincrement\" TEXT, PRIMARY KEY (\"nr\"))'',
     oe_columns = [plain_column ''nr'' ''INTEGER'' True 1, plain_column ''autoincrement'' ''TEXT'' False 0],
     oe_indexes = [], oe_keys = []\<rparr>"

lemma autoincrement_by_name:
  "describe_field {} switch_table (plain_column ''nr'' ''INTEGER'' True 1) =
     \<lparr>fd_Name = ''nr'', fd_Type = Type_Int, fd_Precision = None, fd_Nullable = False, fd_AutoIncrement = True\<rparr>"
proof -
  have "go_contains (go_to_upper (oe_sql switch_table)) ''AUTOINCREMENT''"
    unfolding switch_table_def by code_simp
  then show ?thesis
    by (simp add: describe_field_def spec_type_def declared_types_read auto_text_def int_key_def)
      (simp add: switch_table_def plain_column_def)
qed

end
