(* ===== verification/Ddl_Plans.thy ===== *)
theory Ddl_Plans
  imports Schema_Modifier Sql_Text
begin

text \<open>
  What the DDL operations of theory Schema_Modifier do to a database: the contract of the applier
  (every method stays inside the transaction), the interpretations of \<open>tx_body\<close> for the three
  operations, and the plan of statements each body amounts to.
\<close>

section \<open>The contract of an applier\<close>

text \<open>An alteration asks the applier for one of its methods (ddl.AlterOp.ApplyTo).\<close>

datatype alter_call =
    Add_Field field_def ddl_options | Drop_Field string ddl_options
  | Rename_Field string string ddl_options | Modify_Field string field_def ddl_options
  | Add_Index index_def ddl_options | Drop_Index string ddl_options

fun run_call :: "alter_call \<Rightarrow> 'd alter_op" where
  "run_call (Add_Field f opts) A = ap_AddField A f opts"
| "run_call (Drop_Field n opts) A = ap_DropField A n opts"
| "run_call (Rename_Field n m opts) A = ap_RenameField A n m opts"
| "run_call (Modify_Field n f opts) A = ap_ModifyField A n f opts"
| "run_call (Add_Index i opts) A = ap_AddIndex A i opts"
| "run_call (Drop_Index n opts) A = ap_DropIndex A n opts"

locale applier_contract =
  fixes E :: "'d engine" and A :: "'d applier"
  assumes add_field: "tx_local E (ap_AddField A f opts)"
    and drop_field: "tx_local E (ap_DropField A n opts)"
    and rename_field: "tx_local E (ap_RenameField A n m opts)"
    and modify_field: "tx_local E (ap_ModifyField A n f opts)"
    and add_index: "tx_local E (ap_AddIndex A i opts)"
    and drop_index: "tx_local E (ap_DropIndex A n opts)"
begin

lemma call: "tx_local E (run_call c A)"
  by (cases c) (simp_all add: add_field drop_field rename_field modify_field add_index drop_index)

lemma calls: "tx_local E (io_for (map run_call cs) (\<lambda>op. op A))"
  by (rule tx_local_for) (auto simp: call)

end

lemma tx_local_readCollectionDefViaTx [tx_rules]: "tx_local E (readCollectionDefViaTx E name)"
  unfolding readCollectionDefViaTx_def
  by (intro tx_local_rows tx_local_bind tx_local_each) (auto intro: tx_rules)

interpretation sqlite_applier: applier_contract E "sqliteAlterApplier E table" for E table
proof
  show "tx_local E (ap_ModifyField (sqliteAlterApplier E table) n f opts)" for n f opts
    unfolding sqliteAlterApplier_def applier.simps ApplyModifyField_def Let_def
    by (auto intro!: tx_rules split: sum.splits)
qed (auto simp: sqliteAlterApplier_def ApplyAddField_def ApplyDropField_def ApplyRenameField_def
    ApplyAddIndex_def ApplyDropIndex_def intro!: tx_rules split: sum.splits)

interpretation create_tx: tx_body E "create_body E c createSQL indexSQLs" for E c createSQL indexSQLs
  by unfold_locales (auto simp: create_body_def mark_time_columns_def intro!: tx_rules)

interpretation drop_tx: tx_body E "drop_body E name opts" for E name opts
  by unfold_locales (auto simp: drop_body_def intro!: tx_rules)

interpretation alter_tx: tx_body E "alter_body E name (map run_call cs)" for E name cs
  by unfold_locales (simp add: alter_body_def sqlite_applier.calls)

text \<open>Alterations that are calls.\<close>

definition calls_applier :: "'d alter_op \<Rightarrow> bool" where
  "calls_applier op \<longleftrightarrow> (\<exists>c. op = run_call c)"

lemma calls_applier_list: "list_all calls_applier ops \<Longrightarrow> \<exists>cs. ops = map run_call cs"
proof (induction ops)
  case (Cons op ops)
  then obtain c cs where "op = run_call c" "ops = map run_call cs"
    by (auto simp: calls_applier_def)
  then have "op # ops = map run_call (c # cs)" by simp
  then show ?case ..
qed simp

section \<open>Plans of statements\<close>

fun exec_all :: "'d engine \<Rightarrow> (string \<times> sqlval list) list \<Rightarrow> 'd \<Rightarrow> err option \<times> 'd" where
  "exec_all E [] d = (None, d)"
| "exec_all E ((q, args) # stmts) d =
     (case eng_exec E q args d of
        (Some e, d') \<Rightarrow> (Some e, d')
      | (None, d') \<Rightarrow> exec_all E stmts d')"

text \<open>
  An effect that amounts to a plan: it executes the statements in order up to the first that fails,
  and returns an error exactly then, one that wraps the error of that statement.
\<close>

definition amounts_to :: "'d engine \<Rightarrow> ('d, unit) io \<Rightarrow> (string \<times> sqlval list) list \<Rightarrow> bool" where
  "amounts_to E m stmts \<longleftrightarrow>
     (\<forall>p. case exec_all E stmts (pl_db p) of
        (None, d) \<Rightarrow> m p = (Ok (), p\<lparr>pl_db := d\<rparr>)
      | (Some e, d) \<Rightarrow> (\<exists>e'. m p = (Fail e', p\<lparr>pl_db := d\<rparr>) \<and> errors_is e' e))"

lemma amounts_toD:
  "amounts_to E m stmts \<Longrightarrow> exec_all E stmts (pl_db p) = (None, d) \<Longrightarrow> m p = (Ok (), p\<lparr>pl_db := d\<rparr>)"
  "amounts_to E m stmts \<Longrightarrow> exec_all E stmts (pl_db p) = (Some e, d) \<Longrightarrow>
     \<exists>e'. m p = (Fail e', p\<lparr>pl_db := d\<rparr>) \<and> errors_is e' e"
  unfolding amounts_to_def by (drule spec [of _ p]; simp)+

lemma plan_return: "amounts_to E (io_return ()) []"
  by (simp add: amounts_to_def)

lemma plan_exec: "amounts_to E (io_wrap f as (conn_exec E q args)) [(q, args)]"
  by (auto simp: amounts_to_def conn_exec_def io_wrap_def split: prod.splits option.splits)

lemma exec_all_append:
  "exec_all E (xs @ ys) d =
     (case exec_all E xs d of (Some e, d') \<Rightarrow> (Some e, d') | (None, d') \<Rightarrow> exec_all E ys d')"
  by (induction xs arbitrary: d) (auto split: prod.splits option.splits)

lemma plan_bind:
  assumes "amounts_to E m xs" "amounts_to E (f ()) ys"
  shows "amounts_to E (io_bind m f) (xs @ ys)"
  unfolding amounts_to_def
proof
  fix p :: "'a pool"
  obtain r d where r: "exec_all E xs (pl_db p) = (r, d)" by fastforce
  show "case exec_all E (xs @ ys) (pl_db p) of
      (None, d) \<Rightarrow> io_bind m f p = (Ok (), p\<lparr>pl_db := d\<rparr>)
    | (Some e, d) \<Rightarrow> \<exists>e'. io_bind m f p = (Fail e', p\<lparr>pl_db := d\<rparr>) \<and> errors_is e' e"
  proof (cases r)
    case None
    with r have "m p = (Ok (), p\<lparr>pl_db := d\<rparr>)" using amounts_toD(1) [OF assms(1)] by simp
    then show ?thesis
      using assms(2) [unfolded amounts_to_def, THEN spec, of "p\<lparr>pl_db := d\<rparr>"] r None
      by (auto simp: exec_all_append split: prod.splits option.splits)
  next
    case (Some e)
    with r obtain e' where "m p = (Fail e', p\<lparr>pl_db := d\<rparr>)" "errors_is e' e"
      using amounts_toD(2) [OF assms(1)] by blast
    then show ?thesis using r Some by (simp add: exec_all_append)
  qed
qed

lemma plan_step:
  "amounts_to E (f ()) ys \<Longrightarrow> amounts_to E (io_bind (io_wrap g as (conn_exec E q args)) f) ((q, args) # ys)"
  using plan_bind [OF plan_exec] by simp

lemma plan_for: "(\<And>x. amounts_to E (body x) [stmt x]) \<Longrightarrow> amounts_to E (io_for xs body) (map stmt xs)"
proof (induction xs)
  case (Cons x xs)
  then show ?case using plan_bind [of E "body x" "[stmt x]" "\<lambda>_. io_for xs body" "map stmt xs"] by simp
qed (simp add: plan_return)

lemma map_result_member: "map_result f xs = Inr ys \<Longrightarrow> x \<in> set xs \<Longrightarrow> \<exists>y. f x = Inr y"
  by (auto simp: map_result_Inr_iff list_all2_conv_all_nth in_set_conv_nth)

text \<open>The statements of CreateCollection.\<close>

definition create_plan :: "collection_def \<Rightarrow> string \<Rightarrow> string list \<Rightarrow> (string \<times> sqlval list) list" where
  "create_plan c createSQL indexSQLs =
     [(createSQL, [])] @ map (\<lambda>s. (s, [])) indexSQLs @
     (if timeColumnsOf c = [] then []
      else (create_marker_table_sql 4, []) #
        map (\<lambda>col. (insert_marker_sql, [V_Text (cd_Name c), V_Text col])) (timeColumnsOf c))"

lemma create_body_plan:
  "amounts_to E (create_body E c createSQL indexSQLs) (create_plan c createSQL indexSQLs)"
proof -
  have "amounts_to E (mark_time_columns E c)
      (if timeColumnsOf c = [] then []
       else (create_marker_table_sql 4, []) #
         map (\<lambda>col. (insert_marker_sql, [V_Text (cd_Name c), V_Text col])) (timeColumnsOf c))"
    by (auto simp: mark_time_columns_def intro: plan_return plan_step plan_for plan_exec)
  then show ?thesis
    unfolding create_body_def create_plan_def by (intro plan_bind plan_for plan_exec)
qed

lemma amounts_to_Fail: "amounts_to E m stmts \<Longrightarrow> m p = (Fail e, q) \<Longrightarrow> \<exists>e' d. exec_all E stmts (pl_db p) = (Some e', d)"
  by (cases "exec_all E stmts (pl_db p)"; cases "fst (exec_all E stmts (pl_db p))") (auto dest: amounts_toD(1))

lemma amounts_to_Ok:
  "amounts_to E m stmts \<Longrightarrow> m p = (Ok (), q) \<longleftrightarrow> (\<exists>d. exec_all E stmts (pl_db p) = (None, d) \<and> q = p\<lparr>pl_db := d\<rparr>)"
proof -
  assume m: "amounts_to E m stmts"
  obtain r d where r: "exec_all E stmts (pl_db p) = (r, d)" by fastforce
  then show ?thesis
    using amounts_toD(1) [OF m, of p d] amounts_toD(2) [OF m, of p _ d] by (cases r) auto
qed

lemma drop_body_run:
  "drop_body E name opts p =
     (case eng_exec E (buildDropTableSQL name opts) [] (pl_db p) of
        (Some e, d) \<Rightarrow> (Fail (Wrapf ''dalgo2sqlite: DropCollection exec: %w'' [] e), p\<lparr>pl_db := d\<rparr>)
      | (None, d) \<Rightarrow> (Ok (), p\<lparr>pl_db := snd (eng_exec E delete_markers_sql [V_Text name] d)\<rparr>))"
  by (auto simp: drop_body_def conn_exec_def io_bind_def io_wrap_def io_ignore_def
      split: prod.splits option.splits)

section \<open>The three operations\<close>

lemma built_fields_have_types:
  assumes "buildCreateTableSQL c opts = Inr s"
  shows "list_all (\<lambda>f. \<exists>ty. sqliteTypeFor (fd_Type f) = Inr ty) (cd_Fields c)"
  unfolding list_all_iff
proof
  fix f assume f: "f \<in> set (cd_Fields c)"
  obtain cols where "map_result (\<lambda>f. buildColumnDecl f (has_inline_pk c \<and> fd_Name f = cd_PrimaryKey c ! 0)
      (has_composite_pk c) (fd_Name f \<in> set (cd_PrimaryKey c))) (cd_Fields c) = Inr cols"
    using assms by (auto simp: buildCreateTableSQL_def Let_def split: sum.splits)
  from map_result_member [OF this f] show "\<exists>ty. sqliteTypeFor (fd_Type f) = Inr ty"
    by (auto simp: buildColumnDecl_def split: sum.splits)
qed

text \<open>A collection is refused before any SQL runs when a field has no column type or an index has
  no name or no fields (or no collection to stand on): the error comes back whatever the database and
  the pool are, and neither has changed.\<close>

theorem CreateCollection_refuses_early:
  assumes "(\<exists>f \<in> set (cd_Fields c). \<exists>e. sqliteTypeFor (fd_Type f) = Inl e) \<or>
    (\<exists>idx \<in> set (cd_Indexes c). ix_Name idx = [] \<or> ix_Fields idx = [] \<or>
       ix_Collection idx = [] \<and> cd_Name c = [])"
  shows "\<exists>e. \<forall>p. CreateCollection E c opts p = (Fail e, p)"
proof (cases "buildCreateTableSQL c opts")
  case (Inl e)
  then show ?thesis by (auto simp: CreateCollection_def)
next
  case (Inr createSQL)
  let ?index = "\<lambda>idx. buildCreateIndexSQL (on_collection (cd_Name c) idx) opts"
  have "\<not> (\<exists>f \<in> set (cd_Fields c). \<exists>e. sqliteTypeFor (fd_Type f) = Inl e)"
    using built_fields_have_types [OF Inr] by (auto simp: list_all_iff)
  with assms obtain idx where "idx \<in> set (cd_Indexes c)" "\<exists>e. ?index idx = Inl e"
    by (auto simp: buildCreateIndexSQL_def on_collection_def)
  then obtain e where "map_result ?index (cd_Indexes c) = Inl e"
    by (cases "map_result ?index (cd_Indexes c)") (auto dest!: map_result_member)
  with Inr show ?thesis by (auto simp: CreateCollection_def)
qed

text \<open>A successful CreateCollection has executed its plan and committed.\<close>

lemma CreateCollection_success:
  assumes "CreateCollection E c opts p = (Ok (), q)" "free_pool p" "pool_ok p"
  obtains s sqls d0 d1 where "buildCreateTableSQL c opts = Inr s"
    "map_result (\<lambda>idx. buildCreateIndexSQL (on_collection (cd_Name c) idx) opts) (cd_Indexes c) = Inr sqls"
    "eng_begin E (pl_db p) = (None, d0)" "exec_all E (create_plan c s sqls) d0 = (None, d1)"
    "eng_commit E d1 = (None, pl_db q)" "pl_open q = pl_open p"
proof -
  obtain s sqls where texts: "buildCreateTableSQL c opts = Inr s"
      "map_result (\<lambda>idx. buildCreateIndexSQL (on_collection (cd_Name c) idx) opts) (cd_Indexes c) = Inr sqls"
      "inTx E (create_body E c s sqls) p = (Ok (), q)"
    using assms(1) by (auto simp: CreateCollection_def split: sum.splits)
  show thesis
    by (rule create_tx.success [OF assms(2,3) texts(3)])
      (use texts(1,2) that in \<open>auto simp: amounts_to_Ok [OF create_body_plan]\<close>)
qed

lemma CreateCollection_runs:
  assumes "buildCreateTableSQL c opts = Inr createSQL"
    and "map_result (\<lambda>idx. buildCreateIndexSQL (on_collection (cd_Name c) idx) opts) (cd_Indexes c) = Inr indexSQLs"
    and "free_pool p" "pool_ok p"
  shows "(\<exists>q. CreateCollection E c opts p = (Ok (), q) \<and> pl_db q = d) \<longleftrightarrow>
    (\<exists>d0 d1. eng_begin E (pl_db p) = (None, d0) \<and>
       exec_all E (create_plan c createSQL indexSQLs) d0 = (None, d1) \<and> eng_commit E d1 = (None, d))"
  unfolding CreateCollection_def assms(1,2) sum.case
  by (rule create_tx.outcome [OF assms(3,4), of E c createSQL indexSQLs])
    (auto simp: amounts_to_Ok [OF create_body_plan] dest: amounts_to_Fail [OF create_body_plan])

text \<open>When the texts can be built, CreateCollection ends in success with the database \<open>d\<close> exactly
  when BeginTx succeeds, the table, then each index in order, then the marker table and one marker
  per Time column are executed one after the other without an error, and the commit gives \<open>d\<close>.\<close>

theorem CreateCollection_plan:
  assumes "buildCreateTableSQL c opts = Inr createSQL"
    and "map_result (\<lambda>idx. buildCreateIndexSQL (on_collection (cd_Name c) idx) opts) (cd_Indexes c) = Inr indexSQLs"
    and "free_pool p" "pool_ok p"
  shows "(\<exists>q. CreateCollection E c opts p = (Ok (), q) \<and> pl_db q = d) \<longleftrightarrow>
    (\<exists>d0 d1. eng_begin E (pl_db p) = (None, d0) \<and>
       exec_all E (create_plan c createSQL indexSQLs) d0 = (None, d1) \<and> eng_commit E d1 = (None, d))"
  by (rule CreateCollection_runs [OF assms])

text \<open>C1: CreateCollection is all or nothing: if it fails, and it was not the commit that failed, the
  content of the database is what it was before.\<close>

theorem CreateCollection_atomic:
  assumes "transactional E content saved" "free_pool p" "pool_ok p"
    and "CreateCollection E c opts p = (Fail e, q)" "\<not> commit_error e"
  shows "content (pl_db q) = content (pl_db p)"
  using assms(4) create_tx.atomic [OF assms(1-3) _ assms(5)]
  by (auto simp: CreateCollection_def split: sum.splits)

text \<open>C10: AlterCollection is all or nothing: whichever alterations are asked for and whichever of them
  fails, unless the commit failed the content of the database is what it was before the first.\<close>

theorem AlterCollection_atomic:
  assumes "list_all calls_applier ops" "transactional E content saved" "free_pool p" "pool_ok p"
    and "AlterCollection E name ops p = (Fail e, q)" "\<not> commit_error e"
  shows "content (pl_db q) = content (pl_db p)"
proof -
  obtain cs where "ops = map run_call cs"
    using calls_applier_list [OF assms(1)] by blast
  then show ?thesis
    using assms(5) alter_tx.atomic [OF assms(2-4) _ assms(6)] by (simp add: AlterCollection_def)
qed

text \<open>DropCollection depends on the DROP TABLE alone: it ends in success with the database \<open>d\<close>
  exactly when BeginTx and the DROP TABLE succeed and \<open>d\<close> is the commit of the state after the
  attempt to delete the markers, whether or not that attempt failed.\<close>

theorem DropCollection_best_effort:
  assumes "free_pool p" "pool_ok p"
  shows "(\<exists>q. DropCollection E name opts p = (Ok (), q) \<and> pl_db q = d) \<longleftrightarrow>
    (\<exists>d0 d1. eng_begin E (pl_db p) = (None, d0) \<and>
       eng_exec E (buildDropTableSQL name opts) [] d0 = (None, d1) \<and>
       eng_commit E (snd (eng_exec E delete_markers_sql [V_Text name] d1)) = (None, d))"
  unfolding DropCollection_def
  by (rule drop_tx.outcome [OF assms, of E name opts])
    (auto simp: drop_body_run split: prod.splits option.splits)

text \<open>C28: the DDL operations work on a pool of one connection: none waits for a connection that it
  holds itself, and each gives its connection back on every path.\<close>

theorem ddl_pool_safe:
  "pool_safe (CreateCollection E c opts) \<and> pool_safe (DropCollection E name opts) \<and>
   pool_safe (AlterCollection E name (map run_call cs))"
proof -
  have "pool_safe (CreateCollection E c opts)"
    by (auto simp: CreateCollection_def intro: pool_rules create_tx.safe split: sum.splits)
  then show ?thesis
    by (simp add: DropCollection_def AlterCollection_def drop_tx.safe alter_tx.safe)
qed

section \<open>Concrete runs\<close>

text \<open>
  An engine that keeps a journal: its content is the list of statements executed, every query answers
  with \<open>info\<close>, and the statements that satisfy \<open>bad\<close> leave a trace and fail.
\<close>

definition journal_engine :: "rowset \<Rightarrow> (string \<Rightarrow> bool) \<Rightarrow> (string list \<times> string list) engine" where
  "journal_engine info bad =
     \<lparr>eng_query = (\<lambda>q args d. (Inr info, d)),
      eng_exec = (\<lambda>q args d. (if bad q then Some (Sqlite_Error 1) else None, (q # fst d, snd d))),
      eng_begin = (\<lambda>d. (None, (fst d, fst d))),
      eng_commit = (\<lambda>d. (None, d)),
      eng_rollback = (\<lambda>d. (None, (snd d, snd d)))\<rparr>"

lemma journal_transactional: "transactional (journal_engine info bad) fst snd"
  by (simp add: transactional_def journal_engine_def)

lemma one_connection_ok: "free_pool (one_connection d)" "pool_ok (one_connection d)" "pl_db (one_connection d) = d"
  by (simp_all add: one_connection_def free_pool_def pool_ok_def)

definition field :: "string \<Rightarrow> db_type \<Rightarrow> field_def" where
  "field n t = \<lparr>fd_Name = n, fd_Type = t, fd_Precision = None, fd_Nullable = True, fd_AutoIncrement = False\<rparr>"

definition visits :: collection_def where
  "visits = (bare_collection ''visits'' [field ''id'' Type_Int, field ''at'' Type_Time] [''id''])
     \<lparr>cd_Indexes := [\<lparr>ix_Name = ''by_at'', ix_Collection = [], ix_Fields = [''at''], ix_Unique = False\<rparr>]\<rparr>"

theorem CreateCollection_refuses_early_witness:
  "\<exists>e. \<forall>p. CreateCollection (journal_engine (all_rows []) (\<lambda>_. False))
     (visits\<lparr>cd_Fields := [field ''x'' Type_Null]\<rparr>) no_options p = (Fail e, p)"
  by (rule CreateCollection_refuses_early) (simp add: field_def)

lemma create_run_fails:
  "case CreateCollection (journal_engine (all_rows []) ((=) (create_marker_table_sql 4))) visits no_options
      (one_connection ([''old''], [])) of
     (Fail e, q) \<Rightarrow> \<not> commit_error e | _ \<Rightarrow> False"
  by code_simp

theorem CreateCollection_atomic_witness:
  "\<exists>e q. CreateCollection (journal_engine (all_rows []) ((=) (create_marker_table_sql 4))) visits no_options
      (one_connection ([''old''], [])) = (Fail e, q) \<and> fst (pl_db q) = [''old'']"
proof -
  obtain e q where run: "CreateCollection (journal_engine (all_rows []) ((=) (create_marker_table_sql 4)))
      visits no_options (one_connection ([''old''], [])) = (Fail e, q)" "\<not> commit_error e"
    using create_run_fails by (auto split: prod.splits outcome.splits)
  from CreateCollection_atomic [OF journal_transactional one_connection_ok(1,2) run] run show ?thesis
    by (simp add: one_connection_ok)
qed

lemma visits_texts:
  "\<exists>s ixs. buildCreateTableSQL visits no_options = Inr s \<and>
     map_result (\<lambda>idx. buildCreateIndexSQL (on_collection (cd_Name visits) idx) no_options) (cd_Indexes visits) = Inr ixs"
  by (simp add: visits_def field_def buildCreateTableSQL_def map_result.simps buildColumnDecl_def
      buildCreateIndexSQL_def on_collection_def Let_def)

theorem CreateCollection_plan_witness:
  "\<exists>q. CreateCollection (journal_engine (all_rows []) (\<lambda>_. False)) visits no_options
      (one_connection ([], [])) = (Ok (), q) \<and> length (fst (pl_db q)) = 4"
proof -
  let ?E = "journal_engine (all_rows []) (\<lambda>_. False)"
  obtain s ixs where texts: "buildCreateTableSQL visits no_options = Inr s"
      "map_result (\<lambda>idx. buildCreateIndexSQL (on_collection (cd_Name visits) idx) no_options) (cd_Indexes visits) = Inr ixs"
    using visits_texts by blast
  have "length ixs = 1"
    using map_result_length [OF texts(2)] by (simp add: visits_def)
  then obtain i where i: "ixs = [i]" by (cases "ixs") auto
  have "exec_all ?E (create_plan visits s ixs) ([], []) =
      (None, ([insert_marker_sql, create_marker_table_sql 4, i, s], []))"
    by (simp add: create_plan_def i journal_engine_def timeColumnsOf_def visits_def field_def)
  then have "\<exists>q. CreateCollection ?E visits no_options (one_connection ([], [])) = (Ok (), q) \<and>
      pl_db q = ([insert_marker_sql, create_marker_table_sql 4, i, s], [])"
    unfolding CreateCollection_plan [OF texts one_connection_ok(1,2)]
    by (simp add: one_connection_ok) (simp add: journal_engine_def)
  then show ?thesis by auto
qed

lemma alter_run_fails:
  "case AlterCollection (journal_engine (all_rows []) ((=) (buildDropIndexSQL ''gone'' no_options))) ''visits''
      [run_call (Add_Field (field ''note'' Type_String) no_options), run_call (Drop_Index ''gone'' no_options)]
      (one_connection ([''old''], [])) of
     (Fail e, q) \<Rightarrow> \<not> commit_error e | _ \<Rightarrow> False"
  by code_simp

theorem AlterCollection_atomic_witness:
  "\<exists>e q. AlterCollection (journal_engine (all_rows []) ((=) (buildDropIndexSQL ''gone'' no_options))) ''visits''
      [run_call (Add_Field (field ''note'' Type_String) no_options), run_call (Drop_Index ''gone'' no_options)]
      (one_connection ([''old''], [])) = (Fail e, q) \<and> fst (pl_db q) = [''old'']"
proof -
  let ?ops = "[run_call (Add_Field (field ''note'' Type_String) no_options), run_call (Drop_Index ''gone'' no_options)]"
  obtain e q where run: "AlterCollection (journal_engine (all_rows []) ((=) (buildDropIndexSQL ''gone'' no_options)))
      ''visits'' ?ops (one_connection ([''old''], [])) = (Fail e, q)" "\<not> commit_error e"
    using alter_run_fails by (auto split: prod.splits outcome.splits)
  have "list_all calls_applier ?ops" by (auto simp: calls_applier_def)
  from AlterCollection_atomic [OF this journal_transactional one_connection_ok(1,2) run] run show ?thesis
    by (simp add: one_connection_ok)
qed

theorem DropCollection_best_effort_witness:
  "\<exists>q. DropCollection (journal_engine (all_rows []) ((=) delete_markers_sql)) ''visits'' no_options
      (one_connection ([], [])) = (Ok (), q) \<and>
     pl_db q = ([delete_markers_sql, buildDropTableSQL ''visits'' no_options], [])"
proof -
  have "buildDropTableSQL ''visits'' no_options \<noteq> delete_markers_sql"
    by (simp add: buildDropTableSQL_def delete_markers_sql_def quoteIdentifier_def)
  then show ?thesis
    by (subst DropCollection_best_effort [OF one_connection_ok(1,2)])
      (simp add: one_connection_ok journal_engine_def)
qed

end
