(* ===== verification/Ddl_Statements.thy ===== *)
theory Ddl_Statements
  imports Create_Describe Ddl_Plans "HOL-Library.List_Lexorder"
begin

text \<open>
  What SQLite documents the statements of CreateCollection, DropCollection and AlterCollection to do to the catalog:
  \<open>catalog_exec\<close> gives the catalog after a statement (up to the texts SQLite keeps, where it rewrites them),
  or that SQLite refuses it, or nothing for what it
  does not cover, and \<open>executes E cat_of\<close> says that an engine does so. The catalog is seen through the
  lookup \<open>object_named\<close> of an object by its name in any letter case, and \<open>agree_except\<close> says which
  names a change leaves alone.
\<close>

section \<open>Statements\<close>

record parsed_index =
  pi_Unique :: bool
  pi_Name :: string
  pi_Table :: string
  pi_Columns :: "string list"

definition read_index_body :: "bool \<Rightarrow> token list \<Rightarrow> parsed_index option" where
  "read_index_body u ts =
     (case ts of
        Ident n # Word w # Ident t # Punct c # us \<Rightarrow>
          if w = ''ON'' \<and> c = CHR ''(''
          then (case read_names us of
              Some (cols, []) \<Rightarrow> Some \<lparr>pi_Unique = u, pi_Name = n, pi_Table = t, pi_Columns = cols\<rparr>
            | _ \<Rightarrow> None)
          else None
      | _ \<Rightarrow> None)"

definition read_create_index :: "string \<Rightarrow> parsed_index option" where
  "read_create_index s =
     (case sql_lex s of
        Some (a # b # ts) \<Rightarrow>
          if a = Word ''CREATE'' \<and> b = Word ''INDEX'' then read_index_body False ts
          else if a = Word ''CREATE'' \<and> b = Word ''UNIQUE'' \<and> take 1 ts = [Word ''INDEX'']
          then read_index_body True (drop 1 ts)
          else None
      | _ \<Rightarrow> None)"

text \<open>The statements that are known by their first words.\<close>

datatype statement =
    Make_Markers nat | Add_Marker | Delete_Markers | Delete_Marker | Rename_Marker
  | Create_Table parsed_table | Create_Index parsed_index
  | Drop_Table bool string | Unindex bool string | Rename_Table string string | Insert_Into string
  | Add_Column string parsed_column | Drop_Column string string | Rename_Column string string string

definition read_drop :: "(bool \<Rightarrow> string \<Rightarrow> statement) \<Rightarrow> token list \<Rightarrow> statement option" where
  "read_drop stmt ts =
     (case ts of
        [Ident n] \<Rightarrow> Some (stmt False n)
      | [a, b, Ident n] \<Rightarrow> if [a, b] = map Word [''IF'', ''EXISTS''] then Some (stmt True n) else None
      | _ \<Rightarrow> None)"

definition read_alter :: "token list \<Rightarrow> statement option" where
  "read_alter ts =
     (case ts of
        [Ident t, a, b, Ident n] \<Rightarrow>
          if [a, b] = map Word [''RENAME'', ''TO''] then Some (Rename_Table t n)
          else if [a, b] = map Word [''DROP'', ''COLUMN''] then Some (Drop_Column t n) else None
      | [Ident t, a, b, Ident n, c, Ident m] \<Rightarrow>
          if [a, b, c] = map Word [''RENAME'', ''COLUMN'', ''TO''] then Some (Rename_Column t n m) else None
      | Ident t # a # b # Ident n # ws \<Rightarrow>
          if [a, b] = map Word [''ADD'', ''COLUMN''] then map_option (Add_Column t) (read_column n ws) else None
      | _ \<Rightarrow> None)"

definition token_statement :: "token list \<Rightarrow> statement option" where
  "token_statement ts =
     (if take 2 ts = map Word [''DROP'', ''TABLE''] then read_drop Drop_Table (drop 2 ts)
      else if take 2 ts = map Word [''DROP'', ''INDEX''] then read_drop Unindex (drop 2 ts)
      else if take 2 ts = map Word [''ALTER'', ''TABLE''] then read_alter (drop 2 ts)
      else if take 2 ts = map Word [''INSERT'', ''INTO'']
      then (case drop 2 ts of Ident t # c # us \<Rightarrow> if c = Punct CHR ''('' then Some (Insert_Into t) else None | _ \<Rightarrow> None)
      else None)"

definition read_statement :: "string \<Rightarrow> statement option" where
  "read_statement q =
     (if q = create_marker_table_sql 4 then Some (Make_Markers 4)
      else if q = create_marker_table_sql 3 then Some (Make_Markers 3)
      else if q = insert_marker_sql then Some Add_Marker
      else if q = delete_markers_sql then Some Delete_Markers
      else if q = delete_marker_sql then Some Delete_Marker
      else if q = rename_marker_sql then Some Rename_Marker
      else case read_create_table q of
          Some t \<Rightarrow> Some (Create_Table t)
        | None \<Rightarrow>
            (case read_create_index q of
               Some i \<Rightarrow> Some (Create_Index i)
             | None \<Rightarrow> (case sql_lex q of Some ts \<Rightarrow> token_statement ts | None \<Rightarrow> None)))"

lemma read_built_index:
  assumes "buildCreateIndexSQL i no_options = Inr s"
  shows "read_create_index s = Some
    \<lparr>pi_Unique = ix_Unique i, pi_Name = ix_Name i, pi_Table = ix_Collection i, pi_Columns = ix_Fields i\<rparr>"
proof -
  have "ix_Fields i \<noteq> []" using assms by (auto simp: buildCreateIndexSQL_def split: if_splits)
  then show ?thesis
    using built_index_tokens [OF assms] read_names_tokens [of "ix_Fields i" "[]"]
    by (auto simp: read_create_index_def read_index_body_def)
qed

section \<open>The objects they make\<close>

text \<open>Names are compared in any letter case; a column is meant by its name in the table.\<close>

definition spelled :: "string list \<Rightarrow> string \<Rightarrow> string option" where
  "spelled names n = find (\<lambda>m. foldASCII m = foldASCII n) names"

definition taken :: "catalog \<Rightarrow> string \<Rightarrow> bool" where
  "taken cat n \<longleftrightarrow> foldASCII n \<in> foldASCII ` (oe_name ` set (cat_objects cat) \<union> ie_name ` set (all_indexes cat))"

text \<open>An index has one term per column, and one for the rowid.\<close>

definition column_term :: "nat \<times> string option \<Rightarrow> term_entry" where
  "column_term = (\<lambda>(i, c). \<lparr>te_seqno = int i, te_column = c, te_desc = False, te_coll = Some ''BINARY'', te_key = (c \<noteq> None)\<rparr>)"

definition made_index :: "string \<Rightarrow> bool \<Rightarrow> string \<Rightarrow> string option option \<Rightarrow> string list \<Rightarrow> index_entry" where
  "made_index n u origin ddl cols =
     \<lparr>ie_name = n, ie_unique = u, ie_origin = origin, ie_partial = False, ie_ddl = ddl,
      ie_terms = map column_term (enumerate 0 (map Some cols @ [None]))\<rparr>"

definition key_names :: "parsed_table \<Rightarrow> string list" where
  "key_names t = (if pt_PrimaryKey t = [] then map pc_Name (filter pc_PrimaryKey (pt_Columns t)) else pt_PrimaryKey t)"

text \<open>A key of one column declared INTEGER is the rowid; any other key has an index.\<close>

definition rowid_key :: "parsed_table \<Rightarrow> string list \<Rightarrow> bool" where
  "rowid_key t pk \<longleftrightarrow> (\<exists>pc \<in> set (pt_Columns t). pk = [pc_Name pc] \<and> foldASCII (pc_Type pc) = ''integer'')"

definition made_table :: "parsed_table \<Rightarrow> string list \<Rightarrow> string \<Rightarrow> object_entry" where
  "made_table t pk s =
     \<lparr>oe_kind = Table, oe_name = pt_Name t, oe_sql = s,
      oe_columns = map (\<lambda>pc. \<lparr>ce_name = pc_Name pc, ce_type = pc_Type pc, ce_notnull = pc_NotNull pc, ce_default = None,
        ce_pk = key_position pk (pc_Name pc), ce_hidden = 0\<rparr>) (pt_Columns t),
      oe_indexes = (if pk = [] \<or> rowid_key t pk then []
        else [made_index (''sqlite_autoindex_'' @ pt_Name t @ ''_1'') True ''pk'' None pk]),
      oe_keys = []\<rparr>"

text \<open>AUTOINCREMENT makes SQLite's own table of sequences.\<close>

definition sequence_table :: object_entry where
  "sequence_table =
     \<lparr>oe_kind = Table, oe_name = ''sqlite_sequence'', oe_sql = ''CREATE TABLE sqlite_sequence(name,seq)'',
      oe_columns = map (\<lambda>n. \<lparr>ce_name = n, ce_type = [], ce_notnull = False, ce_default = None, ce_pk = 0, ce_hidden = 0\<rparr>)
        [''name'', ''seq''],
      oe_indexes = [], oe_keys = []\<rparr>"

definition add_object :: "object_entry \<Rightarrow> catalog \<Rightarrow> catalog" where
  "add_object ob cat = cat\<lparr>cat_objects := insort_key oe_name ob (cat_objects cat)\<rparr>"

definition add_index :: "string \<Rightarrow> index_entry \<Rightarrow> catalog \<Rightarrow> catalog" where
  "add_index n ix cat = cat\<lparr>cat_objects := map (\<lambda>ob. if foldASCII (oe_name ob) = foldASCII n
     then ob\<lparr>oe_indexes := ix # oe_indexes ob\<rparr> else ob) (cat_objects cat)\<rparr>"

definition drop_object :: "string \<Rightarrow> catalog \<Rightarrow> catalog" where
  "drop_object n cat = cat\<lparr>cat_objects := filter (\<lambda>ob. foldASCII (oe_name ob) \<noteq> foldASCII n) (cat_objects cat)\<rparr>"

definition object_named :: "catalog \<Rightarrow> string \<Rightarrow> object_entry option" where
  "object_named cat n = find (\<lambda>ob. foldASCII (oe_name ob) = foldASCII n) (cat_objects cat)"

section \<open>Executing a statement\<close>

text \<open>
  A statement gives a new catalog, or one up to texts that SQLite rewrites in a way not covered, or is
  refused, or is not covered at all.
\<close>

datatype effect = Changed catalog | Rewritten catalog | Refused | Undocumented

definition exec_table :: "parsed_table \<Rightarrow> string \<Rightarrow> catalog \<Rightarrow> effect" where
  "exec_table t s cat =
     (let names = map pc_Name (pt_Columns t); pk = map (spelled names) (key_names t)
      in if pt_IfNotExists t then Undocumented
         else if taken cat (pt_Name t) \<or> sqlite_reserved (pt_Name t) \<or> \<not> distinct (map foldASCII names) \<or>
           length pk > 32767 \<or> None \<in> set pk \<or> taken cat (''sqlite_autoindex_'' @ pt_Name t @ ''_1'') then Refused
         else if length (filter pc_PrimaryKey (pt_Columns t)) > (if pt_PrimaryKey t = [] then 1 else 0) then Undocumented
         else Changed (add_object (made_table t (map the pk) s)
           (if list_ex pc_AutoIncrement (pt_Columns t) \<and> object_named cat ''sqlite_sequence'' = None
            then add_object sequence_table cat else cat)))"

definition exec_index :: "parsed_index \<Rightarrow> string \<Rightarrow> catalog \<Rightarrow> effect" where
  "exec_index i s cat =
     (if taken cat (pi_Name i) \<or> sqlite_reserved (pi_Name i) \<or> length (pi_Columns i) > 32767 then Refused
      else case object_named cat (pi_Table i) of
          None \<Rightarrow> Refused
        | Some ob \<Rightarrow>
            (let cols = map (spelled (map ce_name (oe_columns ob))) (pi_Columns i)
             in if oe_kind ob = View \<or> sqlite_reserved (oe_name ob) then Refused
                else if read_create_table (oe_sql ob) = None \<or> None \<in> set cols then Undocumented
                else Changed (add_index (oe_name ob) (made_index (pi_Name i) (pi_Unique i) ''c'' (Some (Some s)) (map the cols)) cat)))"

definition marker_shape :: parsed_table where
  "marker_shape =
     (let col = \<lambda>n. \<lparr>pc_Name = n, pc_Type = ''TEXT'', pc_NotNull = True, pc_PrimaryKey = False, pc_AutoIncrement = False\<rparr>
      in \<lparr>pt_IfNotExists = False, pt_Name = timeMarkerTable, pt_Columns = [col ''collection_name'', col ''column_name''],
          pt_PrimaryKey = [''collection_name'', ''column_name'']\<rparr>)"

definition marker_object :: object_entry where
  "marker_object = made_table marker_shape (pt_PrimaryKey marker_shape) []"

text \<open>The text of a table that IF NOT EXISTS made is kept without these words.\<close>

definition marker_table_text :: "nat \<Rightarrow> string" where
  "marker_table_text tabs = ''CREATE TABLE '' @ drop 27 (create_marker_table_sql tabs)"

definition exec_marker_table :: "nat \<Rightarrow> catalog \<Rightarrow> effect" where
  "exec_marker_table tabs cat =
     (case object_named cat timeMarkerTable of
        Some ob \<Rightarrow> Changed cat
      | None \<Rightarrow> exec_table marker_shape (marker_table_text tabs) (cat\<lparr>cat_markers := []\<rparr>))"

definition exec_marker :: "sqlval list \<Rightarrow> catalog \<Rightarrow> effect" where
  "exec_marker args cat =
     (case args of
        [V_Text a, V_Text b] \<Rightarrow>
          (case object_named cat timeMarkerTable of
             None \<Rightarrow> Refused
           | Some ob \<Rightarrow> if ob\<lparr>oe_sql := []\<rparr> \<noteq> marker_object then Undocumented
               else Changed (if (a, b) \<in> set (cat_markers cat) then cat
               else cat\<lparr>cat_markers := cat_markers cat @ [(a, b)]\<rparr>))
      | _ \<Rightarrow> Undocumented)"

definition exec_unmark :: "sqlval list \<Rightarrow> catalog \<Rightarrow> effect" where
  "exec_unmark args cat =
     (case args of
        [V_Text a] \<Rightarrow>
          (case object_named cat timeMarkerTable of
             None \<Rightarrow> Refused
           | Some ob \<Rightarrow> if ob\<lparr>oe_sql := []\<rparr> \<noteq> marker_object then Undocumented
               else Changed (cat\<lparr>cat_markers := filter (\<lambda>m. fst m \<noteq> a) (cat_markers cat)\<rparr>))
      | _ \<Rightarrow> Undocumented)"

text \<open>The markers of one column: deleted, or moved to another column that has none.\<close>

definition exec_unmark_column :: "sqlval list \<Rightarrow> catalog \<Rightarrow> effect" where
  "exec_unmark_column args cat =
     (case args of
        [V_Text a, V_Text b] \<Rightarrow>
          (case object_named cat timeMarkerTable of
             None \<Rightarrow> Refused
           | Some ob \<Rightarrow> if ob\<lparr>oe_sql := []\<rparr> \<noteq> marker_object then Undocumented
               else Changed (cat\<lparr>cat_markers := filter (\<lambda>m. m \<noteq> (a, b)) (cat_markers cat)\<rparr>))
      | _ \<Rightarrow> Undocumented)"

definition exec_remark_column :: "sqlval list \<Rightarrow> catalog \<Rightarrow> effect" where
  "exec_remark_column args cat =
     (case args of
        [V_Text new, V_Text a, V_Text old] \<Rightarrow>
          (case object_named cat timeMarkerTable of
             None \<Rightarrow> Refused
           | Some ob \<Rightarrow> if ob\<lparr>oe_sql := []\<rparr> \<noteq> marker_object then Undocumented
               else if new \<noteq> old \<and> {(a, old), (a, new)} \<subseteq> set (cat_markers cat) then Refused
               else Changed (cat\<lparr>cat_markers := map (\<lambda>m. if m = (a, old) then (a, new) else m) (cat_markers cat)\<rparr>))
      | _ \<Rightarrow> Undocumented)"

text \<open>
  A view that may read a table breaks when the table is dropped; one whose text does not contain the
  name does not read it, unless the name has a quote in it that the text may double.
\<close>

definition may_read :: "object_entry \<Rightarrow> string \<Rightarrow> bool" where
  "may_read vw n \<longleftrightarrow> go_contains (foldASCII (oe_sql vw)) (foldASCII n) \<or> set n \<inter> {CHR 0x22, CHR 0x27, CHR 0x60} \<noteq> {}"

definition exec_drop :: "bool \<Rightarrow> string \<Rightarrow> catalog \<Rightarrow> effect" where
  "exec_drop if_exists n cat =
     (case object_named cat n of
        None \<Rightarrow> if if_exists then Changed cat else Refused
      | Some ob \<Rightarrow>
          if oe_kind ob = View then Refused
          else if sqlite_reserved n \<or> foldASCII n = timeMarkerTable \<or> \<not> prefix ''CREATE TABLE '' (oe_sql ob) \<or>
            list_ex (\<lambda>vw. may_read vw n) (views cat) then Undocumented
          else Changed (drop_object n cat))"

text \<open>
  A table keeps its text with the new name put in the place of the old one, and its automatic index
  takes the new name too; what else may spell the old name is not covered.
\<close>

definition renamed_index :: "string \<Rightarrow> string \<Rightarrow> index_entry \<Rightarrow> index_entry" where
  "renamed_index old new ix =
     (if prefix (''sqlite_autoindex_'' @ old) (ie_name ix)
      then ix\<lparr>ie_name := ''sqlite_autoindex_'' @ new @ drop (17 + length old) (ie_name ix)\<rparr> else ix)"

definition table_head :: "string \<Rightarrow> string" where
  "table_head n = ''CREATE TABLE '' @ quoteIdentifier n @ '' ''"

definition renamed_object :: "string \<Rightarrow> object_entry \<Rightarrow> object_entry" where
  "renamed_object n ob = ob\<lparr>oe_name := n, oe_sql := table_head n @ drop (length (table_head (oe_name ob))) (oe_sql ob),
     oe_indexes := map (renamed_index (oe_name ob) n) (oe_indexes ob)\<rparr>"

definition targeted :: "catalog \<Rightarrow> string \<Rightarrow> bool" where
  "targeted cat n \<longleftrightarrow> list_ex (\<lambda>ob. list_ex (\<lambda>k. foldASCII (ke_target k) = foldASCII n) (oe_keys ob)) (cat_objects cat)"

definition exec_rename :: "string \<Rightarrow> string \<Rightarrow> catalog \<Rightarrow> effect" where
  "exec_rename old new cat =
     (case object_named cat old of
        None \<Rightarrow> Refused
      | Some ob \<Rightarrow>
          if oe_kind ob = View \<or> sqlite_reserved old \<or> sqlite_reserved new \<or> taken cat new \<or>
            taken cat (''sqlite_autoindex_'' @ new @ ''_1'') then Refused
          else if timeMarkerTable \<in> {foldASCII old, foldASCII new} \<or> \<not> prefix (table_head (oe_name ob)) (oe_sql ob) \<or>
            list_ex (\<lambda>ix. ie_name ix \<noteq> ''sqlite_autoindex_'' @ oe_name ob @ ''_1'' \<or> ie_ddl ix \<noteq> None) (oe_indexes ob) \<or>
            targeted cat old \<or> list_ex (\<lambda>vw. may_read vw old \<or> may_read vw new) (views cat) then Undocumented
          else Changed (add_object (renamed_object new ob) (drop_object old cat)))"

text \<open>
  The columns of a table that is not SQLite's own or the table of markers, and that no view reads. A new
  column comes last; it cannot be a key. A column is renamed wherever it is used: in its table, in the
  indexes and foreign keys of that table, and in the foreign keys to it. A column goes only when it is
  not the last one, not in the key, and in no index or foreign key of its table.
\<close>

definition update_object :: "string \<Rightarrow> (object_entry \<Rightarrow> object_entry) \<Rightarrow> catalog \<Rightarrow> catalog" where
  "update_object n f cat = cat\<lparr>cat_objects := map (\<lambda>ob. if foldASCII (oe_name ob) = foldASCII n then f ob else ob) (cat_objects cat)\<rparr>"

definition column_of :: "parsed_column \<Rightarrow> column_entry" where
  "column_of pc = \<lparr>ce_name = pc_Name pc, ce_type = pc_Type pc, ce_notnull = pc_NotNull pc, ce_default = None, ce_pk = 0, ce_hidden = 0\<rparr>"

definition on_column_table :: "catalog \<Rightarrow> string \<Rightarrow> (object_entry \<Rightarrow> effect) \<Rightarrow> effect" where
  "on_column_table cat n f =
     (case object_named cat n of
        None \<Rightarrow> Refused
      | Some ob \<Rightarrow>
          if oe_kind ob = View \<or> sqlite_reserved n then Refused
          else if foldASCII n = timeMarkerTable \<or> list_ex (\<lambda>vw. may_read vw n) (views cat) then Undocumented
          else f ob)"

definition add_column :: "column_entry \<Rightarrow> object_entry \<Rightarrow> object_entry" where
  "add_column ce ob = ob\<lparr>oe_columns := oe_columns ob @ [ce]\<rparr>"

definition exec_add_column :: "string \<Rightarrow> parsed_column \<Rightarrow> catalog \<Rightarrow> effect" where
  "exec_add_column n pc cat = on_column_table cat n (\<lambda>ob.
     if pc_PrimaryKey pc \<or> spelled (map ce_name (oe_columns ob)) (pc_Name pc) \<noteq> None then Refused
     else Rewritten (update_object n (add_column (column_of pc)) cat))"

definition renamed_name :: "string \<Rightarrow> string \<Rightarrow> string \<Rightarrow> string" where
  "renamed_name old new n = (if foldASCII n = foldASCII old then new else n)"

definition rename_column :: "string \<Rightarrow> string \<Rightarrow> object_entry \<Rightarrow> object_entry" where
  "rename_column old new ob = ob\<lparr>
     oe_columns := map (\<lambda>ce. ce\<lparr>ce_name := renamed_name old new (ce_name ce)\<rparr>) (oe_columns ob),
     oe_indexes := map (\<lambda>ix. ix\<lparr>ie_terms := map (\<lambda>t. t\<lparr>te_column := map_option (renamed_name old new) (te_column t)\<rparr>) (ie_terms ix)\<rparr>)
       (oe_indexes ob),
     oe_keys := map (\<lambda>k. k\<lparr>ke_columns := map (\<lambda>(i, c, r). (i, renamed_name old new c, r)) (ke_columns k)\<rparr>) (oe_keys ob)\<rparr>"

definition rename_target :: "string \<Rightarrow> string \<Rightarrow> string \<Rightarrow> object_entry \<Rightarrow> object_entry" where
  "rename_target n old new ob =
     (if oe_kind ob = View then ob
      else ob\<lparr>oe_keys := map (\<lambda>k. if foldASCII (ke_target k) = foldASCII n
        then k\<lparr>ke_columns := map (\<lambda>(i, c, r). (i, c, map_option (renamed_name old new) r)) (ke_columns k)\<rparr> else k) (oe_keys ob)\<rparr>)"

definition rename_in_catalog :: "string \<Rightarrow> string \<Rightarrow> string \<Rightarrow> catalog \<Rightarrow> catalog" where
  "rename_in_catalog n old new cat =
     (let cat = update_object n (rename_column old new) cat
      in cat\<lparr>cat_objects := map (rename_target n old new) (cat_objects cat)\<rparr>)"

definition exec_rename_column :: "string \<Rightarrow> string \<Rightarrow> string \<Rightarrow> catalog \<Rightarrow> effect" where
  "exec_rename_column n old new cat = on_column_table cat n (\<lambda>ob.
     if spelled (map ce_name (oe_columns ob)) old = None \<or>
       foldASCII new \<noteq> foldASCII old \<and> spelled (map ce_name (oe_columns ob)) new \<noteq> None then Refused
     else Rewritten (rename_in_catalog n old new cat))"

definition drop_column :: "string \<Rightarrow> object_entry \<Rightarrow> object_entry" where
  "drop_column c ob = ob\<lparr>oe_columns := filter (\<lambda>ce. foldASCII (ce_name ce) \<noteq> foldASCII c) (oe_columns ob)\<rparr>"

definition uses_column :: "object_entry \<Rightarrow> string \<Rightarrow> bool" where
  "uses_column ob c \<longleftrightarrow>
     list_ex (\<lambda>ce. foldASCII (ce_name ce) = foldASCII c \<and> ce_pk ce > 0) (oe_columns ob) \<or>
     list_ex (\<lambda>ix. list_ex (\<lambda>t. te_key t \<and> map_option foldASCII (te_column t) = Some (foldASCII c)) (ie_terms ix)) (oe_indexes ob) \<or>
     list_ex (\<lambda>k. list_ex (\<lambda>(i, n, r). foldASCII n = foldASCII c) (ke_columns k)) (oe_keys ob)"

definition exec_drop_column :: "string \<Rightarrow> string \<Rightarrow> catalog \<Rightarrow> effect" where
  "exec_drop_column n c cat = on_column_table cat n (\<lambda>ob.
     if spelled (map ce_name (oe_columns ob)) c = None \<or> length (oe_columns ob) = 1 \<or> uses_column ob c then Refused
     else Rewritten (update_object n (drop_column c) cat))"

text \<open>An index is dropped by its name alone, whichever table it is on; that of a key or a constraint stays.\<close>

definition remove_index :: "string \<Rightarrow> catalog \<Rightarrow> catalog" where
  "remove_index n cat = cat\<lparr>cat_objects :=
     map (\<lambda>ob. ob\<lparr>oe_indexes := filter (\<lambda>ix. foldASCII (ie_name ix) \<noteq> foldASCII n) (oe_indexes ob)\<rparr>) (cat_objects cat)\<rparr>"

definition exec_drop_index :: "bool \<Rightarrow> string \<Rightarrow> catalog \<Rightarrow> effect" where
  "exec_drop_index if_exists n cat =
     (case find (\<lambda>ix. foldASCII (ie_name ix) = foldASCII n) (all_indexes cat) of
        None \<Rightarrow> if if_exists then Changed cat else Refused
      | Some ix \<Rightarrow> if ie_origin ix \<noteq> ''c'' then Refused
          else if sqlite_reserved n then Undocumented else Changed (remove_index n cat))"

text \<open>Rows do not show in a catalog, those of the markers and of SQLite's own tables apart.\<close>

definition exec_insert :: "string \<Rightarrow> catalog \<Rightarrow> effect" where
  "exec_insert n cat =
     (case object_named cat n of
        None \<Rightarrow> Refused
      | Some ob \<Rightarrow> if oe_kind ob = View \<or> sqlite_reserved n \<or> foldASCII n = timeMarkerTable then Undocumented else Changed cat)"

fun exec_statement :: "statement \<Rightarrow> string \<Rightarrow> sqlval list \<Rightarrow> catalog \<Rightarrow> effect" where
  "exec_statement (Make_Markers tabs) q args cat = exec_marker_table tabs cat"
| "exec_statement Add_Marker q args cat = exec_marker args cat"
| "exec_statement Delete_Markers q args cat = exec_unmark args cat"
| "exec_statement Delete_Marker q args cat = exec_unmark_column args cat"
| "exec_statement Rename_Marker q args cat = exec_remark_column args cat"
| "exec_statement (Create_Table t) q args cat = exec_table t q cat"
| "exec_statement (Create_Index i) q args cat = exec_index i q cat"
| "exec_statement (Drop_Table if_exists n) q args cat = exec_drop if_exists n cat"
| "exec_statement (Rename_Table old new) q args cat = exec_rename old new cat"
| "exec_statement (Insert_Into n) q args cat = exec_insert n cat"
| "exec_statement (Unindex if_exists n) q args cat = exec_drop_index if_exists n cat"
| "exec_statement (Add_Column n pc) q args cat = exec_add_column n pc cat"
| "exec_statement (Drop_Column n c) q args cat = exec_drop_column n c cat"
| "exec_statement (Rename_Column n old new) q args cat = exec_rename_column n old new cat"

definition catalog_exec :: "string \<Rightarrow> sqlval list \<Rightarrow> catalog \<Rightarrow> effect" where
  "catalog_exec q args cat =
     (case read_statement q of Some stmt \<Rightarrow> exec_statement stmt q args cat | None \<Rightarrow> Undocumented)"

text \<open>Two catalogs that differ in the texts of tables and of their indexes only.\<close>

definition textless_index :: "index_entry \<Rightarrow> index_entry" where
  "textless_index ix = ix\<lparr>ie_ddl := map_option (\<lambda>_. None) (ie_ddl ix)\<rparr>"

definition textless :: "object_entry \<Rightarrow> object_entry" where
  "textless ob = (if oe_kind ob = View then ob else ob\<lparr>oe_sql := [], oe_indexes := map textless_index (oe_indexes ob)\<rparr>)"

definition but_texts :: "catalog \<Rightarrow> catalog" where
  "but_texts cat = cat\<lparr>cat_objects := map textless (cat_objects cat)\<rparr>"

text \<open>A statement that fails has changed nothing, or has ended the transaction, which then cannot commit.\<close>

definition executes :: "'d engine \<Rightarrow> ('d \<Rightarrow> catalog) \<Rightarrow> bool" where
  "executes E cat_of \<longleftrightarrow>
     (\<forall>d. serves E (cat_of d) d) \<and>
     (\<forall>d d'. eng_begin E d = (None, d') \<longrightarrow> cat_of d' = cat_of d) \<and>
     (\<forall>d d'. eng_commit E d = (None, d') \<longrightarrow> cat_of d' = cat_of d) \<and>
     (\<forall>q args d d'. wf_catalog (cat_of d) \<longrightarrow> eng_exec E q args d = (None, d') \<longrightarrow>
        (case catalog_exec q args (cat_of d) of
           Changed cat \<Rightarrow> cat_of d' = cat | Rewritten cat \<Rightarrow> but_texts (cat_of d') = but_texts cat
         | Refused \<Rightarrow> False | Undocumented \<Rightarrow> True)) \<and>
     (\<forall>q args d e d'. eng_exec E q args d = (Some e, d') \<longrightarrow> cat_of d' = cat_of d \<or> fst (eng_commit E d') \<noteq> None)"

lemma executes_serves: "executes E cat_of \<Longrightarrow> serves E (cat_of d) d"
  by (simp add: executes_def)

section \<open>What a change leaves alone\<close>

definition agree_except :: "string set \<Rightarrow> catalog \<Rightarrow> catalog \<Rightarrow> bool" where
  "agree_except N cat cat' \<longleftrightarrow> cat_keys_on cat' = cat_keys_on cat \<and>
     (\<forall>n. foldASCII n \<notin> N \<longrightarrow> object_named cat' n = object_named cat n)"

lemma agree_refl: "agree_except N cat cat"
  by (simp add: agree_except_def)

lemma agree_trans: "agree_except N a b \<Longrightarrow> agree_except M b c \<Longrightarrow> agree_except (N \<union> M) a c"
  by (simp add: agree_except_def)

lemma agree_object: "agree_except N a b \<Longrightarrow> foldASCII n \<notin> N \<Longrightarrow> object_named b n = object_named a n"
  by (simp add: agree_except_def)

lemma set_markers [simp]:
  "object_named (cat\<lparr>cat_markers := ms\<rparr>) n = object_named cat n" "wf_catalog (cat\<lparr>cat_markers := ms\<rparr>) = wf_catalog cat"
  "marked (cat\<lparr>cat_markers := ms\<rparr>) = marked cat" "taken (cat\<lparr>cat_markers := ms\<rparr>) n = taken cat n" "agree_except N cat (cat\<lparr>cat_markers := ms\<rparr>)"
  by (simp_all add: object_named_def wf_catalog_def all_indexes_def marked_def taken_def agree_except_def)

section \<open>Well-formed catalogs stay well-formed\<close>

lemma object_named_iff:
  assumes "wf_catalog cat"
  shows "object_named cat n = Some ob \<longleftrightarrow> ob \<in> set (cat_objects cat) \<and> foldASCII (oe_name ob) = foldASCII n"
proof
  show "object_named cat n = Some ob \<Longrightarrow> ob \<in> set (cat_objects cat) \<and> foldASCII (oe_name ob) = foldASCII n"
    by (auto simp: object_named_def find_Some_iff)
  assume ob: "ob \<in> set (cat_objects cat) \<and> foldASCII (oe_name ob) = foldASCII n"
  have unique: "inj_on (\<lambda>ob. foldASCII (oe_name ob)) (set (cat_objects cat))"
    using assms by (simp add: wf_catalog_def distinct_map)
  obtain ob' where ob': "object_named cat n = Some ob'"
    using ob by (cases "object_named cat n") (auto simp: object_named_def find_None_iff)
  then have "ob' \<in> set (cat_objects cat)" "foldASCII (oe_name ob') = foldASCII n"
    by (auto simp: object_named_def find_Some_iff)
  then have "ob' = ob" using inj_onD [OF unique, of ob' ob] ob by simp
  then show "object_named cat n = Some ob" using ob' by simp
qed

lemma object_named_None: "object_named cat n = None \<longleftrightarrow> foldASCII n \<notin> foldASCII ` oe_name ` set (cat_objects cat)"
  by (simp add: object_named_def find_None_iff image_iff) metis

lemma taken_object: "\<not> taken cat n \<Longrightarrow> object_named cat n = None"
  by (auto simp: taken_def object_named_None)

lemma add_object_sel [simp]:
  "set (cat_objects (add_object ob cat)) = insert ob (set (cat_objects cat))"
  "cat_markers (add_object ob cat) = cat_markers cat"
  by (simp_all add: add_object_def set_insort_key)

lemma mset_add_object:
  "mset (all_indexes (add_object ob cat)) = mset (oe_indexes ob) + mset (all_indexes cat)"
proof -
  have "mset (concat (map oe_indexes (insort_key oe_name ob obs))) = mset (oe_indexes ob) + mset (concat (map oe_indexes obs))" for obs
    by (induction obs) auto
  then show ?thesis by (simp add: all_indexes_def add_object_def)
qed

lemma distinct_map_mset: "mset xs = mset ys \<Longrightarrow> distinct (map f xs) \<longleftrightarrow> distinct (map f ys)"
  by (rule mset_eq_imp_distinct_iff) simp

lemma wf_add_object:
  assumes "wf_catalog cat" "object_named cat (oe_name ob) = None" "wf_object ob"
    and "distinct (map (foldASCII \<circ> ie_name) (oe_indexes ob))"
    and "\<And>ix. ix \<in> set (oe_indexes ob) \<Longrightarrow> foldASCII (ie_name ix) \<notin> foldASCII ` ie_name ` set (all_indexes cat)"
  shows "wf_catalog (add_object ob cat)"
proof -
  have "distinct (map (\<lambda>ob. foldASCII (oe_name ob)) (ob # cat_objects cat))"
    using assms(1,2) by (auto simp: wf_catalog_def object_named_None)
  moreover have "mset (cat_objects (add_object ob cat)) = mset (ob # cat_objects cat)"
    by (simp add: add_object_def)
  ultimately have "distinct (map (\<lambda>ob. foldASCII (oe_name ob)) (cat_objects (add_object ob cat)))"
    using distinct_map_mset by metis
  moreover have "distinct (map (\<lambda>ix. foldASCII (ie_name ix)) (oe_indexes ob @ all_indexes cat))"
    using assms(1,4,5) by (auto simp: wf_catalog_def comp_def image_iff)
  then have "distinct (map (\<lambda>ix. foldASCII (ie_name ix)) (all_indexes (add_object ob cat)))"
    using distinct_map_mset [of "all_indexes (add_object ob cat)" "oe_indexes ob @ all_indexes cat"
        "\<lambda>ix. foldASCII (ie_name ix)"]
    by (simp only: mset_add_object mset_append)
  moreover have "list_all wf_object (cat_objects (add_object ob cat))"
    using assms(1,3) by (auto simp: wf_catalog_def list_all_iff)
  ultimately show ?thesis by (simp add: wf_catalog_def)
qed

lemma mset_add_index:
  assumes "distinct (map (\<lambda>ob. foldASCII (oe_name ob)) obs)" "ob \<in> set obs"
  shows "mset (concat (map oe_indexes (map (\<lambda>ob'. if foldASCII (oe_name ob') = foldASCII (oe_name ob)
      then ob'\<lparr>oe_indexes := ix # oe_indexes ob'\<rparr> else ob') obs))) = add_mset ix (mset (concat (map oe_indexes obs)))"
  using assms
proof (induction obs)
  case (Cons o' obs)
  show ?case
  proof (cases "o' = ob")
    case True
    then have "foldASCII (oe_name ob) \<notin> (\<lambda>ob. foldASCII (oe_name ob)) ` set obs" using Cons.prems by auto
    then have "\<forall>ob' \<in> set obs. foldASCII (oe_name ob') \<noteq> foldASCII (oe_name ob)" by (metis imageI)
    then have "map (\<lambda>ob'. if foldASCII (oe_name ob') = foldASCII (oe_name ob) then ob'\<lparr>oe_indexes := ix # oe_indexes ob'\<rparr> else ob') obs = obs"
      by (simp add: map_idI)
    then show ?thesis using True by simp
  next
    case False
    then have "ob \<in> set obs" "foldASCII (oe_name o') \<noteq> foldASCII (oe_name ob)" using Cons.prems by auto
    then show ?thesis using Cons by simp
  qed
qed simp

lemma add_index_sel:
  assumes "wf_catalog cat" "ob \<in> set (cat_objects cat)"
  shows "set (cat_objects (add_index (oe_name ob) ix cat)) =
      insert (ob\<lparr>oe_indexes := ix # oe_indexes ob\<rparr>) (set (cat_objects cat) - {ob})"
    and "cat_markers (add_index n ix cat) = cat_markers cat"
proof -
  have "inj_on (\<lambda>ob. foldASCII (oe_name ob)) (set (cat_objects cat))"
    using assms(1) by (simp add: wf_catalog_def distinct_map)
  then have "foldASCII (oe_name ob') = foldASCII (oe_name ob) \<longleftrightarrow> ob' = ob" if "ob' \<in> set (cat_objects cat)" for ob'
    using that assms(2) by (auto simp: inj_on_def)
  then show "set (cat_objects (add_index (oe_name ob) ix cat)) =
      insert (ob\<lparr>oe_indexes := ix # oe_indexes ob\<rparr>) (set (cat_objects cat) - {ob})"
    using assms(2) by (auto simp: add_index_def)
  show "cat_markers (add_index n ix cat) = cat_markers cat" by (simp add: add_index_def)
qed

lemma wf_add_index:
  assumes "wf_catalog cat" "ob \<in> set (cat_objects cat)" "\<not> taken cat (ie_name ix)"
    and "list_all (\<lambda>t. int64_range (te_seqno t)) (ie_terms ix)"
  shows "wf_catalog (add_index (oe_name ob) ix cat)"
proof -
  let ?f = "\<lambda>ob'. if foldASCII (oe_name ob') = foldASCII (oe_name ob) then ob'\<lparr>oe_indexes := ix # oe_indexes ob'\<rparr> else ob'"
  have objects: "cat_objects (add_index (oe_name ob) ix cat) = map ?f (cat_objects cat)" by (simp add: add_index_def)
  have "map (\<lambda>ob. foldASCII (oe_name ob)) (map ?f (cat_objects cat)) = map (\<lambda>ob. foldASCII (oe_name ob)) (cat_objects cat)"
    by simp
  then have "distinct (map (\<lambda>ob. foldASCII (oe_name ob)) (cat_objects (add_index (oe_name ob) ix cat)))"
    using assms(1) by (simp only: objects wf_catalog_def)
  moreover have "mset (all_indexes (add_index (oe_name ob) ix cat)) = mset (ix # all_indexes cat)"
    using mset_add_index [OF _ assms(2), of ix] assms(1) by (simp add: all_indexes_def objects wf_catalog_def)
  then have "distinct (map (\<lambda>ix. foldASCII (ie_name ix)) (all_indexes (add_index (oe_name ob) ix cat))) \<longleftrightarrow>
      distinct (map (\<lambda>ix. foldASCII (ie_name ix)) (ix # all_indexes cat))"
    by (rule distinct_map_mset)
  then have "distinct (map (\<lambda>ix. foldASCII (ie_name ix)) (all_indexes (add_index (oe_name ob) ix cat)))"
    using assms(1,3) by (auto simp: wf_catalog_def taken_def)
  moreover have "wf_object ob' \<Longrightarrow> wf_object (?f ob')" for ob'
    using assms(4) by (simp add: wf_object_def visible_def)
  then have "list_all wf_object (cat_objects (add_index (oe_name ob) ix cat))"
    using assms(1) unfolding objects wf_catalog_def list_all_iff set_map by blast
  ultimately show ?thesis by (simp add: wf_catalog_def)
qed

lemma made_index_terms:
  "length cols \<le> 32767 \<Longrightarrow> list_all (\<lambda>t. int64_range (te_seqno t)) (ie_terms (made_index n u origin ddl cols))"
  by (auto simp: made_index_def column_term_def list_all_iff in_set_enumerate_eq int64_range_def)

lemma made_index_key:
  "map te_column (filter te_key (ie_terms (made_index n u origin ddl cols))) = map Some cols"
proof -
  have "map te_column (filter te_key (map column_term (enumerate k (map Some cols @ [None])))) = map Some cols" for k
    by (induction cols arbitrary: k) (simp_all add: column_term_def)
  then show ?thesis by (simp add: made_index_def)
qed

lemma key_position_le: "key_position pk n \<le> int (length pk)"
  by (induction pk) auto

lemma wf_made_table:
  assumes "distinct (map foldASCII (map pc_Name (pt_Columns t)))" "length pk \<le> 32767"
  shows "wf_object (made_table t pk s)"
proof -
  have "distinct (map pc_Name (pt_Columns t))" using assms(1) by (simp only: distinct_map)
  then have "inj_on pc_Name (set (pt_Columns t))" "distinct (pt_Columns t)" by (simp_all add: distinct_map)
  then have "distinct (map (\<lambda>pc. key_position pk (pc_Name pc)) (filter (\<lambda>pc. 0 < key_position pk (pc_Name pc)) (pt_Columns t)))"
    using key_position_inj [of pk] by (auto simp: distinct_map inj_on_def key_position_pos)
  moreover have "int64_range (key_position pk n)" for n
    using key_position_le [of pk n] key_position_nonneg [of pk n] assms(2) by (simp add: int64_range_def)
  ultimately show ?thesis
    using made_index_terms [OF assms(2)]
    by (auto simp: wf_object_def made_table_def visible_def filter_map comp_def list_all_iff int64_range_def)
qed

end
