(* ===== verification/Ddl_Catalog.thy ===== *)
theory Ddl_Catalog
  imports Ddl_Statements
begin

text \<open>
  The catalog after CreateCollection, on an engine that executes statements as SQLite documents: what the
  table, its indexes and the marker table become, which other objects are left alone, and so
  that CreateCollection followed by DescribeCollection is the identity on the collections that survive.
  \<open>ddl_engine\<close> is such an engine.
\<close>

section \<open>What the statements of CreateCollection change\<close>

lemma spelled_self: "distinct (map foldASCII names) \<Longrightarrow> n \<in> set names \<Longrightarrow> spelled names n = Some n"
  unfolding spelled_def by (rule find_distinct) auto

lemma object_named_add:
  assumes "wf_catalog cat" "wf_catalog (add_object ob cat)"
  shows "object_named (add_object ob cat) n = (if foldASCII n = foldASCII (oe_name ob) then Some ob else object_named cat n)"
proof (cases "foldASCII n = foldASCII (oe_name ob)")
  case True
  then show ?thesis by (simp add: object_named_iff [OF assms(2)])
next
  case False
  show ?thesis
  proof (cases "object_named cat n")
    case None
    moreover from None False have "object_named (add_object ob cat) n = None"
      unfolding object_named_None by (simp add: image_iff)
    ultimately show ?thesis using False by simp
  next
    case (Some ob')
    then have "object_named (add_object ob cat) n = Some ob'"
      by (simp add: object_named_iff [OF assms(2)] object_named_iff [OF assms(1)])
    then show ?thesis using False Some by simp
  qed
qed

lemma keys_on_kept [simp]: "cat_keys_on (add_object ob cat) = cat_keys_on cat" "cat_keys_on (add_index n ix cat) = cat_keys_on cat"
  by (simp_all add: add_object_def add_index_def)

lemma agree_add_object:
  assumes "wf_catalog cat" "wf_catalog (add_object ob cat)"
  shows "agree_except {foldASCII (oe_name ob)} cat (add_object ob cat)"
  by (simp add: agree_except_def object_named_add [OF assms])

lemma made_table_sel [simp]: "oe_name (made_table t pk s) = pt_Name t" "oe_kind (made_table t pk s) = Table"
    "oe_sql (made_table t pk s) = s"
  by (simp_all add: made_table_def)

lemma fold_sequence: "foldASCII ''sqlite_sequence'' = ''sqlite_sequence''"
  by (simp add: foldASCII_def ascii_lower_def)

lemma fold_integer: "foldASCII ''INTEGER'' = ''integer''"
  by code_simp

lemma exec_table_exact [simp]: "exec_table t s cat \<noteq> Rewritten cat'"
  by (simp add: exec_table_def Let_def)

lemma wf_add_sequence:
  assumes "wf_catalog cat" "object_named cat ''sqlite_sequence'' = None"
  shows "wf_catalog (add_object sequence_table cat)"
  using assms by (intro wf_add_object) (auto simp: sequence_table_def wf_object_def visible_def int64_range_def)

lemma with_sequence_table:
  assumes "wf_catalog cat"
    and "cat1 = (if auto \<and> object_named cat ''sqlite_sequence'' = None then add_object sequence_table cat else cat)"
  shows "wf_catalog cat1" "cat_markers cat1 = cat_markers cat" "set (all_indexes cat1) = set (all_indexes cat)"
    "agree_except {''sqlite_sequence''} cat cat1" "set (cat_objects cat1) \<subseteq> {sequence_table} \<union> set (cat_objects cat)"
proof -
  have "wf_catalog (add_object sequence_table cat) \<and> set (all_indexes (add_object sequence_table cat)) = set (all_indexes cat) \<and>
      agree_except {''sqlite_sequence''} cat (add_object sequence_table cat)"
    if none: "object_named cat ''sqlite_sequence'' = None"
  proof -
    note wf = wf_add_sequence [OF assms(1) none]
    have "mset (all_indexes (add_object sequence_table cat)) = mset (all_indexes cat)"
      unfolding mset_add_object by (simp add: sequence_table_def)
    moreover have "foldASCII (oe_name sequence_table) = ''sqlite_sequence''" by (simp add: sequence_table_def fold_sequence)
    ultimately show ?thesis using wf agree_add_object [OF assms(1) wf] mset_eq_setD by auto
  qed
  then show "wf_catalog cat1" "cat_markers cat1 = cat_markers cat" "set (all_indexes cat1) = set (all_indexes cat)"
    "agree_except {''sqlite_sequence''} cat cat1"
    using assms(1) agree_refl by (auto simp: assms(2))
  show "set (cat_objects cat1) \<subseteq> {sequence_table} \<union> set (cat_objects cat)" by (auto simp: assms(2))
qed

lemma exec_table_Changed:
  assumes "wf_catalog cat" "exec_table t s cat = Changed cat'"
  obtains pk where "wf_catalog cat'" "cat_markers cat' = cat_markers cat"
    "map Some pk = map (spelled (map pc_Name (pt_Columns t))) (key_names t)" "made_table t pk s \<in> set (cat_objects cat')"
    "distinct (map foldASCII (map pc_Name (pt_Columns t)))" "\<not> sqlite_reserved (pt_Name t)"
    "agree_except {foldASCII (pt_Name t), ''sqlite_sequence''} cat cat'" "object_named cat (pt_Name t) = None"
    "set (cat_objects cat') \<subseteq> {made_table t pk s, sequence_table} \<union> set (cat_objects cat)"
proof -
  let ?cols = "map (spelled (map pc_Name (pt_Columns t))) (key_names t)"
  define pk where "pk = map the ?cols"
  define cat1 where "cat1 = (if list_ex pc_AutoIncrement (pt_Columns t) \<and> object_named cat ''sqlite_sequence'' = None
     then add_object sequence_table cat else cat)"
  have ok: "\<not> taken cat (pt_Name t)" "\<not> sqlite_reserved (pt_Name t)" "distinct (map foldASCII (map pc_Name (pt_Columns t)))"
    "length pk \<le> 32767" "None \<notin> set ?cols" "\<not> taken cat (''sqlite_autoindex_'' @ pt_Name t @ ''_1'')"
    and cat': "cat' = add_object (made_table t pk s) cat1"
    using assms(2) by (auto simp: exec_table_def Let_def pk_def cat1_def split: if_splits)
  have pk: "map Some pk = ?cols"
    unfolding pk_def map_map using ok(5) by (intro map_cong) (auto simp: image_iff)
  have name: "foldASCII (pt_Name t) \<noteq> ''sqlite_sequence''"
    using ok(2) by (auto simp: sqlite_reserved_def)
  note cat1 = with_sequence_table [OF assms(1) cat1_def]
  have wf: "wf_catalog cat'"
    unfolding cat'
  proof (rule wf_add_object [OF cat1(1)])
    show "object_named cat1 (oe_name (made_table t pk s)) = None"
      using agree_object [OF cat1(4)] name taken_object [OF ok(1)] by simp
    show "wf_object (made_table t pk s)" by (rule wf_made_table [OF ok(3,4)])
    show "distinct (map (foldASCII \<circ> ie_name) (oe_indexes (made_table t pk s)))" by (simp add: made_table_def)
    show "foldASCII (ie_name ix) \<notin> foldASCII ` ie_name ` set (all_indexes cat1)" if "ix \<in> set (oe_indexes (made_table t pk s))" for ix
      using that ok(6) unfolding cat1(3) by (auto simp: made_table_def made_index_def taken_def image_Un image_image split: if_splits)
  qed
  show thesis
  proof (rule that [OF wf _ pk _ ok(3,2) _ taken_object [OF ok(1)]])
    show "set (cat_objects cat') \<subseteq> {made_table t pk s, sequence_table} \<union> set (cat_objects cat)"
      using cat1(5) by (auto simp: cat')
    show "cat_markers cat' = cat_markers cat" "made_table t pk s \<in> set (cat_objects cat')"
      by (simp_all add: cat' cat1(2))
    show "agree_except {foldASCII (pt_Name t), ''sqlite_sequence''} cat cat'"
      using agree_trans [OF cat1(4) agree_add_object [OF cat1(1) wf [unfolded cat']]] by (simp add: cat' insert_commute)
  qed
qed

text \<open>A definition whose fields have distinct names, the key among them.\<close>

definition keyed :: "collection_def \<Rightarrow> bool" where
  "keyed c \<longleftrightarrow> cd_Fields c \<noteq> [] \<and> distinct (map fd_Name (cd_Fields c)) \<and> set (cd_PrimaryKey c) \<subseteq> set (map fd_Name (cd_Fields c))"

lemma portable_keyed: "portable c \<Longrightarrow> keyed c"
  by (simp add: portable_def keyed_def)

lemma key_names_shape:
  assumes "keyed c"
  shows "key_names (table_shape c opts) = cd_PrimaryKey c"
proof (cases "has_inline_pk c")
  case True
  then obtain k where k: "cd_PrimaryKey c = [k]" by (auto simp: has_inline_pk_def length_Suc_conv)
  have names: "k \<in> set (map fd_Name (cd_Fields c))" "distinct (map fd_Name (cd_Fields c))" using assms k by (auto simp: keyed_def)
  have "map pc_Name (filter pc_PrimaryKey (map (column_shape c) (cd_Fields c))) = filter (\<lambda>n. n = k) (map fd_Name (cd_Fields c))"
    using True k by (simp add: filter_map comp_def column_shape_def Let_def)
  also have "\<dots> = [k]"
    using filter_distinct [of "\<lambda>n. n" "map fd_Name (cd_Fields c)" k] names by simp
  finally show ?thesis using True k by (simp add: key_names_def table_shape_def)
next
  case False
  then have "filter pc_PrimaryKey (map (column_shape c) (cd_Fields c)) = []" by (auto simp: filter_empty_conv column_shape_def Let_def)
  with False show ?thesis by (auto simp: key_names_def table_shape_def)
qed

lemma made_table_created:
  assumes "buildCreateTableSQL c no_options = Inr s" "portable c" "map Some pk = map Some (cd_PrimaryKey c)"
  shows "created_table s [] (made_table (table_shape c no_options) pk s)"
proof -
  let ?t = "table_shape c no_options"
  have pk: "pk = cd_PrimaryKey c" using assms(3) by (metis option.inject list.inj_map_strong)
  have cols: "pt_Columns ?t = map (column_shape c) (cd_Fields c)" "pt_Name ?t = cd_Name c" by (simp_all add: table_shape_def)
  have "oe_columns (made_table ?t pk s) = map (created_column ?t) (pt_Columns ?t)"
    using created_key [of c no_options] by (auto simp: made_table_def cols pk created_column_def)
  moreover have "rowid_key ?t pk" if "integer_key ?t"
  proof -
    from that obtain f where f: "f \<in> set (cd_Fields c)" "pc_Type (column_shape c f) = ''INTEGER''"
        "pc_PrimaryKey (column_shape c f) \<or> pt_PrimaryKey ?t = [fd_Name f]"
      by (auto simp: integer_key_def cols)
    then have "cd_PrimaryKey c = [fd_Name f]"
      by (auto simp: column_shape_def Let_def table_shape_def has_inline_pk_def length_Suc_conv split: if_splits)
    then show ?thesis
      using f(1,2) unfolding rowid_key_def by (intro bexI [of _ "column_shape c f"]) (simp_all add: cols pk fold_integer)
  qed
  moreover have "read_create_table s = Some ?t"
    using read_built_table [OF assms(1)] assms(2) by (simp add: portable_def)
  ultimately show ?thesis
    by (auto simp: created_table_def made_table_def made_index_def)
qed

lemma object_named_add_index:
  assumes "wf_catalog cat" "wf_catalog (add_index (oe_name ob) ix cat)" "ob \<in> set (cat_objects cat)"
    and "foldASCII n \<noteq> foldASCII (oe_name ob)"
  shows "object_named (add_index (oe_name ob) ix cat) n = object_named cat n"
proof (cases "object_named cat n")
  case None
  moreover from None assms(4) have "object_named (add_index (oe_name ob) ix cat) n = None"
    unfolding object_named_None by (auto simp: add_index_sel [OF assms(1,3)])
  ultimately show ?thesis by simp
next
  case (Some ob')
  then have "object_named (add_index (oe_name ob) ix cat) n = Some ob'"
    using assms(4) by (auto simp: object_named_iff [OF assms(2)] object_named_iff [OF assms(1)] add_index_sel [OF assms(1,3)])
  then show ?thesis using Some by simp
qed

text \<open>A table on which an index can be made.\<close>

definition indexable :: "catalog \<Rightarrow> object_entry \<Rightarrow> bool" where
  "indexable cat ob \<longleftrightarrow>
     wf_catalog cat \<and> ob \<in> set (cat_objects cat) \<and> oe_kind ob = Table \<and> \<not> sqlite_reserved (oe_name ob) \<and>
     read_create_table (oe_sql ob) \<noteq> None \<and> distinct (map foldASCII (map ce_name (oe_columns ob)))"

lemma exec_index_Changed:
  assumes "indexable cat ob" "pi_Table i = oe_name ob" "set (pi_Columns i) \<subseteq> set (map ce_name (oe_columns ob))"
    and "exec_index i s cat \<noteq> Refused"
  obtains ix where "exec_index i s cat = Changed (add_index (oe_name ob) ix cat)"
    "indexable (add_index (oe_name ob) ix cat) (ob\<lparr>oe_indexes := ix # oe_indexes ob\<rparr>)"
    "catalog_index ix = (pi_Name i, pi_Unique i, map Some (pi_Columns i))" "ie_origin ix = ''c''"
proof -
  let ?names = "map ce_name (oe_columns ob)"
  let ?cols = "map (spelled ?names) (pi_Columns i)"
  define ix where "ix = made_index (pi_Name i) (pi_Unique i) ''c'' (Some (Some s)) (map the ?cols)"
  have cat: "wf_catalog cat" "ob \<in> set (cat_objects cat)" "distinct (map foldASCII ?names)"
    using assms(1) by (auto simp: indexable_def)
  have cols: "?cols = map Some (pi_Columns i)"
    using spelled_self [OF cat(3)] assms(3) by (intro map_cong) auto
  have found: "object_named cat (oe_name ob) = Some ob"
    using cat by (simp add: object_named_iff)
  have ok: "\<not> taken cat (pi_Name i)" "length (pi_Columns i) \<le> 32767"
    and run: "exec_index i s cat = Changed (add_index (oe_name ob) ix cat)"
    using assms(1,2,4) found by (auto simp: exec_index_def indexable_def ix_def cols Let_def split: if_splits)
  have wf: "wf_catalog (add_index (oe_name ob) ix cat)"
    using wf_add_index [OF cat(1,2), of ix] ok made_index_terms [of "map the ?cols"]
    by (simp add: ix_def made_index_def cols)
  show thesis
  proof (rule that [OF run])
    show "indexable (add_index (oe_name ob) ix cat) (ob\<lparr>oe_indexes := ix # oe_indexes ob\<rparr>)"
      using assms(1) wf by (simp add: indexable_def add_index_sel [OF cat(1,2)])
    show "catalog_index ix = (pi_Name i, pi_Unique i, map Some (pi_Columns i))"
      using made_index_key by (simp add: catalog_index_def ix_def cols comp_def made_index_def)
    show "ie_origin ix = ''c''" by (simp add: ix_def made_index_def)
  qed
qed

section \<open>Which statement is which\<close>

lemma built_texts:
  "buildCreateTableSQL c no_options = Inr s \<Longrightarrow> \<exists>r. s = ''CREATE TABLE \"'' @ r"
  "buildCreateIndexSQL i no_options = Inr s \<Longrightarrow> \<exists>r. s = ''CREATE INDEX '' @ r \<or> s = ''CREATE UNIQUE'' @ r"
  by (auto simp: buildCreateTableSQL_def buildCreateIndexSQL_def Let_def quoteIdentifier_def split: sum.splits if_splits)

definition marker_texts :: "string list" where
  "marker_texts = [create_marker_table_sql 4, create_marker_table_sql 3, insert_marker_sql, delete_markers_sql,
     delete_marker_sql, rename_marker_sql]"

lemma distinct_marker_texts: "distinct marker_texts"
  by code_simp

lemma other_texts:
  assumes "s = ''CREATE TABLE \"'' @ r \<or> s = ''CREATE INDEX '' @ r \<or> s = ''CREATE UNIQUE'' @ r \<or> s = ''DROP'' @ r \<or>
     s = ''INSERT INTO'' @ r \<or> s = ''ALTER'' @ r"
  shows "s \<notin> set marker_texts"
  using assms by (auto simp: marker_texts_def create_marker_table_sql_def insert_marker_sql_def delete_markers_sql_def
      delete_marker_sql_def rename_marker_sql_def)

lemma read_statement_other:
  assumes "s \<notin> set marker_texts"
  shows "read_statement s = (case read_create_table s of
      Some t \<Rightarrow> Some (Create_Table t)
    | None \<Rightarrow> (case read_create_index s of
        Some i \<Rightarrow> Some (Create_Index i)
      | None \<Rightarrow> (case sql_lex s of Some ts \<Rightarrow> token_statement ts | None \<Rightarrow> None)))"
  using assms by (simp add: read_statement_def marker_texts_def)

lemma read_statement_table:
  assumes "buildCreateTableSQL c no_options = Inr s" "keyed c"
  shows "read_statement s = Some (Create_Table (table_shape c no_options))"
proof -
  have "s \<notin> set marker_texts"
    using built_texts(1) [OF assms(1)] other_texts by metis
  then show ?thesis
    using read_built_table [OF assms(1)] assms(2) by (simp add: read_statement_other keyed_def)
qed

lemma read_statement_index:
  assumes "buildCreateIndexSQL i no_options = Inr s"
  shows "read_statement s = Some (Create_Index
    \<lparr>pi_Unique = ix_Unique i, pi_Name = ix_Name i, pi_Table = ix_Collection i, pi_Columns = ix_Fields i\<rparr>)"
proof -
  have "s \<notin> set marker_texts"
    using built_texts(2) [OF assms(1)] other_texts by metis
  moreover have "read_create_table s = None"
    using built_index_tokens [OF assms] by (auto simp: read_create_table_def)
  ultimately show ?thesis
    using read_built_index [OF assms] by (simp add: read_statement_other)
qed

text \<open>A text whose first word is DROP, INSERT INTO or ALTER is known by its tokens.\<close>

lemma read_statement_tokens:
  assumes "sql_lex s = Some (Word w # ts)" "w \<noteq> ''CREATE''"
    and "s = ''DROP'' @ r \<or> s = ''INSERT INTO'' @ r \<or> s = ''ALTER'' @ r"
  shows "read_statement s = token_statement (Word w # ts)"
proof -
  have "s \<notin> set marker_texts"
    using assms(3) other_texts by metis
  moreover have "read_create_table s = None" "read_create_index s = None"
    using assms(1,2) by (auto simp: read_create_table_def read_create_index_def split: list.splits)
  ultimately show ?thesis by (simp add: read_statement_other assms(1))
qed

lemma read_statement_drop: "read_statement (buildDropTableSQL n opts) = Some (Drop_Table (opt_IfExists opts) n)"
proof -
  have "\<exists>r. buildDropTableSQL n opts = ''DROP'' @ r" by (simp add: buildDropTableSQL_def)
  then obtain r where r: "buildDropTableSQL n opts = ''DROP'' @ r" by blast
  have "sql_lex (buildDropTableSQL n opts) = Some (Word ''DROP'' # Word ''TABLE'' #
      (if opt_IfExists opts then [Word ''IF'', Word ''EXISTS''] else []) @ [Ident n])"
    using drop_and_alter_tokens [of n opts] by simp
  from read_statement_tokens [OF this] r show ?thesis by (auto simp: token_statement_def read_drop_def)
qed

lemma catalog_exec_table:
  assumes "buildCreateTableSQL c no_options = Inr s" "keyed c"
  shows "catalog_exec s args cat = exec_table (table_shape c no_options) s cat"
  by (simp add: catalog_exec_def read_statement_table [OF assms])

lemma catalog_exec_index:
  assumes "buildCreateIndexSQL i no_options = Inr s"
  shows "catalog_exec s args cat = exec_index
    \<lparr>pi_Unique = ix_Unique i, pi_Name = ix_Name i, pi_Table = ix_Collection i, pi_Columns = ix_Fields i\<rparr> s cat"
  by (simp add: catalog_exec_def read_statement_index [OF assms])

lemma catalog_exec_drop: "catalog_exec (buildDropTableSQL n opts) args cat = exec_drop (opt_IfExists opts) n cat"
  by (simp add: catalog_exec_def read_statement_drop)

lemma catalog_exec_markers:
  "tabs \<in> {3, 4} \<Longrightarrow> catalog_exec (create_marker_table_sql tabs) args cat = exec_marker_table tabs cat"
  "catalog_exec insert_marker_sql args cat = exec_marker args cat"
  "catalog_exec delete_markers_sql args cat = exec_unmark args cat"
  "catalog_exec delete_marker_sql args cat = exec_unmark_column args cat"
  "catalog_exec rename_marker_sql args cat = exec_remark_column args cat"
  using distinct_marker_texts by (auto simp: catalog_exec_def read_statement_def marker_texts_def)

lemma executed:
  assumes "executes E cat_of" "wf_catalog (cat_of d)" "eng_exec E q args d = (None, d')"
  shows "catalog_exec q args (cat_of d) \<noteq> Refused"
    and "catalog_exec q args (cat_of d) = Changed cat \<Longrightarrow> cat_of d' = cat"
    and "catalog_exec q args (cat_of d) = Rewritten cat \<Longrightarrow> but_texts (cat_of d') = but_texts cat"
proof -
  have "case catalog_exec q args (cat_of d) of Changed cat \<Rightarrow> cat_of d' = cat
      | Rewritten cat \<Rightarrow> but_texts (cat_of d') = but_texts cat | Refused \<Rightarrow> False | Undocumented \<Rightarrow> True"
    using assms unfolding executes_def by blast
  then show "catalog_exec q args (cat_of d) \<noteq> Refused" "catalog_exec q args (cat_of d) = Changed cat \<Longrightarrow> cat_of d' = cat"
    "catalog_exec q args (cat_of d) = Rewritten cat \<Longrightarrow> but_texts (cat_of d') = but_texts cat"
    by (auto split: effect.splits)
qed

lemma exec_all_Cons:
  "exec_all E ((q, args) # stmts) d = (None, d') \<longleftrightarrow>
     (\<exists>d1. eng_exec E q args d = (None, d1) \<and> exec_all E stmts d1 = (None, d'))"
  by (auto split: prod.splits option.splits)

lemma run_indexes:
  assumes "executes E cat_of"
  shows "list_all2 (\<lambda>i s. buildCreateIndexSQL i no_options = Inr s) idxs sqls \<Longrightarrow> indexable (cat_of d) ob \<Longrightarrow>
    \<forall>i \<in> set idxs. ix_Collection i = oe_name ob \<and> set (ix_Fields i) \<subseteq> set (map ce_name (oe_columns ob)) \<Longrightarrow>
    exec_all E (map (\<lambda>s. (s, [])) sqls) d = (None, d') \<Longrightarrow>
    \<exists>new. indexable (cat_of d') (ob\<lparr>oe_indexes := new @ oe_indexes ob\<rparr>) \<and>
      mset (map catalog_index new) = mset (map defined_index idxs) \<and> list_all (\<lambda>ix. ie_origin ix = ''c'') new \<and>
      cat_markers (cat_of d') = cat_markers (cat_of d) \<and> agree_except {foldASCII (oe_name ob)} (cat_of d) (cat_of d')"
proof (induction idxs sqls arbitrary: d ob rule: list_all2_induct)
  case Nil
  then show ?case by (intro exI [of _ "[]"]) (simp add: agree_refl)
next
  case (Cons i idxs s sqls)
  from Cons.prems(3) obtain d1 where d1: "eng_exec E s [] d = (None, d1)" "exec_all E (map (\<lambda>s. (s, [])) sqls) d1 = (None, d')"
    by (auto simp: exec_all_Cons simp del: exec_all.simps)
  have wf: "wf_catalog (cat_of d)" using Cons.prems(1) by (simp add: indexable_def)
  let ?i = "\<lparr>pi_Unique = ix_Unique i, pi_Name = ix_Name i, pi_Table = ix_Collection i, pi_Columns = ix_Fields i\<rparr>"
  have "exec_index ?i s (cat_of d) \<noteq> Refused" "pi_Table ?i = oe_name ob"
    "set (pi_Columns ?i) \<subseteq> set (map ce_name (oe_columns ob))"
    using executed(1) [OF assms wf d1(1)] catalog_exec_index [OF Cons.hyps(1)] Cons.prems(2) by auto
  from exec_index_Changed [OF Cons.prems(1) this(2,3,1)] obtain ix where ix: "exec_index ?i s (cat_of d) = Changed (add_index (oe_name ob) ix (cat_of d))"
      "indexable (add_index (oe_name ob) ix (cat_of d)) (ob\<lparr>oe_indexes := ix # oe_indexes ob\<rparr>)"
      "catalog_index ix = (ix_Name i, ix_Unique i, map Some (ix_Fields i))" "ie_origin ix = ''c''"
    by auto
  have cat1: "cat_of d1 = add_index (oe_name ob) ix (cat_of d)"
    using executed(2) [OF assms wf d1(1)] catalog_exec_index [OF Cons.hyps(1)] ix(1) by simp
  let ?ob = "ob\<lparr>oe_indexes := ix # oe_indexes ob\<rparr>"
  have "indexable (cat_of d1) ?ob" using ix(2) cat1 by simp
  from Cons.IH [OF this _ d1(2)] Cons.prems(2) obtain new where new:
      "indexable (cat_of d') (?ob\<lparr>oe_indexes := new @ oe_indexes ?ob\<rparr>)"
      "mset (map catalog_index new) = mset (map defined_index idxs)" "list_all (\<lambda>ix. ie_origin ix = ''c'') new"
      "cat_markers (cat_of d') = cat_markers (cat_of d1)"
      "agree_except {foldASCII (oe_name ob)} (cat_of d1) (cat_of d')"
    by auto
  have "agree_except {foldASCII (oe_name ob)} (cat_of d) (cat_of d1)"
    using object_named_add_index [OF wf] ix(2) Cons.prems(1) unfolding cat1 agree_except_def by (auto simp: indexable_def)
  from agree_trans [OF this new(5)] have "agree_except {foldASCII (oe_name ob)} (cat_of d) (cat_of d')" by simp
  moreover have "catalog_index ix = defined_index i" "cat_markers (cat_of d1) = cat_markers (cat_of d)"
    using ix(3) by (simp_all add: defined_index_def cat1 add_index_def)
  ultimately show ?case
    using new ix(4) by (intro exI [of _ "new @ [ix]"]) auto
qed

section \<open>The marker table\<close>

text \<open>A table of its name, in any letter case, is the one the driver makes.\<close>

definition markers_ok :: "catalog \<Rightarrow> bool" where
  "markers_ok cat \<longleftrightarrow> (\<forall>ob. object_named cat timeMarkerTable = Some ob \<longrightarrow> ob\<lparr>oe_sql := []\<rparr> = marker_object)"

lemma marker_names: "\<not> sqlite_reserved timeMarkerTable" "foldASCII timeMarkerTable = timeMarkerTable"
  by (simp_all add: sqlite_reserved_def timeMarkerTable_def foldASCII_def ascii_lower_def)

lemma marker_object_sel [simp]: "oe_name marker_object = timeMarkerTable" "oe_kind marker_object = Table"
  by (simp_all add: marker_object_def marker_shape_def Let_def)

lemma exec_marker_table_Changed:
  assumes "wf_catalog cat" "markers_ok cat" "exec_marker_table tabs cat \<noteq> Refused"
  obtains cat' ob where "exec_marker_table tabs cat = Changed cat'" "wf_catalog cat'"
    "cat_markers cat' = (if object_named cat timeMarkerTable = None then [] else cat_markers cat)"
    "object_named cat' timeMarkerTable = Some ob" "ob\<lparr>oe_sql := []\<rparr> = marker_object"
    "agree_except {timeMarkerTable, ''sqlite_sequence''} cat cat'"
proof (cases "object_named cat timeMarkerTable")
  case (Some ob)
  then show ?thesis using that [of cat ob] assms(1,2) by (simp add: exec_marker_table_def markers_ok_def agree_refl)
next
  case None
  let ?cols = "map pc_Name (pt_Columns marker_shape)"
  have shape: "pt_Name marker_shape = timeMarkerTable" "\<not> pt_IfNotExists marker_shape"
    "filter pc_PrimaryKey (pt_Columns marker_shape) = []"
    "key_names marker_shape = pt_PrimaryKey marker_shape" "map (spelled ?cols) (pt_PrimaryKey marker_shape) = map Some (pt_PrimaryKey marker_shape)"
    by (simp_all add: marker_shape_def Let_def key_names_def spelled_def foldASCII_def)
  let ?cat = "cat\<lparr>cat_markers := []\<rparr>"
  have "exec_table marker_shape (marker_table_text tabs) ?cat \<noteq> Refused"
    using assms(3) None by (simp add: exec_marker_table_def)
  then obtain cat' where run: "exec_table marker_shape (marker_table_text tabs) ?cat = Changed cat'"
    using shape by (auto simp: exec_table_def Let_def split: if_splits)
  have wf: "wf_catalog ?cat" using assms(1) by simp
  show ?thesis
  proof (rule exec_table_Changed [OF wf run])
    fix pk
    assume cat': "wf_catalog cat'" "cat_markers cat' = cat_markers ?cat"
      "map Some pk = map (spelled ?cols) (key_names marker_shape)" "made_table marker_shape pk (marker_table_text tabs) \<in> set (cat_objects cat')"
      "agree_except {foldASCII (pt_Name marker_shape), ''sqlite_sequence''} ?cat cat'"
    have pk: "pk = pt_PrimaryKey marker_shape"
      using cat'(3) unfolding shape by (metis option.inject list.inj_map_strong)
    let ?ob = "made_table marker_shape pk (marker_table_text tabs)"
    have "object_named cat' timeMarkerTable = Some ?ob"
      using cat'(4) by (simp add: object_named_iff [OF cat'(1)] shape)
    moreover have "?ob\<lparr>oe_sql := []\<rparr> = marker_object" by (simp add: pk marker_object_def made_table_def)
    moreover have "agree_except {timeMarkerTable, ''sqlite_sequence''} cat cat'"
      using cat'(5) by (simp add: agree_except_def shape marker_names)
    ultimately show ?thesis
      using that [of cat' ?ob] cat'(1,2) run None by (simp add: exec_marker_table_def)
  qed
qed

lemma run_markers:
  assumes "executes E cat_of"
  shows "wf_catalog (cat_of d) \<Longrightarrow> object_named (cat_of d) timeMarkerTable = Some ob \<Longrightarrow> ob\<lparr>oe_sql := []\<rparr> = marker_object \<Longrightarrow>
    exec_all E (map (\<lambda>col. (insert_marker_sql, [V_Text n, V_Text col])) cols) d = (None, d') \<Longrightarrow>
    cat_objects (cat_of d') = cat_objects (cat_of d) \<and> cat_keys_on (cat_of d') = cat_keys_on (cat_of d) \<and>
    set (cat_markers (cat_of d')) = Pair n ` set cols \<union> set (cat_markers (cat_of d))"
proof (induction cols arbitrary: d)
  case (Cons col cols)
  from Cons.prems(4) obtain d1 where d1: "eng_exec E insert_marker_sql [V_Text n, V_Text col] d = (None, d1)"
      "exec_all E (map (\<lambda>col. (insert_marker_sql, [V_Text n, V_Text col])) cols) d1 = (None, d')"
    by (auto simp: exec_all_Cons simp del: exec_all.simps)
  have "catalog_exec insert_marker_sql [V_Text n, V_Text col] (cat_of d) =
      Changed (if (n, col) \<in> set (cat_markers (cat_of d)) then cat_of d
        else cat_of d\<lparr>cat_markers := cat_markers (cat_of d) @ [(n, col)]\<rparr>)"
    using Cons.prems(2,3) by (simp add: catalog_exec_markers exec_marker_def)
  note step = executed(2) [OF assms Cons.prems(1) d1(1) this]
  then have same: "cat_objects (cat_of d1) = cat_objects (cat_of d)" "cat_keys_on (cat_of d1) = cat_keys_on (cat_of d)"
    and marks: "set (cat_markers (cat_of d1)) = insert (n, col) (set (cat_markers (cat_of d)))"
    by auto
  have "wf_catalog (cat_of d1)" "object_named (cat_of d1) timeMarkerTable = Some ob"
    using Cons.prems(1,2) by (simp_all add: wf_catalog_def all_indexes_def object_named_def same(1))
  from Cons.IH [OF this Cons.prems(3) d1(2)] show ?case using same marks by auto
qed simp

section \<open>Create, then describe\<close>

lemma one_key_clause:
  assumes "keyed c"
  shows "length (filter pc_PrimaryKey (pt_Columns (table_shape c opts))) \<le> (if pt_PrimaryKey (table_shape c opts) = [] then 1 else 0)"
proof (cases "has_inline_pk c")
  case True
  have "map pc_Name (filter pc_PrimaryKey (pt_Columns (table_shape c opts))) = cd_PrimaryKey c"
    using key_names_shape [OF assms, of opts] True by (simp add: key_names_def table_shape_def)
  then have "length (filter pc_PrimaryKey (pt_Columns (table_shape c opts))) = length (cd_PrimaryKey c)" by (metis length_map)
  then show ?thesis using True by (simp add: table_shape_def has_inline_pk_def)
next
  case False
  then have "filter pc_PrimaryKey (pt_Columns (table_shape c opts)) = []"
    by (auto simp: filter_empty_conv table_shape_def column_shape_def Let_def)
  then show ?thesis by simp
qed

lemma exec_all_append_None:
  "exec_all E (xs @ ys) d = (None, d') \<longleftrightarrow> (\<exists>d1. exec_all E xs d = (None, d1) \<and> exec_all E ys d1 = (None, d'))"
  by (auto simp: exec_all_append split: prod.splits option.splits)

lemma created_table_index:
  assumes "created_table s [] ob" "mset (map catalog_index new) = mset (map defined_index idxs)"
    and "list_all (\<lambda>ix. ie_origin ix = ''c'') new"
  shows "created_table s idxs (ob\<lparr>oe_indexes := new @ oe_indexes ob\<rparr>)"
proof -
  obtain t where t: "read_create_table s = Some t" "oe_kind ob = Table" "oe_name ob = pt_Name t" "oe_sql ob = s"
      "oe_columns ob = map (created_column t) (pt_Columns t)" "oe_keys ob = []"
      "integer_key t \<longrightarrow> list_all (\<lambda>ix. ie_origin ix \<noteq> ''pk'') (oe_indexes ob)"
      "filter (\<lambda>ix. ie_origin ix \<noteq> ''pk'') (oe_indexes ob) = []"
    using assms(1) by (auto simp: created_table_def)
  have "filter (\<lambda>ix. ie_origin ix \<noteq> ''pk'') new = new"
    using assms(3) by (auto simp: list_all_iff filter_id_conv)
  with t assms(2,3) show ?thesis
    unfolding created_table_def by (intro exI [of _ t]) (auto simp: list_all_iff)
qed

lemma run_table:
  assumes "executes E cat_of" "wf_catalog (cat_of d)" "keyed c" "buildCreateTableSQL c no_options = Inr s"
    and "eng_exec E s [] d = (None, d')"
  shows "wf_catalog (cat_of d')" "cat_markers (cat_of d') = cat_markers (cat_of d)"
    "object_named (cat_of d') (cd_Name c) = Some (made_table (table_shape c no_options) (cd_PrimaryKey c) s)"
    "agree_except {foldASCII (cd_Name c), ''sqlite_sequence''} (cat_of d) (cat_of d')"
    "object_named (cat_of d) (cd_Name c) = None" "\<not> sqlite_reserved (cd_Name c)"
    "distinct (map foldASCII (map fd_Name (cd_Fields c)))"
    "set (cat_objects (cat_of d')) \<subseteq> {made_table (table_shape c no_options) (cd_PrimaryKey c) s, sequence_table} \<union>
       set (cat_objects (cat_of d))"
proof -
  let ?t = "table_shape c no_options"
  have "exec_table ?t s (cat_of d) \<noteq> Refused"
    using executed(1) [OF assms(1,2,5)] catalog_exec_table [OF assms(4,3)] by simp
  moreover have "exec_table ?t s (cat_of d) \<noteq> Undocumented"
    using one_key_clause [OF assms(3)] by (auto simp: exec_table_def Let_def table_shape_def)
  ultimately have run: "exec_table ?t s (cat_of d) = Changed (cat_of d')"
    using executed(2) [OF assms(1,2,5)] catalog_exec_table [OF assms(4,3)] by (cases "exec_table ?t s (cat_of d)") auto
  have name: "pt_Name ?t = cd_Name c" by (simp add: table_shape_def)
  have names: "map pc_Name (pt_Columns ?t) = map fd_Name (cd_Fields c)" by (simp add: table_shape_def comp_def)
  obtain pk where cat1: "wf_catalog (cat_of d')" "cat_markers (cat_of d') = cat_markers (cat_of d)"
      "map Some pk = map (spelled (map pc_Name (pt_Columns ?t))) (key_names ?t)" "made_table ?t pk s \<in> set (cat_objects (cat_of d'))"
      "distinct (map foldASCII (map pc_Name (pt_Columns ?t)))" "\<not> sqlite_reserved (pt_Name ?t)"
      "agree_except {foldASCII (pt_Name ?t), ''sqlite_sequence''} (cat_of d) (cat_of d')"
      "object_named (cat_of d) (pt_Name ?t) = None"
      "set (cat_objects (cat_of d')) \<subseteq> {made_table ?t pk s, sequence_table} \<union> set (cat_objects (cat_of d))"
    by (rule exec_table_Changed [OF assms(2) run]) (rule that)
  have "map (spelled (map fd_Name (cd_Fields c))) (cd_PrimaryKey c) = map Some (cd_PrimaryKey c)"
    using spelled_self [OF cat1(5) [unfolded names]] assms(3) by (intro map_cong) (auto simp: keyed_def)
  then have "map Some pk = map Some (cd_PrimaryKey c)"
    using cat1(3) by (simp only: names key_names_shape [OF assms(3)])
  then have pk: "pk = cd_PrimaryKey c" by (metis option.inject list.inj_map_strong)
  show "object_named (cat_of d') (cd_Name c) = Some (made_table ?t (cd_PrimaryKey c) s)"
    using cat1(4) by (simp add: object_named_iff [OF cat1(1)] pk name)
  show "set (cat_objects (cat_of d')) \<subseteq> {made_table ?t (cd_PrimaryKey c) s, sequence_table} \<union> set (cat_objects (cat_of d))"
    using cat1(9) unfolding pk .
  show "wf_catalog (cat_of d')" "cat_markers (cat_of d') = cat_markers (cat_of d)"
    "agree_except {foldASCII (cd_Name c), ''sqlite_sequence''} (cat_of d) (cat_of d')"
    "object_named (cat_of d) (cd_Name c) = None" "\<not> sqlite_reserved (cd_Name c)"
    "distinct (map foldASCII (map fd_Name (cd_Fields c)))"
    using cat1(1,2,5-8) unfolding name names by blast+
qed

lemma run_create:
  assumes "executes E cat_of" "wf_catalog (cat_of d)" "portable c" "buildCreateTableSQL c no_options = Inr s"
    and "list_all2 (\<lambda>i s. buildCreateIndexSQL i no_options = Inr s) (cd_Indexes c) sqls"
    and "eng_exec E s [] d = (None, d1)" "exec_all E (map (\<lambda>s. (s, [])) sqls) d1 = (None, d')"
  obtains ob where "created_table s (cd_Indexes c) ob" "wf_catalog (cat_of d')"
    "object_named (cat_of d') (cd_Name c) = Some ob" "cat_markers (cat_of d') = cat_markers (cat_of d)"
    "agree_except {foldASCII (cd_Name c), ''sqlite_sequence''} (cat_of d) (cat_of d')"
    "object_named (cat_of d) (cd_Name c) = None" "\<not> sqlite_reserved (cd_Name c)" "oe_name ob = cd_Name c" "oe_kind ob = Table"
proof -
  note cat1 = run_table [OF assms(1,2) portable_keyed [OF assms(3)] assms(4,6)]
  let ?ob = "made_table (table_shape c no_options) (cd_PrimaryKey c) s"
  have name: "pt_Name (table_shape c no_options) = cd_Name c" by (simp add: table_shape_def)
  have made: "created_table s [] ?ob" by (rule made_table_created [OF assms(4,3) refl])
  have cols: "map ce_name (oe_columns ?ob) = map fd_Name (cd_Fields c)"
    by (simp add: made_table_def table_shape_def comp_def)
  have "read_create_table s \<noteq> None"
    using read_built_table [OF assms(4)] assms(3) by (simp add: portable_def)
  then have "indexable (cat_of d1) ?ob"
    using cat1(1,3,6,7) unfolding indexable_def cols object_named_iff [OF cat1(1)] by (simp add: name)
  from run_indexes [OF assms(1,5) this _ assms(7)] obtain new where cat2:
      "indexable (cat_of d') (?ob\<lparr>oe_indexes := new @ oe_indexes ?ob\<rparr>)"
      "mset (map catalog_index new) = mset (map defined_index (cd_Indexes c))" "list_all (\<lambda>ix. ie_origin ix = ''c'') new"
      "cat_markers (cat_of d') = cat_markers (cat_of d1)" "agree_except {foldASCII (cd_Name c)} (cat_of d1) (cat_of d')"
    using assms(3) cols by (auto simp: portable_def list_all_iff name)
  let ?made = "?ob\<lparr>oe_indexes := new @ oe_indexes ?ob\<rparr>"
  show thesis
  proof (rule that [of ?made])
    show "wf_catalog (cat_of d')" using cat2(1) by (simp add: indexable_def)
    then show "object_named (cat_of d') (cd_Name c) = Some ?made"
      using cat2(1) by (simp add: object_named_iff indexable_def name)
    show "agree_except {foldASCII (cd_Name c), ''sqlite_sequence''} (cat_of d) (cat_of d')"
      using agree_trans [OF cat1(4) cat2(5)] by (simp add: insert_commute)
  qed (use created_table_index [OF made cat2(2,3)] cat1(2,5,6) cat2(4) in \<open>simp_all add: name\<close>)
qed

lemma markers_ok_marked:
  assumes "wf_catalog cat" "markers_ok cat"
  shows "marked cat \<longleftrightarrow> object_named cat timeMarkerTable \<noteq> None"
proof
  assume "marked cat"
  then obtain ob where "ob \<in> set (cat_objects cat)" "oe_name ob = timeMarkerTable" by (auto simp: marked_def)
  then show "object_named cat timeMarkerTable \<noteq> None" unfolding object_named_None by force
next
  assume "object_named cat timeMarkerTable \<noteq> None"
  then obtain ob where ob: "object_named cat timeMarkerTable = Some ob" by blast
  then have "ob\<lparr>oe_sql := []\<rparr> = marker_object" using assms(2) by (simp add: markers_ok_def)
  then have "oe_name ob = timeMarkerTable" "oe_kind ob = Table"
    using marker_object_sel unfolding \<open>ob\<lparr>oe_sql := []\<rparr> = marker_object\<close> [symmetric] by simp_all
  then show "marked cat" using ob assms(1) by (auto simp: marked_def object_named_iff)
qed

lemma run_marks:
  assumes "executes E cat_of" "wf_catalog (cat_of d)" "markers_ok (cat_of d)" "tabs \<in> {3, 4}"
    and "exec_all E ((create_marker_table_sql tabs, []) # map (\<lambda>col. (insert_marker_sql, [V_Text n, V_Text col])) cols) d = (None, d')"
  shows "wf_catalog (cat_of d') \<and> agree_except {timeMarkerTable, ''sqlite_sequence''} (cat_of d) (cat_of d') \<and>
    markers_ok (cat_of d') \<and>
    (\<forall>m. spec_markers (cat_of d') m = spec_markers (cat_of d) m \<union> (if m = n then set cols else {}))"
proof -
  obtain d1 where d1: "eng_exec E (create_marker_table_sql tabs) [] d = (None, d1)"
      "exec_all E (map (\<lambda>col. (insert_marker_sql, [V_Text n, V_Text col])) cols) d1 = (None, d')"
    using assms(5) unfolding exec_all_Cons by blast
  have not_refused: "exec_marker_table tabs (cat_of d) \<noteq> Refused"
    using executed(1) [OF assms(1,2) d1(1)] by (simp add: catalog_exec_markers(1) [OF assms(4)])
  show ?thesis
  proof (rule exec_marker_table_Changed [OF assms(2,3) not_refused])
    fix cat mo
    assume cat: "exec_marker_table tabs (cat_of d) = Changed cat" "wf_catalog cat"
      "cat_markers cat = (if object_named (cat_of d) timeMarkerTable = None then [] else cat_markers (cat_of d))"
      "object_named cat timeMarkerTable = Some mo" "mo\<lparr>oe_sql := []\<rparr> = marker_object"
      "agree_except {timeMarkerTable, ''sqlite_sequence''} (cat_of d) cat"
    have same: "cat_of d1 = cat"
      using executed(2) [OF assms(1,2) d1(1)] cat(1) by (simp add: catalog_exec_markers(1) [OF assms(4)])
    note marks = run_markers [OF assms(1) _ _ cat(5) d1(2), unfolded same, OF cat(2,4)]
    have objects: "object_named (cat_of d') m = object_named cat m" for m
      using marks by (simp add: object_named_def)
    have ok: "wf_catalog (cat_of d')" "markers_ok (cat_of d')"
      using marks cat(2,4,5) by (simp_all add: wf_catalog_def all_indexes_def markers_ok_def objects)
    have marked: "marked (cat_of d') \<and> (marked (cat_of d) \<longleftrightarrow> object_named (cat_of d) timeMarkerTable \<noteq> None)"
      using markers_ok_marked [OF ok] markers_ok_marked [OF assms(2,3)] cat(4) by (simp add: objects)
    have "spec_markers (cat_of d') m = spec_markers (cat_of d) m \<union> (if m = n then set cols else {})" for m
      using marks marked by (auto simp: spec_markers_def cat(3) image_iff)
    moreover have "agree_except {timeMarkerTable, ''sqlite_sequence''} (cat_of d) (cat_of d')"
      using cat(6) marks by (simp add: agree_except_def objects)
    ultimately show ?thesis using ok by blast
  qed
qed

lemma created_catalog:
  assumes "executes E cat_of" "wf_catalog (cat_of d)" "markers_ok (cat_of d)" "portable c"
    and "foldASCII (cd_Name c) \<noteq> timeMarkerTable" "buildCreateTableSQL c no_options = Inr s"
    and "list_all2 (\<lambda>i s. buildCreateIndexSQL i no_options = Inr s) (cd_Indexes c) sqls"
    and "exec_all E (create_plan c s sqls) d = (None, d')"
  obtains ob where "wf_catalog (cat_of d')" "markers_ok (cat_of d')" "created_table s (cd_Indexes c) ob"
    "object_named (cat_of d') (cd_Name c) = Some ob" "oe_name ob = cd_Name c" "oe_kind ob = Table"
    "agree_except {foldASCII (cd_Name c), ''sqlite_sequence'', timeMarkerTable} (cat_of d) (cat_of d')"
    "\<And>m. spec_markers (cat_of d') m = spec_markers (cat_of d) m \<union> (if m = cd_Name c then set (timeColumnsOf c) else {})"
    "object_named (cat_of d) (cd_Name c) = None" "\<not> sqlite_reserved (cd_Name c)"
proof -
  let ?marks = "if timeColumnsOf c = [] then []
      else (create_marker_table_sql 4, []) # map (\<lambda>col. (insert_marker_sql, [V_Text (cd_Name c), V_Text col])) (timeColumnsOf c)"
  from assms(8) obtain d1 d2 where d1: "eng_exec E s [] d = (None, d1)"
      and d2: "exec_all E (map (\<lambda>s. (s, [])) sqls) d1 = (None, d2)" and d': "exec_all E ?marks d2 = (None, d')"
    unfolding create_plan_def exec_all_append_None by (auto simp: exec_all_Cons simp del: exec_all.simps(2))
  show thesis
  proof (rule run_create [OF assms(1,2,4,6,7) d1 d2])
    fix ob
    assume ob: "created_table s (cd_Indexes c) ob" "wf_catalog (cat_of d2)"
      "object_named (cat_of d2) (cd_Name c) = Some ob" "cat_markers (cat_of d2) = cat_markers (cat_of d)"
      "agree_except {foldASCII (cd_Name c), ''sqlite_sequence''} (cat_of d) (cat_of d2)"
      "object_named (cat_of d) (cd_Name c) = None" "\<not> sqlite_reserved (cd_Name c)" "oe_name ob = cd_Name c" "oe_kind ob = Table"
    have apart: "foldASCII timeMarkerTable \<noteq> foldASCII (cd_Name c)" "foldASCII timeMarkerTable \<noteq> ''sqlite_sequence''"
      using assms(5) by (simp_all only: marker_names) (simp_all add: timeMarkerTable_def)
    then have table: "object_named (cat_of d2) timeMarkerTable = object_named (cat_of d) timeMarkerTable"
      using agree_object [OF ob(5)] by simp
    then have ok: "markers_ok (cat_of d2)" using assms(3) by (simp add: markers_ok_def)
    have "marked (cat_of d2) \<longleftrightarrow> marked (cat_of d)"
      using markers_ok_marked [OF ob(2) ok] markers_ok_marked [OF assms(2,3)] table by simp
    then have marks2: "spec_markers (cat_of d2) m = spec_markers (cat_of d) m" for m by (simp add: spec_markers_def ob(4))
    have "wf_catalog (cat_of d') \<and> agree_except {timeMarkerTable, ''sqlite_sequence''} (cat_of d2) (cat_of d') \<and> markers_ok (cat_of d') \<and>
        (\<forall>m. spec_markers (cat_of d') m = spec_markers (cat_of d2) m \<union> (if m = cd_Name c then set (timeColumnsOf c) else {}))"
    proof (cases "timeColumnsOf c = []")
      case True
      then show ?thesis using d' ob(2) ok by (simp add: agree_refl)
    next
      case False
      then show ?thesis using run_marks [OF assms(1) ob(2) ok, of 4] d' by simp
    qed
    moreover have "foldASCII (cd_Name c) \<noteq> ''sqlite_sequence''" using ob(7) by (auto simp: sqlite_reserved_def)
    ultimately show thesis
      using agree_trans [OF ob(5), of "{timeMarkerTable, ''sqlite_sequence''}" "cat_of d'"] assms(5)
        agree_object [of "{timeMarkerTable, ''sqlite_sequence''}" "cat_of d2" "cat_of d'" "cd_Name c"] ob marks2
      by (intro that [of ob]) (auto simp: insert_commute)
  qed
qed

text \<open>A collection that CreateCollection has created, in the catalog before and after.\<close>

lemma CreateCollection_catalog:
  assumes "executes E cat_of" "wf_catalog (cat_of (pl_db p))" "markers_ok (cat_of (pl_db p))" "pl_open p = []"
    and "portable c" "foldASCII (cd_Name c) \<noteq> timeMarkerTable" "CreateCollection E c no_options p = (Ok (), q)"
  obtains s ob where "buildCreateTableSQL c no_options = Inr s" "pl_open q = []"
    "wf_catalog (cat_of (pl_db q))" "markers_ok (cat_of (pl_db q))" "created_table s (cd_Indexes c) ob"
    "object_named (cat_of (pl_db q)) (cd_Name c) = Some ob" "oe_name ob = cd_Name c" "oe_kind ob = Table"
    "agree_except {foldASCII (cd_Name c), ''sqlite_sequence'', timeMarkerTable} (cat_of (pl_db p)) (cat_of (pl_db q))"
    "\<And>m. spec_markers (cat_of (pl_db q)) m =
       spec_markers (cat_of (pl_db p)) m \<union> (if m = cd_Name c then set (timeColumnsOf c) else {})"
    "object_named (cat_of (pl_db p)) (cd_Name c) = None" "\<not> sqlite_reserved (cd_Name c)"
proof -
  have pool: "free_pool p" "pool_ok p" using assms(4) by (auto simp: free_pool_def pool_ok_def)
  obtain s sqls d0 d1 where run: "buildCreateTableSQL c no_options = Inr s"
      "map_result (\<lambda>idx. buildCreateIndexSQL (on_collection (cd_Name c) idx) no_options) (cd_Indexes c) = Inr sqls"
      "eng_begin E (pl_db p) = (None, d0)" "exec_all E (create_plan c s sqls) d0 = (None, d1)"
      "eng_commit E d1 = (None, pl_db q)" "pl_open q = pl_open p"
    by (rule CreateCollection_success [OF assms(7) pool]) (rule that)
  have same: "cat_of d0 = cat_of (pl_db p)" "cat_of (pl_db q) = cat_of d1"
    using assms(1) run(3,5) unfolding executes_def by metis+
  have "on_collection (cd_Name c) i = i" if "i \<in> set (cd_Indexes c)" for i
    using assms(5) that by (auto simp: on_collection_def portable_def list_all_iff)
  then have "list_all2 (\<lambda>i s. buildCreateIndexSQL i no_options = Inr s) (cd_Indexes c) sqls"
    using run(2) unfolding map_result_Inr_iff by (auto elim: list.rel_mono_strong)
  from created_catalog [OF assms(1) _ _ assms(5,6) run(1) this run(4), unfolded same(1), OF assms(2,3)] same(2) that run(1,6) assms(4)
  show thesis by metis
qed


section \<open>An engine that executes statements this way\<close>

text \<open>Its state is the catalog and the one at the start of the transaction.\<close>

definition ddl_engine :: "(catalog \<times> catalog) engine" where
  "ddl_engine =
     \<lparr>eng_query = (\<lambda>q args d. (catalog_query (fst d) q args, d)),
      eng_exec = (\<lambda>q args d. case catalog_exec q args (fst d) of
        Changed cat \<Rightarrow> (None, (cat, snd d)) | Rewritten cat \<Rightarrow> (None, (cat, snd d)) | _ \<Rightarrow> (Some (Sqlite_Error 1), d)),
      eng_begin = (\<lambda>d. (None, (fst d, fst d))), eng_commit = (\<lambda>d. (None, d)),
      eng_rollback = (\<lambda>d. (None, (snd d, snd d)))\<rparr>"

lemma ddl_engine_executes: "executes ddl_engine fst"
  by (auto simp: executes_def ddl_engine_def intro!: serves_catalog_query split: effect.splits)

lemma ddl_engine_transactional: "transactional ddl_engine fst snd"
  by (auto simp: transactional_def ddl_engine_def split: effect.splits option.splits)

definition person :: collection_def where
  "person = (bare_collection ''person''
     [\<lparr>fd_Name = ''nr'', fd_Type = Type_Int, fd_Precision = None, fd_Nullable = False, fd_AutoIncrement = True\<rparr>,
      \<lparr>fd_Name = ''born'', fd_Type = Type_Time, fd_Precision = None, fd_Nullable = True, fd_AutoIncrement = False\<rparr>,
      \<lparr>fd_Name = ''paid'', fd_Type = Type_Decimal, fd_Precision = Some \<lparr>prec_Total = 9, prec_Scale = 2\<rparr>,
        fd_Nullable = False, fd_AutoIncrement = False\<rparr>]
     [''nr''])\<lparr>cd_Indexes := [\<lparr>ix_Name = ''by_born'', ix_Collection = ''person'', ix_Fields = [''born''], ix_Unique = False\<rparr>]\<rparr>"

definition person_sql :: string where
  "person_sql = ''CREATE TABLE \"person\" (\"nr\" INTEGER PRIMARY KEY AUTOINCREMENT, \"born\" TEXT, \"paid\" NUMERIC NOT NULL)''"

lemma person_text: "buildCreateTableSQL person no_options = Inr person_sql"
  by (simp add: buildCreateTableSQL_def Let_def person_def map_result.simps buildColumnDecl_def has_inline_pk_def
      has_composite_pk_def quoteIdentifier_def person_sql_def)

lemma person_portable: "portable person" "plain_text person person_sql"
proof -
  show "portable person"
    by (simp add: portable_def person_def inline_key_def has_inline_pk_def bare_collection_def)
  have "\<not> go_contains (go_to_upper person_sql) ''WITHOUT ROWID''"
    unfolding person_sql_def by code_simp
  then show "plain_text person person_sql"
    by (simp add: plain_text_def has_inline_pk_def person_def)
qed


definition no_tables :: catalog where
  "no_tables = \<lparr>cat_objects = [], cat_keys_on = True, cat_markers = []\<rparr>"

definition person_index_sql :: string where
  "person_index_sql = ''CREATE INDEX \"by_born\" ON \"person\" (\"born\")''"

lemma person_index: "buildCreateIndexSQL \<lparr>ix_Name = ''by_born'', ix_Collection = ''person'', ix_Fields = [''born''], ix_Unique = False\<rparr>
    no_options = Inr person_index_sql"
  by (simp add: buildCreateIndexSQL_def quoteIdentifier_def person_index_sql_def)

lemma step_runs:
  "catalog_exec q args cat = Changed cat' \<Longrightarrow> eng_exec ddl_engine q args (cat, sv) = (None, (cat', sv))"
  by (simp add: ddl_engine_def)

definition person_table :: object_entry where
  "person_table = made_table (table_shape person no_options) [''nr''] person_sql"

definition with_person :: catalog where
  "with_person = no_tables\<lparr>cat_objects := [person_table, sequence_table]\<rparr>"

lemma person_shape:
  "table_shape person no_options =
     \<lparr>pt_IfNotExists = False, pt_Name = ''person'',
      pt_Columns = [\<lparr>pc_Name = ''nr'', pc_Type = ''INTEGER'', pc_NotNull = False, pc_PrimaryKey = True, pc_AutoIncrement = True\<rparr>,
        \<lparr>pc_Name = ''born'', pc_Type = ''TEXT'', pc_NotNull = False, pc_PrimaryKey = False, pc_AutoIncrement = False\<rparr>,
        \<lparr>pc_Name = ''paid'', pc_Type = ''NUMERIC'', pc_NotNull = True, pc_PrimaryKey = False, pc_AutoIncrement = False\<rparr>],
      pt_PrimaryKey = []\<rparr>"
  by (simp add: table_shape_def column_shape_def Let_def person_def has_inline_pk_def declared_type_def)

lemma person_step1: "catalog_exec person_sql [] no_tables = Changed with_person"
proof -
  have "foldASCII ''nr'' = ''nr''" "foldASCII ''born'' = ''born''" "foldASCII ''paid'' = ''paid''" "foldASCII ''person'' = ''person''"
    by (simp_all add: foldASCII_def ascii_lower_def)
  then show ?thesis
    by (simp add: catalog_exec_table [OF person_text portable_keyed [OF person_portable(1)]] exec_table_def person_shape Let_def taken_def
        no_tables_def all_indexes_def sqlite_reserved_def key_names_def spelled_def object_named_def with_person_def
        add_object_def person_table_def sequence_table_def made_table_def)
qed

definition with_index :: catalog where
  "with_index = add_index ''person'' (made_index ''by_born'' False ''c'' (Some (Some person_index_sql)) [''born'']) with_person"

lemma person_step2: "catalog_exec person_index_sql [] with_person = Changed with_index"
proof -
  have "foldASCII ''nr'' = ''nr''" "foldASCII ''born'' = ''born''" "foldASCII ''person'' = ''person''"
    "foldASCII ''by_born'' = ''by_born''" "foldASCII ''sqlite_sequence'' = ''sqlite_sequence''"
    by (simp_all add: foldASCII_def ascii_lower_def)
  moreover have "read_create_table person_sql = Some (table_shape person no_options)"
    using read_built_table [OF person_text] by (simp add: person_def)
  ultimately show ?thesis
    by (simp add: catalog_exec_index [OF person_index] exec_index_def Let_def taken_def no_tables_def all_indexes_def
        sqlite_reserved_def spelled_def object_named_def with_person_def person_table_def sequence_table_def made_table_def
        rowid_key_def fold_integer person_shape with_index_def)
qed

definition with_markers :: catalog where
  "with_markers = with_index\<lparr>cat_markers := [], cat_objects := made_table marker_shape (pt_PrimaryKey marker_shape) (marker_table_text 4) # cat_objects with_index\<rparr>"

lemma with_index_objects:
  "map oe_name (cat_objects with_index) = [''person'', ''sqlite_sequence'']"
  "map ie_name (all_indexes with_index) = [''by_born'']"
proof -
  have "foldASCII ''person'' = ''person''" "foldASCII ''sqlite_sequence'' = ''sqlite_sequence''"
    by (simp_all add: foldASCII_def ascii_lower_def)
  then show "map oe_name (cat_objects with_index) = [''person'', ''sqlite_sequence'']"
      "map ie_name (all_indexes with_index) = [''by_born'']"
    by (simp_all add: with_index_def add_index_def with_person_def person_table_def sequence_table_def person_shape
        made_index_def all_indexes_def made_table_def rowid_key_def fold_integer)
qed

lemma marker_folds:
  "foldASCII ''person'' = ''person''" "foldASCII ''sqlite_sequence'' = ''sqlite_sequence''"
  "foldASCII ''by_born'' = ''by_born''" "foldASCII ''_dalgo_time_columns'' = ''_dalgo_time_columns''"
  "foldASCII ''sqlite_autoindex__dalgo_time_columns_1'' = ''sqlite_autoindex__dalgo_time_columns_1''"
  "foldASCII ''collection_name'' = ''collection_name''" "foldASCII ''column_name'' = ''column_name''"
  by (simp_all add: foldASCII_def ascii_lower_def)

lemma not_taken_with_index:
  "foldASCII n = n \<Longrightarrow> n \<notin> {''person'', ''sqlite_sequence'', ''by_born''} \<Longrightarrow> \<not> taken with_index n"
  "foldASCII n = n \<Longrightarrow> n \<notin> {''person'', ''sqlite_sequence''} \<Longrightarrow> object_named with_index n = None"
proof -
  have "oe_name ` set (cat_objects with_index) = {''person'', ''sqlite_sequence''}" "ie_name ` set (all_indexes with_index) = {''by_born''}"
    using arg_cong [OF with_index_objects(1), of set] arg_cong [OF with_index_objects(2), of set] by simp_all
  then show "foldASCII n = n \<Longrightarrow> n \<notin> {''person'', ''sqlite_sequence'', ''by_born''} \<Longrightarrow> \<not> taken with_index n"
    "foldASCII n = n \<Longrightarrow> n \<notin> {''person'', ''sqlite_sequence''} \<Longrightarrow> object_named with_index n = None"
    by (simp_all add: taken_def object_named_None marker_folds)
qed

lemma person_step3: "catalog_exec (create_marker_table_sql 4) [] with_index = Changed with_markers"
proof -
  have "\<not> taken with_index ''_dalgo_time_columns''" "\<not> taken with_index ''sqlite_autoindex__dalgo_time_columns_1''"
    "object_named with_index ''_dalgo_time_columns'' = None"
    by (rule not_taken_with_index; simp add: marker_folds)+
  moreover have "insort_key oe_name (made_table marker_shape pk s) (cat_objects with_index) = made_table marker_shape pk s # cat_objects with_index" for pk s
    using with_index_objects(1) by (cases "cat_objects with_index") (simp_all add: marker_shape_def Let_def timeMarkerTable_def)
  ultimately show ?thesis
    by (simp add: catalog_exec_markers exec_marker_table_def exec_table_def marker_shape_def Let_def timeMarkerTable_def
        sqlite_reserved_def marker_folds key_names_def spelled_def add_object_def with_markers_def)
qed

lemma person_step4:
  "catalog_exec insert_marker_sql [V_Text ''person'', V_Text ''born''] with_markers =
     Changed (with_markers\<lparr>cat_markers := cat_markers with_markers @ [(''person'', ''born'')]\<rparr>)"
proof -
  have "cat_markers with_markers = []"
    by (simp add: with_markers_def with_index_def add_index_def with_person_def no_tables_def)
  moreover have "object_named with_markers timeMarkerTable = Some (made_table marker_shape (pt_PrimaryKey marker_shape) (marker_table_text 4))"
    by (simp add: object_named_def with_markers_def marker_shape_def Let_def)
  moreover have "(made_table marker_shape (pt_PrimaryKey marker_shape) (marker_table_text 4))\<lparr>oe_sql := []\<rparr> = marker_object"
    by (simp add: marker_object_def made_table_def)
  ultimately show ?thesis by (simp add: catalog_exec_markers exec_marker_def)
qed

lemma person_runs: "\<exists>q. CreateCollection ddl_engine person no_options (one_connection (no_tables, no_tables)) = (Ok (), q)"
proof -
  have indexes: "map_result (\<lambda>idx. buildCreateIndexSQL (on_collection (cd_Name person) idx) no_options) (cd_Indexes person) = Inr [person_index_sql]"
    using person_index by (simp add: person_def on_collection_def map_result.simps)
  have times: "timeColumnsOf person = [''born'']" "cd_Name person = ''person''"
    by (simp_all add: timeColumnsOf_def person_def)
  obtain d where "exec_all ddl_engine (create_plan person person_sql [person_index_sql]) (no_tables, no_tables) = (None, d)"
    by (simp add: create_plan_def times step_runs [OF person_step1] step_runs [OF person_step2] step_runs [OF person_step3]
        step_runs [OF person_step4])
  moreover have "eng_begin ddl_engine (no_tables, no_tables) = (None, (no_tables, no_tables))" "eng_commit ddl_engine d = (None, d)"
    by (simp_all add: ddl_engine_def)
  ultimately have "\<exists>q. CreateCollection ddl_engine person no_options (one_connection (no_tables, no_tables)) = (Ok (), q) \<and> pl_db q = d"
    unfolding CreateCollection_runs [OF person_text indexes one_connection_ok(1,2)] one_connection_ok(3) by blast
  then show ?thesis by blast
qed


end
