(* ===== verification/Ddl_Effects.thy ===== *)
theory Ddl_Effects
  imports Ddl_Catalog
begin

text \<open>
  What the DDL operations change for a reader, and what they leave alone: CreateCollection adds its
  collection to the list and DropCollection takes one off, and every other description stays as it was.
  The specification of the reader depends on the catalog only through the objects it looks up by name
  (\<open>describe_agree\<close>), so what a statement leaves alone, its descriptions leave alone.
\<close>

section \<open>The reader looks objects up by name\<close>

lemma described_by_name:
  assumes "wf_catalog cat"
  shows "described cat lenient n = (case object_named cat n of
      None \<Rightarrow> None
    | Some ob \<Rightarrow> if oe_name ob = n \<and> (lenient \<or> oe_kind ob = Table) then Some ob else None)"
proof (cases "described cat lenient n")
  case None
  then have "\<not> (oe_name ob = n \<and> (lenient \<or> oe_kind ob = Table))" if "ob \<in> set (cat_objects cat)" for ob
    using that by (auto simp: described_def find_None_iff)
  then show ?thesis using None object_named_iff [OF assms] by (auto split: option.splits)
next
  case (Some ob)
  then have "object_named cat n = Some ob" using described_Some [OF Some] by (simp add: object_named_iff [OF assms])
  then show ?thesis using Some described_Some [OF Some] by simp
qed

lemma spec_target_by_name:
  assumes "wf_catalog cat"
  shows "spec_target cat t = (case object_named cat t of
      None \<Rightarrow> t
    | Some ob \<Rightarrow> if oe_kind ob = Table then oe_name ob else t)"
proof (cases "find (\<lambda>n. foldASCII n = foldASCII t) (map oe_name (tables cat))")
  case None
  then have "oe_kind ob \<noteq> Table" if "object_named cat t = Some ob" for ob
    using that by (auto simp: object_named_iff [OF assms] find_None_iff tables_def)
  then show ?thesis using None by (auto simp: spec_target_def split: option.splits)
next
  case (Some n)
  then obtain ob where "ob \<in> set (cat_objects cat)" "oe_kind ob = Table" "oe_name ob = n" "foldASCII n = foldASCII t"
    using find_Some_memD [OF Some] by (auto simp: tables_def)
  moreover from this have "object_named cat t = Some ob" by (simp add: object_named_iff [OF assms])
  ultimately show ?thesis using Some by (simp add: spec_target_def)
qed

lemma target_key_by_name:
  "target_key cat t = (case object_named cat t of None \<Rightarrow> [] | Some ob \<Rightarrow> map ce_name (key_columns ob))"
  by (simp add: target_key_def object_named_def)

text \<open>An object some of whose foreign keys are to one of these names.\<close>

definition refers :: "catalog \<Rightarrow> string \<Rightarrow> string set \<Rightarrow> bool" where
  "refers cat n N \<longleftrightarrow>
     (case object_named cat n of None \<Rightarrow> False | Some ob \<Rightarrow> list_ex (\<lambda>k. foldASCII (ke_target k) \<in> N) (oe_keys ob))"

lemma spec_key_agree:
  assumes "wf_catalog cat" "wf_catalog cat'" "agree_except N cat cat'" "foldASCII (ke_target k) \<notin> N"
  shows "spec_key cat' n k = spec_key cat n k"
proof -
  have same: "object_named cat' (ke_target k) = object_named cat (ke_target k)" by (rule agree_object [OF assms(3,4)])
  then have target: "spec_target cat' (ke_target k) = spec_target cat (ke_target k)"
    by (simp only: spec_target_by_name [OF assms(1)] spec_target_by_name [OF assms(2)])
  have "foldASCII (spec_target cat (ke_target k)) = foldASCII (ke_target k)"
    by (auto simp: spec_target_by_name [OF assms(1)] object_named_iff [OF assms(1)] split: option.splits)
  then have "object_named cat' (spec_target cat (ke_target k)) = object_named cat (spec_target cat (ke_target k))"
    using agree_object [OF assms(3)] assms(4) by simp
  then show ?thesis
    using assms(3) by (simp add: spec_key_def target target_key_by_name agree_except_def)
qed

lemma describe_agree:
  assumes "wf_catalog cat" "wf_catalog cat'" "agree_except N cat cat'" "foldASCII n \<notin> N" "\<not> refers cat n N"
    and "spec_markers cat' n = spec_markers cat n"
  shows "describe_spec cat' lenient n = describe_spec cat lenient n"
proof (cases "described cat lenient n")
  case None
  then have "described cat' lenient n = None"
    using agree_object [OF assms(3,4)] by (simp add: described_by_name [OF assms(1)] described_by_name [OF assms(2)])
  then show ?thesis using None by (simp add: describe_spec_def)
next
  case (Some ob)
  have found: "described cat' lenient n = Some ob"
    using agree_object [OF assms(3,4)] Some by (simp add: described_by_name [OF assms(1)] described_by_name [OF assms(2)])
  have name: "oe_name ob = n" "object_named cat n = Some ob"
    using described_Some [OF Some] by (simp_all add: object_named_iff [OF assms(1)])
  have "map (spec_key cat' n) (oe_keys ob) = map (spec_key cat n) (oe_keys ob)"
    using spec_key_agree [OF assms(1-3)] assms(5) name(2) by (auto simp: refers_def list_ex_iff)
  then have "describe_object cat' True ob = describe_object cat True ob" "describe_object cat' False ob = describe_object cat False ob"
    by (simp_all add: describe_object_def Let_def name(1) assms(6))
  then show ?thesis by (simp add: describe_spec_def Some found assms(6) split: option.split)
qed

lemma own_tables_iff:
  assumes "wf_catalog cat"
  shows "n \<in> set (own_tables cat) \<longleftrightarrow> n \<noteq> timeMarkerTable \<and> \<not> sqlite_reserved n \<and>
    (\<exists>ob. object_named cat n = Some ob \<and> oe_name ob = n \<and> oe_kind ob = Table)"
  by (auto simp: own_tables_def object_named_iff [OF assms])

lemma distinct_own_tables: "wf_catalog cat \<Longrightarrow> distinct (own_tables cat)"
  unfolding wf_catalog_def own_tables_def by (rule distinct_map_filter) (auto intro: distinct_map_of_fold [of foldASCII])

lemma markers_ok_name: "markers_ok cat \<Longrightarrow> object_named cat timeMarkerTable = Some ob \<Longrightarrow> oe_name ob = timeMarkerTable"
  unfolding markers_ok_def by (metis marker_object_sel(1) object_entry.select_convs(2) object_entry.surjective object_entry.update_convs(3))

lemma own_tables_created:
  assumes "wf_catalog cat" "markers_ok cat" "foldASCII n \<noteq> timeMarkerTable" "wf_catalog cat'" "markers_ok cat'"
    and "object_named cat' n = Some ob" "oe_name ob = n" "oe_kind ob = Table"
    and "agree_except {foldASCII n, ''sqlite_sequence'', timeMarkerTable} cat cat'"
    and "object_named cat n = None" "\<not> sqlite_reserved n"
  shows "set (own_tables cat') = insert n (set (own_tables cat))"
proof -
  have "m \<in> set (own_tables cat') \<longleftrightarrow> m = n \<or> m \<in> set (own_tables cat)" for m
  proof -
    have by_name: "object_named ct m = object_named ct k" if "foldASCII m = foldASCII k" for ct k
      using that by (simp add: object_named_def)
    consider "foldASCII m = foldASCII n" | "foldASCII m = ''sqlite_sequence''" | "foldASCII m = timeMarkerTable"
      | "foldASCII m \<notin> {foldASCII n, ''sqlite_sequence'', timeMarkerTable}" by blast
    then show ?thesis
    proof cases
      case 1
      then show ?thesis
        using by_name [OF 1] assms(3,6-8,10,11) marker_names(2) by (auto simp: own_tables_iff assms(1,4))
    next
      case 2
      then have "sqlite_reserved m" by (simp add: sqlite_reserved_def)
      then show ?thesis using assms(11) by (auto simp: own_tables_iff assms(1,4))
    next
      case 3
      then have "object_named ct m = object_named ct timeMarkerTable" for ct by (simp add: object_named_def marker_names)
      then show ?thesis
        using markers_ok_name [OF assms(2)] markers_ok_name [OF assms(5)] 3 assms(3) by (auto simp: own_tables_iff assms(1,4))
    next
      case 4
      then show ?thesis using agree_object [OF assms(9)] by (auto simp: own_tables_iff assms(1,4))
    qed
  qed
  then show ?thesis by blast
qed

text \<open>What a reader gets from an engine that executes statements.\<close>

lemma describe_now:
  assumes "executes E cat_of" "wf_catalog (cat_of (pl_db p))" "pl_open p = []"
  shows "fst (DescribeCollection E lenient n p) = outcome_of (describe_spec (cat_of (pl_db p)) lenient n)"
  using runs_run [OF runs_describeCollection [OF executes_serves [OF assms(1)] assms(2)] assms(3), of n lenient]
  by (auto simp: DescribeCollection_def)

lemma list_now:
  assumes "executes E cat_of" "pl_open p = []"
  shows "fst (ListCollections E lenient p) = Ok ns \<longleftrightarrow>
    (\<not> lenient \<longrightarrow> [] \<notin> set (own_tables (cat_of (pl_db p)))) \<and> ns = filter (\<lambda>n. n \<noteq> []) (own_tables (cat_of (pl_db p)))"
  using runs_run [OF runs_ListCollections [OF executes_serves [OF assms(1)]] assms(2), of lenient]
  by (auto simp: list_spec_def split: if_splits)

section \<open>CreateCollection\<close>

text \<open>C4: CreateCollection adds its collection and nothing else: afterwards ListCollections lists the collections
  it listed before and the new one, each once, and every other collection is described
  exactly as before, unless one of its foreign keys was waiting for a table of the new name.\<close>

theorem CreateCollection_adds_one:
  assumes "executes E cat_of" "wf_catalog (cat_of (pl_db p))" "markers_ok (cat_of (pl_db p))" "pl_open p = []"
    and "portable c" "cd_Name c \<noteq> []" "foldASCII (cd_Name c) \<noteq> timeMarkerTable"
    and "CreateCollection E c no_options p = (Ok (), q)" "fst (ListCollections E lenient p) = Ok ns"
    and "made = {foldASCII (cd_Name c), ''sqlite_sequence'', timeMarkerTable}"
  shows "(\<exists>ns'. fst (ListCollections E lenient q) = Ok ns' \<and> mset ns' = add_mset (cd_Name c) (mset ns)) \<and>
    (\<forall>n. foldASCII n \<notin> made \<longrightarrow> \<not> refers (cat_of (pl_db p)) n made \<longrightarrow>
       fst (DescribeCollection E lenient n q) = fst (DescribeCollection E lenient n p))"
proof (rule CreateCollection_catalog [OF assms(1-5,7,8)])
  let ?cat = "cat_of (pl_db p)" and ?cat' = "cat_of (pl_db q)"
  fix s ob
  assume new: "pl_open q = []" "wf_catalog ?cat'" "markers_ok ?cat'" "object_named ?cat' (cd_Name c) = Some ob"
    "oe_name ob = cd_Name c" "oe_kind ob = Table"
    "agree_except {foldASCII (cd_Name c), ''sqlite_sequence'', timeMarkerTable} ?cat ?cat'"
    "\<And>m. spec_markers ?cat' m = spec_markers ?cat m \<union> (if m = cd_Name c then set (timeColumnsOf c) else {})"
    "object_named ?cat (cd_Name c) = None" "\<not> sqlite_reserved (cd_Name c)"
  note frame = new(7) [folded assms(10)]
  have "set (own_tables ?cat') = set (cd_Name c # own_tables ?cat)"
    using own_tables_created [OF assms(2,3,7) new(2-7,9,10)] by simp
  then have tables: "mset (own_tables ?cat') = add_mset (cd_Name c) (mset (own_tables ?cat))"
    using distinct_own_tables [OF assms(2)] distinct_own_tables [OF new(2)] own_tables_iff [OF assms(2)] new(9)
    by (subst (asm) set_eq_iff_mset_eq_distinct) auto
  have "[] \<in> set (own_tables ?cat') \<longleftrightarrow> [] \<in> set (own_tables ?cat)"
    using tables assms(6) by (metis set_mset_add_mset_insert insert_iff set_mset_mset)
  then have "fst (ListCollections E lenient q) = Ok (filter (\<lambda>n. n \<noteq> []) (own_tables ?cat'))"
    "mset (filter (\<lambda>n. n \<noteq> []) (own_tables ?cat')) = add_mset (cd_Name c) (mset ns)"
    using assms(6,9) tables unfolding list_now [OF assms(1,4)] list_now [OF assms(1) new(1)] by simp_all
  moreover have "fst (DescribeCollection E lenient n q) = fst (DescribeCollection E lenient n p)"
    if n: "foldASCII n \<notin> made" "\<not> refers ?cat n made" for n
  proof -
    have "spec_markers ?cat' n = spec_markers ?cat n" using new(8) n(1) assms(10) by auto
    from describe_agree [OF assms(2) new(2) frame n this] show ?thesis
      by (simp only: describe_now [OF assms(1,2,4)] describe_now [OF assms(1) new(2,1)])
  qed
  ultimately show ?thesis by blast
qed

section \<open>DropCollection\<close>

lemma object_named_drop:
  "object_named (drop_object n cat) m = (if foldASCII m = foldASCII n then None else object_named cat m)"
proof -
  have "find (\<lambda>ob. foldASCII (oe_name ob) = foldASCII m) (filter (\<lambda>ob. foldASCII (oe_name ob) \<noteq> foldASCII n) obs) =
      (if foldASCII m = foldASCII n then None else find (\<lambda>ob. foldASCII (oe_name ob) = foldASCII m) obs)" for obs
    by (induction obs) auto
  from this [of "cat_objects cat"] show ?thesis unfolding object_named_def drop_object_def by simp
qed

lemma wf_drop_object:
  assumes "wf_catalog cat"
  shows "wf_catalog (drop_object n cat)"
proof -
  have "distinct (map f (concat (map g (filter P xs))))" if "distinct (map f (concat (map g xs)))" for f g P and xs :: "object_entry list"
    using that by (induction xs) auto
  then show ?thesis
    using assms by (auto simp: wf_catalog_def drop_object_def all_indexes_def list_all_iff intro: distinct_map_filter)
qed

lemma agree_drop_object: "agree_except {foldASCII n} cat (drop_object n cat)"
  by (simp add: agree_except_def object_named_drop) (simp add: drop_object_def)

lemma own_tables_drop: "own_tables (drop_object n cat) = filter (\<lambda>m. foldASCII m \<noteq> foldASCII n) (own_tables cat)"
  by (simp add: own_tables_def drop_object_def filter_map comp_def conj_commute conj_left_commute)

text \<open>What may be dropped: neither SQLite's own tables nor the markers, and nothing that a view reads.\<close>

definition droppable :: "catalog \<Rightarrow> string \<Rightarrow> bool" where
  "droppable cat n \<longleftrightarrow> \<not> sqlite_reserved n \<and> foldASCII n \<noteq> timeMarkerTable \<and>
     \<not> list_ex (\<lambda>vw. may_read vw n) (views cat) \<and>
     (case object_named cat n of None \<Rightarrow> True | Some ob \<Rightarrow> prefix ''CREATE TABLE '' (oe_sql ob))"

lemma exec_drop_Changed:
  assumes "wf_catalog cat" "droppable cat n" "exec_drop if_exists n cat \<noteq> Refused"
  shows "exec_drop if_exists n cat = Changed (drop_object n cat)"
proof (cases "object_named cat n")
  case None
  then have "\<forall>ob \<in> set (cat_objects cat). foldASCII (oe_name ob) \<noteq> foldASCII n"
    unfolding object_named_None by (metis imageI)
  then have "drop_object n cat = cat" by (simp add: drop_object_def)
  then show ?thesis using None assms(3) by (simp add: exec_drop_def split: if_splits)
next
  case (Some ob)
  then show ?thesis using assms(2,3) by (auto simp: exec_drop_def droppable_def split: if_splits)
qed

text \<open>A dropped collection, in the catalog before and after: the markers of its exact name may be gone.\<close>

lemma DropCollection_catalog:
  assumes "executes E cat_of" "wf_catalog (cat_of (pl_db p))" "markers_ok (cat_of (pl_db p))" "pl_open p = []"
    and "droppable (cat_of (pl_db p)) name" "DropCollection E name opts p = (Ok (), q)"
  obtains ms where "pl_open q = []" "cat_of (pl_db q) = (drop_object name (cat_of (pl_db p)))\<lparr>cat_markers := ms\<rparr>"
    "ms = cat_markers (cat_of (pl_db p)) \<or> ms = filter (\<lambda>m. fst m \<noteq> name) (cat_markers (cat_of (pl_db p)))"
proof -
  let ?cat = "cat_of (pl_db p)"
  have pool: "free_pool p" "pool_ok p" using assms(4) by (auto simp: free_pool_def pool_ok_def)
  obtain d0 r where run: "eng_begin E (pl_db p) = (None, d0)" "drop_body E name opts (in_tx_pool p d0) = (Ok (), r)"
      "eng_commit E (pl_db r) = (None, pl_db q)" "pl_open q = pl_open p"
    using drop_tx.success [OF pool assms(6) [unfolded DropCollection_def]] by blast
  obtain d1 where d1: "eng_exec E (buildDropTableSQL name opts) [] d0 = (None, d1)"
      "pl_db r = snd (eng_exec E delete_markers_sql [V_Text name] d1)"
    using run(2) by (auto simp: drop_body_run split: prod.splits option.splits)
  have same: "cat_of d0 = ?cat" "cat_of (pl_db q) = cat_of (pl_db r)"
    using assms(1) run(1,3) unfolding executes_def by metis+
  have wf: "wf_catalog (cat_of d0)" using assms(2) same(1) by simp
  have "exec_drop (opt_IfExists opts) name ?cat = Changed (drop_object name ?cat)"
    using exec_drop_Changed [OF assms(2,5)] executed(1) [OF assms(1) wf d1(1)] by (simp add: catalog_exec_drop same(1))
  then have cat1: "cat_of d1 = drop_object name ?cat"
    using executed(2) [OF assms(1) wf d1(1)] by (simp add: catalog_exec_drop same(1))
  have wf1: "wf_catalog (cat_of d1)" using wf_drop_object [OF assms(2)] cat1 by simp
  have marks: "cat_markers (drop_object name ?cat) = cat_markers ?cat" by (simp add: drop_object_def)
  have "markers_ok (cat_of d1)"
    using assms(3,5) by (auto simp: markers_ok_def cat1 object_named_drop)
  then have delete: "exec_unmark [V_Text name] (cat_of d1) = Refused \<or> exec_unmark [V_Text name] (cat_of d1) =
      Changed (cat_of d1\<lparr>cat_markers := filter (\<lambda>m. fst m \<noteq> name) (cat_markers ?cat)\<rparr>)"
    by (auto simp: exec_unmark_def markers_ok_def cat1 marks split: option.split)
  obtain res d2 where res: "eng_exec E delete_markers_sql [V_Text name] d1 = (res, d2)" by fastforce
  have "cat_of d2 = cat_of d1 \<or> cat_of d2 = cat_of d1\<lparr>cat_markers := filter (\<lambda>m. fst m \<noteq> name) (cat_markers ?cat)\<rparr>"
  proof (cases res)
    case None
    then show ?thesis
      using delete executed [OF assms(1) wf1 res [unfolded None]] by (auto simp: catalog_exec_markers)
  next
    case (Some e)
    then show ?thesis using assms(1) res run(3) d1(2) unfolding executes_def by (metis fst_conv snd_conv)
  qed
  moreover have "cat_of d1 = cat_of d1\<lparr>cat_markers := cat_markers ?cat\<rparr>" by (simp add: cat1 flip: marks)
  ultimately show thesis
    using that [of "cat_markers ?cat"] that [of "filter (\<lambda>m. fst m \<noteq> name) (cat_markers ?cat)"] run(4) assms(4) same(2) d1(2) res cat1
    by auto
qed

lemma DropCollection_effect:
  assumes "executes E cat_of" "wf_catalog (cat_of (pl_db p))" "markers_ok (cat_of (pl_db p))" "pl_open p = []"
    and "droppable (cat_of (pl_db p)) name" "DropCollection E name opts p = (Ok (), q)"
  shows "pl_open q = []" "wf_catalog (cat_of (pl_db q))" "markers_ok (cat_of (pl_db q))"
    "agree_except {foldASCII name} (cat_of (pl_db p)) (cat_of (pl_db q))"
    "object_named (cat_of (pl_db q)) name = None"
    "own_tables (cat_of (pl_db q)) = filter (\<lambda>m. foldASCII m \<noteq> foldASCII name) (own_tables (cat_of (pl_db p)))"
    "n \<noteq> name \<Longrightarrow> spec_markers (cat_of (pl_db q)) n = spec_markers (cat_of (pl_db p)) n"
proof -
  let ?cat = "cat_of (pl_db p)" and ?cat' = "cat_of (pl_db q)"
  obtain ms where new: "pl_open q = []" "?cat' = (drop_object name ?cat)\<lparr>cat_markers := ms\<rparr>"
      "ms = cat_markers ?cat \<or> ms = filter (\<lambda>m. fst m \<noteq> name) (cat_markers ?cat)"
    by (rule DropCollection_catalog [OF assms]) (rule that)
  show "pl_open q = []" "object_named ?cat' name = None" by (simp_all add: new(1,2) object_named_drop)
  show "wf_catalog ?cat'" "markers_ok ?cat'"
    using wf_drop_object [OF assms(2)] assms(3) by (simp_all add: new(2) markers_ok_def object_named_drop)
  show "agree_except {foldASCII name} ?cat ?cat'"
    using agree_trans [OF agree_drop_object [of name ?cat] set_markers(5) [of "{}"]] by (simp add: new(2))
  show "own_tables ?cat' = filter (\<lambda>m. foldASCII m \<noteq> foldASCII name) (own_tables ?cat)"
    using own_tables_drop by (simp add: new(2) own_tables_def)
  assume "n \<noteq> name"
  then have "filter (\<lambda>m. fst m = n) ms = filter (\<lambda>m. fst m = n) (cat_markers ?cat)" using new(3) by (auto intro: filter_cong)
  moreover have "marked ?cat' \<longleftrightarrow> marked ?cat"
    using assms(5) marker_names by (auto simp: new(2) marked_def drop_object_def droppable_def)
  ultimately show "spec_markers ?cat' n = spec_markers ?cat n" by (simp add: spec_markers_def new(2))
qed

text \<open>C5: DropCollection takes off its collection and nothing else: afterwards it is not found under any
  spelling, ListCollections lists what it listed before without it, in the same order, and every
  other collection is described exactly as before, unless a foreign key of it is to the dropped one.\<close>

theorem DropCollection_takes_one:
  assumes "executes E cat_of" "wf_catalog (cat_of (pl_db p))" "markers_ok (cat_of (pl_db p))" "pl_open p = []"
    and "droppable (cat_of (pl_db p)) name" "DropCollection E name opts p = (Ok (), q)"
    and "fst (ListCollections E lenient p) = Ok ns"
  shows "fst (ListCollections E lenient q) = Ok (filter (\<lambda>n. foldASCII n \<noteq> foldASCII name) ns) \<and>
    (\<forall>n. foldASCII n = foldASCII name \<longrightarrow> fst (DescribeCollection E lenient n q) = Fail (newCollectionNotFoundError n)) \<and>
    (\<forall>n. foldASCII n \<noteq> foldASCII name \<longrightarrow> \<not> refers (cat_of (pl_db p)) n {foldASCII name} \<longrightarrow>
       fst (DescribeCollection E lenient n q) = fst (DescribeCollection E lenient n p))"
proof -
  note new = DropCollection_effect [OF assms(1-6)]
  have "fst (ListCollections E lenient q) = Ok (filter (\<lambda>n. foldASCII n \<noteq> foldASCII name) ns)"
    using assms(7) unfolding list_now [OF assms(1,4)] list_now [OF assms(1) new(1)] new(6) by (auto simp: conj_commute)
  moreover have "described (cat_of (pl_db q)) lenient n = None" if "foldASCII n = foldASCII name" for n
    using new(5) that by (simp add: described_by_name [OF new(2)] object_named_def)
  moreover have "describe_spec (cat_of (pl_db q)) lenient n = describe_spec (cat_of (pl_db p)) lenient n"
    if "foldASCII n \<noteq> foldASCII name" "\<not> refers (cat_of (pl_db p)) n {foldASCII name}" for n
    by (rule describe_agree [OF assms(2) new(2,4) _ that(2) new(7)]) (use that(1) in auto)
  ultimately show ?thesis
    by (simp add: describe_now [OF assms(1,2,4)] describe_now [OF assms(1) new(2,1)] describe_spec_def)
qed

section \<open>Markers that stay behind\<close>

text \<open>C33: SQLite drops a table under any spelling of its name, and DropCollection deletes the markers of
  the spelling it was given. Dropped under another spelling, a collection leaves its markers
  behind, and a field of a later collection of the same name is read as Time although it was created with another type.\<close>

theorem DropCollection_leaves_markers:
  assumes "executes E cat_of" "wf_catalog (cat_of (pl_db p))" "markers_ok (cat_of (pl_db p))" "pl_open p = []"
    and "droppable (cat_of (pl_db p)) name" "DropCollection E name opts p = (Ok (), q)" "name \<noteq> cd_Name c"
    and "portable c" "foldASCII (cd_Name c) \<noteq> timeMarkerTable" "CreateCollection E c no_options q = (Ok (), r)"
    and "fst (DescribeCollection E lenient (cd_Name c) r) = Ok d" "f \<in> set (cd_Fields d)"
    and "fd_Name f \<in> spec_markers (cat_of (pl_db p)) (cd_Name c)"
  shows "fd_Type f = Type_Time"
proof -
  note dropped = DropCollection_effect [OF assms(1-6)]
  show ?thesis
  proof (rule CreateCollection_catalog [OF assms(1) dropped(2,3,1) assms(8-10)])
    let ?cat = "cat_of (pl_db r)"
    assume made: "pl_open r = []" "wf_catalog ?cat"
      "\<And>m. spec_markers ?cat m = spec_markers (cat_of (pl_db q)) m \<union> (if m = cd_Name c then set (timeColumnsOf c) else {})"
    have marked: "fd_Name f \<in> spec_markers ?cat (cd_Name c)"
      using made(3) dropped(7) assms(7,13) by auto
    have "describe_spec ?cat lenient (cd_Name c) = Inr d"
      using assms(11) describe_now [OF assms(1) made(2,1)] by (cases "describe_spec ?cat lenient (cd_Name c)") simp_all
    then obtain ob l where ob: "described ?cat lenient (cd_Name c) = Some ob" "d = describe_object ?cat l ob"
      by (auto simp: describe_spec_def split: option.splits if_splits)
    then obtain ce where "f = describe_field (spec_markers ?cat (cd_Name c)) ob ce"
      using assms(12) described_Some(2) [OF ob(1)] by (auto simp: describe_object_def Let_def)
    then show ?thesis using marked by (simp add: describe_field_def spec_type_def)
  qed
qed

section \<open>A diary\<close>

text \<open>A database with one collection of one Time column; its text is the same for a String column.\<close>

definition one_column :: "string \<Rightarrow> db_type \<Rightarrow> collection_def" where
  "one_column n ty = bare_collection n
     [\<lparr>fd_Name = ''at'', fd_Type = ty, fd_Precision = None, fd_Nullable = True, fd_AutoIncrement = False\<rparr>] []"

definition one_column_sql :: "string \<Rightarrow> string" where
  "one_column_sql n = ''CREATE TABLE '' @ quoteIdentifier n @ '' (\"at\" TEXT)''"

definition one_column_table :: "string \<Rightarrow> object_entry" where
  "one_column_table n = made_table (table_shape (one_column n Type_String) no_options) [] (one_column_sql n)"

definition markers_made :: object_entry where
  "markers_made = made_table marker_shape (pt_PrimaryKey marker_shape) (marker_table_text 4)"

definition diary :: catalog where
  "diary = \<lparr>cat_objects = [markers_made, one_column_table ''visit''], cat_keys_on = True, cat_markers = [(''visit'', ''at'')]\<rparr>"

definition two_diaries :: catalog where
  "two_diaries = \<lparr>cat_objects = [markers_made, one_column_table ''log'', one_column_table ''visit''], cat_keys_on = True,
     cat_markers = [(''visit'', ''at'')]\<rparr>"

definition empty_diary :: catalog where
  "empty_diary = \<lparr>cat_objects = [markers_made], cat_keys_on = True, cat_markers = [(''visit'', ''at'')]\<rparr>"

lemma one_column_text: "buildCreateTableSQL (one_column n Type_String) no_options = Inr (one_column_sql n)"
  by (simp add: buildCreateTableSQL_def Let_def one_column_def map_result.simps buildColumnDecl_def has_inline_pk_def
      has_composite_pk_def quoteIdentifier_def one_column_sql_def)

lemma one_column_portable: "portable (one_column n Type_String)"
  by (simp add: portable_def one_column_def inline_key_def has_inline_pk_def bare_collection_def)

lemma one_column_shape: "table_shape (one_column n ty) no_options =
    \<lparr>pt_IfNotExists = False, pt_Name = n,
     pt_Columns = [\<lparr>pc_Name = ''at'', pc_Type = pc_Type (column_shape (one_column n ty) (hd (cd_Fields (one_column n ty)))),
       pc_NotNull = False, pc_PrimaryKey = False, pc_AutoIncrement = False\<rparr>],
     pt_PrimaryKey = []\<rparr>"
  by (simp add: table_shape_def column_shape_def Let_def one_column_def has_inline_pk_def bare_collection_def no_options_def)

lemma diary_folds:
  "foldASCII ''visit'' = ''visit''" "foldASCII ''log'' = ''log''" "foldASCII ''at'' = ''at''" "foldASCII ''VISIT'' = ''visit''"
  "foldASCII timeMarkerTable = timeMarkerTable" "timeMarkerTable \<noteq> ''visit''" "timeMarkerTable \<noteq> ''log''"
  "''visit'' \<noteq> timeMarkerTable" "''log'' \<noteq> timeMarkerTable"
  subgoal by (simp add: foldASCII_def ascii_lower_def)
  subgoal by (simp add: foldASCII_def ascii_lower_def)
  subgoal by (simp add: foldASCII_def ascii_lower_def)
  subgoal by code_simp
  by (simp_all add: marker_names) (simp_all add: timeMarkerTable_def)

lemma markers_made_sel: "oe_name markers_made = timeMarkerTable" "oe_kind markers_made = Table" "markers_made\<lparr>oe_sql := []\<rparr> = marker_object"
    "oe_keys markers_made = []" "wf_object markers_made"
    "oe_indexes markers_made = [made_index (''sqlite_autoindex_'' @ timeMarkerTable @ ''_1'') True ''pk'' None (pt_PrimaryKey marker_shape)]"
proof -
  show "wf_object markers_made"
    unfolding markers_made_def by (rule wf_made_table) (simp_all add: marker_shape_def Let_def marker_folds)
qed (simp_all add: markers_made_def marker_object_def made_table_def marker_shape_def Let_def rowid_key_def)

lemma one_column_sel: "oe_name (one_column_table n) = n" "oe_kind (one_column_table n) = Table" "oe_indexes (one_column_table n) = []"
    "oe_keys (one_column_table n) = []" "oe_sql (one_column_table n) = one_column_sql n" "wf_object (one_column_table n)"
  by (simp_all add: one_column_table_def one_column_shape made_table_def wf_object_def visible_def int64_range_def)

lemmas diary_facts = diary_folds markers_made_sel one_column_sel

lemma diary_ok:
  "wf_catalog diary" "markers_ok diary" "droppable diary ''VISIT''" "own_tables diary = [''visit'']"
  "wf_catalog empty_diary" "markers_ok empty_diary" "marked diary"
  by (simp_all add: diary_def empty_diary_def wf_catalog_def all_indexes_def made_index_def diary_facts markers_ok_def object_named_def
      droppable_def sqlite_reserved_def views_def one_column_sql_def own_tables_def marked_def)

lemma diary_steps:
  "catalog_exec (one_column_sql ''log'') [] diary = Changed two_diaries"
  "catalog_exec (one_column_sql ''visit'') [] empty_diary = Changed diary"
  "catalog_exec (buildDropTableSQL ''VISIT'' no_options) [] diary = Changed empty_diary"
  "catalog_exec delete_markers_sql [V_Text ''VISIT''] empty_diary = Changed empty_diary"
proof -
  have plain: "exec_table (table_shape (one_column n Type_String) no_options) (one_column_sql n) cat =
      Changed (add_object (one_column_table n) cat)"
    if "\<not> taken cat n" "\<not> sqlite_reserved n" "\<not> taken cat (''sqlite_autoindex_'' @ n @ ''_1'')" for n cat
    using that by (simp add: exec_table_def one_column_shape Let_def key_names_def one_column_table_def)
  have log: "\<not> taken diary ''log''" "\<not> taken diary (''sqlite_autoindex_'' @ ''log'' @ ''_1'')"
    and visit: "\<not> taken empty_diary ''visit''" "\<not> taken empty_diary (''sqlite_autoindex_'' @ ''visit'' @ ''_1'')"
    by (simp_all add: taken_def diary_def empty_diary_def all_indexes_def made_index_def diary_facts)
      (simp_all add: foldASCII_def ascii_lower_def timeMarkerTable_def)
  have order: "insort_key oe_name (one_column_table ''log'') [markers_made, one_column_table ''visit''] =
      [markers_made, one_column_table ''log'', one_column_table ''visit'']"
    "insort_key oe_name (one_column_table ''visit'') [markers_made] = [markers_made, one_column_table ''visit'']"
    by (simp_all add: diary_facts timeMarkerTable_def)
  show "catalog_exec (one_column_sql ''log'') [] diary = Changed two_diaries"
    "catalog_exec (one_column_sql ''visit'') [] empty_diary = Changed diary"
    using plain [OF log(1) _ log(2)] plain [OF visit(1) _ visit(2)] order
    by (simp_all add: catalog_exec_table [OF one_column_text portable_keyed [OF one_column_portable]] sqlite_reserved_def diary_folds
        add_object_def diary_def two_diaries_def empty_diary_def)
  show "catalog_exec (buildDropTableSQL ''VISIT'' no_options) [] diary = Changed empty_diary"
  proof -
    have found: "object_named diary ''VISIT'' = Some (one_column_table ''visit'')"
      by (simp add: object_named_def diary_def diary_facts)
    have "exec_drop False ''VISIT'' diary \<noteq> Refused" by (simp add: exec_drop_def found diary_facts)
    moreover have "drop_object ''VISIT'' diary = empty_diary"
      by (simp add: drop_object_def diary_def empty_diary_def diary_facts)
    ultimately show ?thesis
      using exec_drop_Changed [OF diary_ok(1,3), of False] by (simp add: catalog_exec_drop)
  qed
  show "catalog_exec delete_markers_sql [V_Text ''VISIT''] empty_diary = Changed empty_diary"
    by (simp add: catalog_exec_markers exec_unmark_def object_named_def empty_diary_def diary_facts)
qed

lemma one_column_runs:
  assumes "catalog_exec (one_column_sql n) [] cat = Changed cat'" "pl_open p = []" "fst (pl_db p) = cat"
  shows "\<exists>q. CreateCollection ddl_engine (one_column n Type_String) no_options p = (Ok (), q) \<and> pl_db q = (cat', cat) \<and> pl_open q = []"
proof -
  have pool: "free_pool p" "pool_ok p" using assms(2) by (auto simp: free_pool_def pool_ok_def)
  have shape: "cd_Indexes (one_column n Type_String) = []" "timeColumnsOf (one_column n Type_String) = []"
    by (simp_all add: one_column_def bare_collection_def timeColumnsOf_def)
  have indexes: "map_result (\<lambda>idx. buildCreateIndexSQL (on_collection (cd_Name (one_column n Type_String)) idx) no_options)
      (cd_Indexes (one_column n Type_String)) = Inr []"
    by (simp add: shape map_result.simps)
  have "eng_begin ddl_engine (pl_db p) = (None, (cat, cat))" "eng_commit ddl_engine d = (None, d)" for d
    by (simp_all add: ddl_engine_def assms(3))
  then obtain q where q: "CreateCollection ddl_engine (one_column n Type_String) no_options p = (Ok (), q)" "pl_db q = (cat', cat)"
    using step_runs [OF assms(1)] CreateCollection_runs [OF one_column_text indexes pool, of ddl_engine "(cat', cat)"]
    by (auto simp: create_plan_def shape)
  moreover have "pl_open q = []" by (rule CreateCollection_success [OF q(1) pool]) (simp add: assms(2))
  ultimately show ?thesis by blast
qed

lemma drop_visit_runs:
  "\<exists>q. DropCollection ddl_engine ''VISIT'' no_options (one_connection (diary, diary)) = (Ok (), q) \<and> pl_db q = (empty_diary, diary)"
proof -
  have "eng_begin ddl_engine (diary, diary) = (None, (diary, diary))" "eng_commit ddl_engine d = (None, d)" for d
    by (simp_all add: ddl_engine_def)
  then show ?thesis
    using step_runs [OF diary_steps(3)] step_runs [OF diary_steps(4)]
    by (subst DropCollection_best_effort [OF one_connection_ok(1,2)]) (simp add: one_connection_ok)
qed

lemma diary_pool: "pl_open (one_connection (diary, diary)) = []" "pl_db (one_connection (diary, diary)) = (diary, diary)"
    "fst (ListCollections ddl_engine False (one_connection (diary, diary))) = Ok [''visit'']"
  by (simp_all add: one_connection_def list_now [OF ddl_engine_executes] diary_ok)

theorem CreateCollection_adds_one_witness:
  "\<exists>q ns. CreateCollection ddl_engine (one_column ''log'' Type_String) no_options (one_connection (diary, diary)) = (Ok (), q) \<and>
     fst (ListCollections ddl_engine False q) = Ok ns \<and> mset ns = {#''log'', ''visit''#} \<and>
     fst (DescribeCollection ddl_engine False ''visit'' q) =
       fst (DescribeCollection ddl_engine False ''visit'' (one_connection (diary, diary)))"
proof -
  let ?c = "one_column ''log'' Type_String"
  obtain q where q: "CreateCollection ddl_engine ?c no_options (one_connection (diary, diary)) = (Ok (), q)"
    using one_column_runs [OF diary_steps(1)] diary_pool by force
  have name: "cd_Name ?c = ''log''" by (simp add: one_column_def bare_collection_def)
  have "\<not> refers diary ''visit'' N" for N
    by (simp add: refers_def object_named_def diary_def diary_facts)
  then show ?thesis
    using CreateCollection_adds_one [OF ddl_engine_executes _ _ diary_pool(1) one_column_portable _ _ q diary_pool(3) refl] q
    by (simp add: diary_pool diary_ok name diary_folds timeMarkerTable_def)
qed

theorem DropCollection_takes_one_witness:
  "\<exists>q. DropCollection ddl_engine ''VISIT'' no_options (one_connection (diary, diary)) = (Ok (), q) \<and>
     fst (ListCollections ddl_engine False q) = Ok [] \<and>
     fst (DescribeCollection ddl_engine False ''visit'' q) = Fail (newCollectionNotFoundError ''visit'')"
proof -
  obtain q where q: "DropCollection ddl_engine ''VISIT'' no_options (one_connection (diary, diary)) = (Ok (), q)"
    using drop_visit_runs by blast
  then show ?thesis
    using DropCollection_takes_one [OF ddl_engine_executes _ _ diary_pool(1) _ q diary_pool(3)]
    by (simp add: diary_pool diary_ok diary_folds)
qed

lemma diary_marks: "spec_markers diary ''visit'' = {''at''}"
  by (simp add: spec_markers_def diary_ok) (auto simp: diary_def)

lemma describe_diary: "\<exists>d. describe_spec diary False ''visit'' = Inr d \<and> map fd_Name (cd_Fields d) = [''at'']"
proof -
  let ?ob = "one_column_table ''visit''"
  have found: "described diary False ''visit'' = Some ?ob"
    by (simp add: described_def diary_def diary_facts)
  have columns: "map ce_name (oe_columns ?ob) = [''at'']" "\<forall>ce \<in> set (oe_columns ?ob). ce_hidden ce = 0"
    by (simp_all add: one_column_table_def made_table_def one_column_shape)
  then have all: "visible ?ob = oe_columns ?ob" by (simp add: visible_def)
  have "find (unreadable {''at''}) (visible ?ob) = None" "first_hidden ?ob = None"
    using columns by (auto simp: all find_None_iff unreadable_def first_hidden_def)
  moreover have "map fd_Name (cd_Fields (describe_object diary False ?ob)) = [''at'']"
    using columns(1) by (simp add: describe_object_def Let_def all comp_def describe_field_def)
  ultimately show ?thesis by (simp add: describe_spec_def found diary_marks)
qed

theorem DropCollection_leaves_markers_witness:
  "\<exists>q r d. DropCollection ddl_engine ''VISIT'' no_options (one_connection (diary, diary)) = (Ok (), q) \<and>
     CreateCollection ddl_engine (one_column ''visit'' Type_String) no_options q = (Ok (), r) \<and>
     fst (DescribeCollection ddl_engine False ''visit'' r) = Ok d \<and> map fd_Type (cd_Fields d) = [Type_Time]"
proof -
  obtain q where q: "DropCollection ddl_engine ''VISIT'' no_options (one_connection (diary, diary)) = (Ok (), q)"
      "pl_db q = (empty_diary, diary)"
    using drop_visit_runs by blast
  note dropped = DropCollection_effect [OF ddl_engine_executes _ _ diary_pool(1) _ q(1)]
  have open_q: "pl_open q = []" by (rule dropped(1)) (simp_all add: diary_pool diary_ok)
  obtain r where r: "CreateCollection ddl_engine (one_column ''visit'' Type_String) no_options q = (Ok (), r)"
      "pl_db r = (diary, empty_diary)" "pl_open r = []"
    using one_column_runs [OF diary_steps(2) open_q] q(2) by auto
  obtain d where d: "describe_spec diary False ''visit'' = Inr d" "map fd_Name (cd_Fields d) = [''at'']"
    by (rule exE [OF describe_diary], elim conjE) (rule that)
  have described: "fst (DescribeCollection ddl_engine False ''visit'' r) = Ok d"
    by (subst describe_now [OF ddl_engine_executes _ r(3)]) (simp_all only: r(2) d(1) diary_ok fst_conv outcome_of.simps)
  have name: "cd_Name (one_column ''visit'' Type_String) = ''visit''" by (simp add: one_column_def bare_collection_def)
  have facts: "wf_catalog (fst (pl_db (one_connection (diary, diary))))" "markers_ok (fst (pl_db (one_connection (diary, diary))))"
    "droppable (fst (pl_db (one_connection (diary, diary)))) ''VISIT''" "''VISIT'' \<noteq> cd_Name (one_column ''visit'' Type_String)"
    "foldASCII (cd_Name (one_column ''visit'' Type_String)) \<noteq> timeMarkerTable"
    "fst (DescribeCollection ddl_engine False (cd_Name (one_column ''visit'' Type_String)) r) = Ok d"
    by (simp_all add: diary_pool diary_ok name diary_folds described)
  have "fd_Type f = Type_Time" if "f \<in> set (cd_Fields d)" "fd_Name f = ''at''" for f
    by (rule DropCollection_leaves_markers [OF ddl_engine_executes facts(1,2) diary_pool(1) facts(3) q(1) facts(4)
        one_column_portable facts(5) r(1) facts(6) that(1)]) (simp add: that(2) diary_pool name diary_marks)
  then have "map fd_Type (cd_Fields d) = [Type_Time]" using d(2) by (auto simp: map_eq_Cons_conv)
  then show ?thesis by (intro exI conjI) (rule q(1), rule r(1), rule described)
qed

end
