(* ===== verification/Modify_Field.thy ===== *)
theory Modify_Field
  imports Ddl_Plans
begin

text \<open>
  ApplyModifyField (schema_modifier.go): SQLite cannot change a column in place, so the driver reads
  the table's shape, creates \<open>t_new\<close> with the one column changed, copies the rows, drops the table and
  renames the new one. What survives the change, and what does not.
\<close>

section \<open>The shape that is read\<close>

lemma scan_tx_column_name: "scan_tx_column row = Inr col \<Longrightarrow> fst col = as_string (hd row)"
  by (cases row) (auto simp: scan_tx_column_def scan_row_def scan_col_def [where rest = "scan_col scan_string r" for r]
      scan_string_def split: sum.splits if_splits)

lemma tx_column_simps [simp]:
  "fd_Name (tx_column col) = fst col" "\<not> fd_AutoIncrement (tx_column col)"
  by (simp_all add: tx_column_def split: prod.splits)

lemma tx_column_step_Inr:
  assumes "tx_column_step (fs, pks) row = Inr (fs', pks')"
  shows "\<exists>f. fs' = fs @ [f] \<and> fd_Name f = as_string (hd row) \<and> \<not> fd_AutoIncrement f"
proof -
  obtain col where col: "scan_tx_column row = Inr col" and fs': "fs' = fs @ [tx_column col]"
    using assms by (auto simp: tx_column_step_def result_bind_Inr_iff split: prod.splits)
  show ?thesis
    by (rule exI [of _ "tx_column col"]) (simp add: fs' scan_tx_column_name [OF col])
qed

lemma tx_column_fold:
  "rows_fold tx_column_step (fs, pks) rows = Inr (fs', pks') \<Longrightarrow>
     \<exists>gs. fs' = fs @ gs \<and> map fd_Name gs = map (\<lambda>row. as_string (hd row)) rows \<and>
       list_all (\<lambda>f. \<not> fd_AutoIncrement f) gs"
proof (induction rows arbitrary: fs pks)
  case (Cons row rows)
  then obtain fs1 pks1 where step: "tx_column_step (fs, pks) row = Inr (fs1, pks1)"
      and rest: "rows_fold tx_column_step (fs1, pks1) rows = Inr (fs', pks')"
    by (auto split: sum.splits)
  from tx_column_step_Inr [OF step] obtain f where
    f: "fs1 = fs @ [f]" "fd_Name f = as_string (hd row)" "\<not> fd_AutoIncrement f" by blast
  from Cons.IH [OF rest] obtain gs where
    "fs' = fs1 @ gs" "map fd_Name gs = map (\<lambda>row. as_string (hd row)) rows" "list_all (\<lambda>f. \<not> fd_AutoIncrement f) gs"
    by blast
  with f have "fs' = fs @ (f # gs) \<and> map fd_Name (f # gs) = map (\<lambda>row. as_string (hd row)) (row # rows) \<and>
      list_all (\<lambda>f. \<not> fd_AutoIncrement f) (f # gs)" by simp
  then show ?case by blast
qed simp

text \<open>The reading itself, and the error that ended its rows, which it does not look at.\<close>

lemma readCollectionDefViaTx_run:
  "readCollectionDefViaTx E name p =
     (case eng_query E tx_table_info_sql [V_Text name] (pl_db p) of
        (Inl e, d) \<Rightarrow> (Fail e, p\<lparr>pl_db := d\<rparr>)
      | (Inr rs, d) \<Rightarrow>
          (case rows_fold tx_column_step ([], []) (rs_rows rs) of
             Inl e \<Rightarrow> (Fail e, p\<lparr>pl_db := d\<rparr>)
           | Inr (fs, pks) \<Rightarrow>
               (Ok (bare_collection name fs (map pk_colName (sortPKByOrder pks))), p\<lparr>pl_db := d\<rparr>)))"
  by (auto simp: readCollectionDefViaTx_def conn_query_def io_bind_def io_finally_def rows_each_def rows_close_def
      split: prod.splits sum.splits)

section \<open>The statements\<close>

definition modify_plan :: "string \<Rightarrow> string \<Rightarrow> field_def list \<Rightarrow> (string \<times> sqlval list) list" where
  "modify_plan table createSQL fs =
     [(createSQL, []), (copy_sql table fs, []), (buildDropTableSQL table no_options, []),
      (rename_sql table, [])]"

definition modified_table :: "string \<Rightarrow> string \<Rightarrow> field_def \<Rightarrow> collection_def \<Rightarrow> collection_def" where
  "modified_table table name newDef current =
     bare_collection (table @ ''_new'') (modify_fields name newDef (cd_Fields current)) (cd_PrimaryKey current)"

lemma ApplyModifyField_run:
  assumes "readCollectionDefViaTx E table p = (Ok current, q)"
  shows "ApplyModifyField E table name newDef opts p = (Ok (), r) \<longleftrightarrow>
    name \<in> fd_Name ` set (cd_Fields current) \<and>
    (\<exists>s d. buildCreateTableSQL (modified_table table name newDef current) no_options = Inr s \<and>
       exec_all E (modify_plan table s (modify_fields name newDef (cd_Fields current))) (pl_db q) = (None, d) \<and>
       r = q\<lparr>pl_db := d\<rparr>)"
proof -
  have plan: "amounts_to E
      (io_bind (io_wrap ''dalgo2sqlite: ModifyField create new: %w'' [] (conn_exec E s []))
       (\<lambda>_. io_bind (io_wrap ''dalgo2sqlite: ModifyField copy data: %w'' [] (conn_exec E (copy_sql table fs) []))
       (\<lambda>_. io_bind (io_wrap ''dalgo2sqlite: ModifyField drop original: %w'' []
          (conn_exec E (buildDropTableSQL table no_options) []))
       (\<lambda>_. io_wrap ''dalgo2sqlite: ModifyField rename: %w'' []
          (conn_exec E (rename_sql table) [])))))
      (modify_plan table s fs)" for s fs
    unfolding modify_plan_def by (intro plan_step plan_exec)
  have "name \<in> fd_Name ` set (cd_Fields current) \<longleftrightarrow> list_ex (\<lambda>f. fd_Name f = name) (cd_Fields current)"
    by (auto simp: list_ex_iff)
  then show ?thesis
    using assms
    by (auto simp: ApplyModifyField_def Let_def amounts_to_Ok [OF plan] modified_table_def split: sum.splits)
qed

text \<open>The copy names the same columns on both sides, in the same order.\<close>

lemma lex_any_copy_words:
  "lex_any ''INSERT INTO '' [Word ''INSERT'', Word ''INTO'']"
  "lex_any '') SELECT '' [Punct CHR '')'', Word ''SELECT'']" "lex_any '' FROM '' [Word ''FROM'']"
proof -
  show "lex_any ''INSERT INTO '' [Word ''INSERT'', Word ''INTO'']"
    using lex_any_phrase [of "[''INSERT'', ''INTO'']"] by (simp add: phrase_def word_char_def less_eq_char_def)
  have "lex_any '' SELECT '' [Word ''SELECT'']"
    using lex_any_phrase [of "[''SELECT'']", THEN lex_any_blank_phrase]
    by (simp add: phrase_def word_char_def less_eq_char_def)
  then show "lex_any '') SELECT '' [Punct CHR '')'', Word ''SELECT'']"
    using lex_any_append [OF lex_any_marks(3)] by fastforce
  show "lex_any '' FROM '' [Word ''FROM'']"
    using lex_any_phrase [of "[''FROM'']", THEN lex_any_blank_phrase]
    by (simp add: phrase_def word_char_def less_eq_char_def)
qed

lemma copy_sql_tokens:
  "sql_lex (copy_sql table fs) = Some ([Word ''INSERT'', Word ''INTO'', Ident (table @ ''_new''), Punct CHR ''(''] @
     comma_tokens (map (\<lambda>n. [Ident n]) (map fd_Name fs)) @ [Punct CHR '')'', Word ''SELECT''] @
     comma_tokens (map (\<lambda>n. [Ident n]) (map fd_Name fs)) @ [Word ''FROM'', Ident table])"
proof -
  note names = lex_end_names [of "map fd_Name fs"]
  have from_table: "lex_any '' FROM '' [Word ''FROM'']" by (rule lex_any_copy_words)
  have "lex_any (go_join '', '' (map quoteIdentifier (map fd_Name fs)) @ '' FROM '')
      (comma_tokens (map (\<lambda>n. [Ident n]) (map fd_Name fs)) @ [Word ''FROM''])"
    by (rule lex_end_any [OF names from_table]) (simp_all add: boundary_def)
  note tail = lex_any_end [OF this lex_end_identifier, of table]
  have "lex_any (go_join '', '' (map quoteIdentifier (map fd_Name fs)) @ '') SELECT '')
      (comma_tokens (map (\<lambda>n. [Ident n]) (map fd_Name fs)) @ [Punct CHR '')'', Word ''SELECT''])"
    by (rule lex_end_any [OF names lex_any_copy_words(2)]) (simp_all add: boundary_def)
  note list = lex_any_end [OF this tail]
  note target = lex_any_end [OF lex_any_copy_words(1) lex_any_imp_end [OF lex_any_ident_blank
      [OF lex_any_marks(1)]], of "table @ ''_new''"]
  have "lex_any (''INSERT INTO '' @ quoteIdentifier (table @ ''_new'') @ '' ('')
      [Word ''INSERT'', Word ''INTO'', Ident (table @ ''_new''), Punct CHR ''('']"
    using lex_any_append [OF lex_any_copy_words(1) lex_any_ident_blank [OF lex_any_marks(1)], of "table @ ''_new''"]
    by (simp add: boundary_def)
  from lex_any_end [OF this list] show ?thesis
    by (simp add: copy_sql_def Let_def comp_def lex_end_whole)
qed

lemma modify_fields_names [simp]: "map fd_Name (modify_fields name newDef fs) = map fd_Name fs"
  by (auto simp: modify_fields_def)

lemma modified_not_inline:
  assumes "list_all (\<lambda>f. \<not> fd_AutoIncrement f) fs" "\<not> fd_AutoIncrement newDef"
  shows "list_all (\<lambda>f. \<not> fd_AutoIncrement f) (modify_fields name newDef fs)"
  using assms by (auto simp: list_all_iff modify_fields_def)

lemma fieldHasAutoIncIntPK_False: "list_all (\<lambda>f. \<not> fd_AutoIncrement f) fs \<Longrightarrow> \<not> fieldHasAutoIncIntPK fs n"
  by (induction fs) auto

text \<open>A successful ModifyField runs exactly four statements, CREATE, INSERT ... SELECT, DROP and RENAME:
  the new table declares the same columns in the same order as the rows of pragma_table_info, the copy
  names just these columns on both sides, and no column of the new table is AUTOINCREMENT unless the
  new definition says so (so an AUTOINCREMENT key does not survive the change of another column).\<close>

theorem ApplyModifyField_rebuilds:
  assumes "ApplyModifyField E table name newDef opts p = (Ok (), r)"
    and "eng_query E tx_table_info_sql [V_Text table] (pl_db p) = (Inr rs, d)"
  shows "\<exists>createSQL fs t. exec_all E (modify_plan table createSQL fs) d = (None, pl_db r) \<and>
    read_create_table createSQL = Some t \<and> pt_Name t = table @ ''_new'' \<and>
    map pc_Name (pt_Columns t) = map (\<lambda>row. as_string (hd row)) (rs_rows rs) \<and>
    map fd_Name fs = map pc_Name (pt_Columns t) \<and> name \<in> set (map pc_Name (pt_Columns t)) \<and>
    (fd_AutoIncrement newDef \<or> list_all (\<lambda>col. \<not> pc_AutoIncrement col) (pt_Columns t))"
proof -
  let ?current = "\<lambda>fs pks. bare_collection table fs (map pk_colName (sortPKByOrder pks))"
  obtain fs pks where fold: "rows_fold tx_column_step ([], []) (rs_rows rs) = Inr (fs, pks)"
    using assms by (auto simp: ApplyModifyField_def readCollectionDefViaTx_run io_bind_def io_wrap_def
        split: sum.splits)
  then have read: "readCollectionDefViaTx E table p = (Ok (?current fs pks), p\<lparr>pl_db := d\<rparr>)"
    using assms(2) by (simp add: readCollectionDefViaTx_run)
  have names: "map fd_Name fs = map (\<lambda>row. as_string (hd row)) (rs_rows rs)"
    and plain: "list_all (\<lambda>f. \<not> fd_AutoIncrement f) fs"
    using tx_column_fold [OF fold] by auto
  obtain s d' where found: "name \<in> fd_Name ` set fs"
    and s: "buildCreateTableSQL (modified_table table name newDef (?current fs pks)) no_options = Inr s"
    and run: "exec_all E (modify_plan table s (modify_fields name newDef fs)) d = (None, d')" and r: "pl_db r = d'"
    using assms(1) unfolding ApplyModifyField_run [OF read] by auto
  let ?c = "modified_table table name newDef (?current fs pks)"
  have "cd_Fields ?c \<noteq> [] \<or> table_pk ?c \<noteq> []"
    using found by (auto simp: modified_table_def modify_fields_def)
  from read_built_table [OF s this] have t: "read_create_table s = Some (table_shape ?c no_options)" .
  have cols: "map pc_Name (pt_Columns (table_shape ?c no_options)) = map fd_Name fs"
    by (simp add: table_shape_def column_shape_def Let_def comp_def modified_table_def)
  have "list_all (\<lambda>col. \<not> pc_AutoIncrement col) (pt_Columns (table_shape ?c no_options))"
    if "\<not> fd_AutoIncrement newDef"
    using fieldHasAutoIncIntPK_False [OF modified_not_inline [OF plain that]]
    by (auto simp: list_all_iff table_shape_def column_shape_def Let_def has_inline_pk_def modified_table_def)
  then have auto_inc: "fd_AutoIncrement newDef \<or>
      list_all (\<lambda>col. \<not> pc_AutoIncrement col) (pt_Columns (table_shape ?c no_options))" by blast
  show ?thesis
  proof (intro exI conjI)
    show "exec_all E (modify_plan table s (modify_fields name newDef fs)) d = (None, pl_db r)"
      using run r by simp
    show "pt_Name (table_shape ?c no_options) = table @ ''_new''"
      by (simp add: table_shape_def modified_table_def)
    show "map pc_Name (pt_Columns (table_shape ?c no_options)) = map (\<lambda>row. as_string (hd row)) (rs_rows rs)"
      unfolding cols names ..
    show "name \<in> set (map pc_Name (pt_Columns (table_shape ?c no_options)))"
      unfolding cols using found by simp
  qed (use t cols auto_inc in simp_all)
qed

text \<open>a column that the table does not have is refused after the reading and before any statement:
  the database is as the reading left it.\<close>

theorem ApplyModifyField_unknown_column:
  assumes "eng_query E tx_table_info_sql [V_Text table] (pl_db p) = (Inr rs, d)"
    and "name \<notin> set (map (\<lambda>row. as_string (hd row)) (rs_rows rs))"
  shows "\<exists>e. ApplyModifyField E table name newDef opts p = (Fail e, p\<lparr>pl_db := d\<rparr>)"
proof (cases "rows_fold tx_column_step ([], []) (rs_rows rs)")
  case (Inl e)
  then show ?thesis
    using assms(1) by (simp add: ApplyModifyField_def readCollectionDefViaTx_run)
next
  case (Inr shape)
  obtain fs pks where "shape = (fs, pks)" by fastforce
  with Inr have fold: "rows_fold tx_column_step ([], []) (rs_rows rs) = Inr (fs, pks)" by simp
  then have "map fd_Name fs = map (\<lambda>row. as_string (hd row)) (rs_rows rs)"
    using tx_column_fold [OF fold] by auto
  then have "\<not> list_ex (\<lambda>f. fd_Name f = name) fs"
    using assms(2) by (metis (mono_tags, lifting) image_eqI list.set_map list_ex_iff)
  then show ?thesis
    using fold assms(1) by (simp add: ApplyModifyField_def readCollectionDefViaTx_run Let_def)
qed

text \<open>The same engine, with the errors that end result sets early left out.\<close>

definition without_row_errors :: "'d engine \<Rightarrow> 'd engine" where
  "without_row_errors E = E\<lparr>eng_query := (\<lambda>q args d. case eng_query E q args d of
     (Inl e, d') \<Rightarrow> (Inl e, d') | (Inr rs, d') \<Rightarrow> (Inr (rs\<lparr>rs_err := None\<rparr>), d'))\<rparr>"

text \<open>C36: ModifyField never looks at the error that ended the rows of pragma_table_info (Rows.Err): it does
  the same, statement for statement, whether the rows were all read or an error cut them short. With
  the columns missed, the copy and the drop then lose their data.\<close>

theorem ApplyModifyField_ignores_row_errors:
  "ApplyModifyField E table name newDef opts = ApplyModifyField (without_row_errors E) table name newDef opts"
proof -
  have reads: "readCollectionDefViaTx (without_row_errors E) table = readCollectionDefViaTx E table"
    by (rule ext) (auto simp: readCollectionDefViaTx_run without_row_errors_def split: prod.splits sum.splits)
  have execs: "conn_exec (without_row_errors E) = conn_exec E"
    by (intro ext) (simp add: conn_exec_def without_row_errors_def)
  show ?thesis
    unfolding ApplyModifyField_def reads execs ..
qed

text \<open>A table with an AUTOINCREMENT key and one more column, as pragma_table_info lists it.\<close>

definition people_info :: rowset where
  "people_info = all_rows [[V_Text ''id'', V_Text ''INTEGER'', V_Int 0, V_Int 1],
     [V_Text ''age'', V_Text ''TEXT'', V_Int 1, V_Int 0]]"

lemma modify_age_runs:
  "case ApplyModifyField (journal_engine people_info (\<lambda>_. False)) ''people'' ''age'' (field ''x'' Type_Int)
      no_options (one_connection ([], [])) of
     (Ok _, r) \<Rightarrow> length (fst (pl_db r)) = 4 | _ \<Rightarrow> False"
  by code_simp

theorem ApplyModifyField_rebuilds_witness:
  "\<exists>r createSQL t. ApplyModifyField (journal_engine people_info (\<lambda>_. False)) ''people'' ''age''
      (field ''x'' Type_Int) no_options (one_connection ([], [])) = (Ok (), r) \<and>
    read_create_table createSQL = Some t \<and> map pc_Name (pt_Columns t) = [''id'', ''age''] \<and>
    list_all (\<lambda>col. \<not> pc_AutoIncrement col) (pt_Columns t)"
proof -
  let ?E = "journal_engine people_info (\<lambda>_. False)"
  obtain r where run: "ApplyModifyField ?E ''people'' ''age'' (field ''x'' Type_Int) no_options
      (one_connection ([], [])) = (Ok (), r)"
    using modify_age_runs by (auto split: prod.splits outcome.splits)
  have "eng_query ?E tx_table_info_sql [V_Text ''people''] (pl_db (one_connection ([], []))) = (Inr people_info, ([], []))"
    by (simp add: journal_engine_def one_connection_def)
  from ApplyModifyField_rebuilds [OF run this] run show ?thesis
    by (fastforce simp: people_info_def field_def)
qed

theorem ApplyModifyField_unknown_column_witness:
  "\<exists>e. ApplyModifyField (journal_engine people_info (\<lambda>_. False)) ''people'' ''email'' (field ''x'' Type_Int)
      no_options (one_connection ([], [])) = (Fail e, one_connection ([], []))"
proof -
  have "eng_query (journal_engine people_info (\<lambda>_. False)) tx_table_info_sql [V_Text ''people'']
      (pl_db (one_connection ([], []))) = (Inr people_info, ([], []))"
    by (simp add: journal_engine_def one_connection_def)
  from ApplyModifyField_unknown_column [OF this, of "''email''"] show ?thesis
    by (simp add: people_info_def one_connection_def)
qed

end
