(* ===== verification/Modify_Effects.thy ===== *)
theory Modify_Effects
  imports Ddl_Effects Modify_Field
begin

text \<open>
  ModifyField from end to end: on a database that executes statements as SQLite documents, the table is
  read, built anew under another name, filled, dropped and renamed. What DescribeCollection returns
  afterwards: the same columns and key, the new type, no indexes and foreign keys, and the old Time markers.
\<close>

section \<open>The statements\<close>

lemma rename_sql_tokens:
  "sql_lex (rename_sql t) = Some [Word ''ALTER'', Word ''TABLE'', Ident (t @ ''_new''), Word ''RENAME'', Word ''TO'', Ident t]"
proof -
  have "lex_any '' RENAME TO '' [Word ''RENAME'', Word ''TO'']"
    using lex_any_phrase [of "[''RENAME'', ''TO'']", THEN lex_any_blank_phrase]
    by (simp add: phrase_def word_char_def less_eq_char_def)
  from lex_any_end [OF lex_any_append [OF lex_any_kw(10) lex_any_ident_blank [OF this]] lex_end_identifier, of "t @ ''_new''" t]
  show ?thesis by (auto simp: rename_sql_def boundary_def dest!: lex_end_whole)
qed

lemma read_statement_rename: "read_statement (rename_sql t) = Some (Rename_Table (t @ ''_new'') t)"
proof -
  have "\<exists>r. rename_sql t = ''ALTER'' @ r" by (simp add: rename_sql_def)
  then obtain r where "rename_sql t = ''ALTER'' @ r" by blast
  with read_statement_tokens [OF rename_sql_tokens [of t]] show ?thesis by (auto simp: token_statement_def read_alter_def)
qed

lemma read_statement_copy: "read_statement (copy_sql t fs) = Some (Insert_Into (t @ ''_new''))"
proof -
  have "\<exists>r. copy_sql t fs = ''INSERT INTO'' @ r" by (simp add: copy_sql_def Let_def)
  then obtain r where r: "copy_sql t fs = ''INSERT INTO'' @ r" by blast
  define names where "names = comma_tokens (map (\<lambda>n. [Ident n]) (map fd_Name fs))"
  have "\<exists>x y z us. names @ [Punct CHR '')'', Word ''SELECT''] @ names @ [Word ''FROM'', Ident t] = x # y # z # us"
    by (cases names; cases "tl names"; cases "tl (tl names)") (auto simp: Cons_eq_append_conv)
  then obtain x y z us where "names @ [Punct CHR '')'', Word ''SELECT''] @ names @ [Word ''FROM'', Ident t] = x # y # z # us" by blast
  then have "sql_lex (copy_sql t fs) = Some (Word ''INSERT'' # Word ''INTO'' # Ident (t @ ''_new'') # Punct CHR ''('' # x # y # z # us)"
    using copy_sql_tokens [of t fs] by (simp add: names_def)
  from read_statement_tokens [OF this] r show ?thesis by (auto simp: token_statement_def split: token.split)
qed

section \<open>The shape that is read\<close>

definition tx_field :: "column_entry \<Rightarrow> field_def" where
  "tx_field ce = tx_column (ce_name ce, ce_type ce, if ce_notnull ce then 1 else 0, ce_pk ce, ())"

lemma scan_tx_column_row:
  "int64_range (ce_pk ce) \<Longrightarrow> scan_tx_column (tx_column_row ce) =
     Inr (ce_name ce, ce_type ce, if ce_notnull ce then 1 else 0, ce_pk ce, ())"
  by (simp add: scan_tx_column_def tx_column_row_def scan_row_def)

lemma tx_rows_fold:
  "list_all (\<lambda>ce. int64_range (ce_pk ce)) ces \<Longrightarrow> rows_fold tx_column_step (fs, pks) (map tx_column_row ces) =
     Inr (fs @ map tx_field ces, pks @ key_entries ces)"
proof (induction ces arbitrary: fs pks)
  case (Cons ce ces)
  then show ?case by (simp add: tx_column_step_def scan_tx_column_row tx_field_def key_entries_def)
qed (simp add: key_entries_def)

text \<open>The definition of the new table, from the object.\<close>

definition remade :: "string \<Rightarrow> string \<Rightarrow> field_def \<Rightarrow> object_entry \<Rightarrow> collection_def" where
  "remade table name newDef ob =
     bare_collection (table @ ''_new'') (modify_fields name newDef (map tx_field (visible ob))) (map ce_name (key_columns ob))"

lemma read_on_catalog:
  assumes "serves E cat (pl_db p)" "wf_catalog cat"
  shows "readCollectionDefViaTx E table p = (Ok (case object_named cat table of
      None \<Rightarrow> bare_collection table [] []
    | Some ob \<Rightarrow> bare_collection table (map tx_field (visible ob)) (map ce_name (key_columns ob))), p)"
proof -
  have "answers E (pl_db p) tx_table_info_sql [V_Text table] (on_object cat table (\<lambda>ob. map tx_column_row (visible ob)))"
    using served [OF assms(1), of "[V_Text table]"] by (simp add: catalog_answers_def)
  then have query: "eng_query E tx_table_info_sql [V_Text table] (pl_db p) =
      (Inr (all_rows (on_object cat table (\<lambda>ob. map tx_column_row (visible ob)))), pl_db p)"
    by (simp add: answers_def)
  show ?thesis
  proof (cases "object_named cat table")
    case None
    then have "on_object cat table f = []" for f by (simp add: on_object_def object_named_def)
    then show ?thesis using None query by (simp add: readCollectionDefViaTx_run sortPKByOrder_sort_key)
  next
    case (Some ob)
    then have "on_object cat table f = f ob" for f by (simp add: on_object_def object_named_def)
    moreover have "list_all (\<lambda>ce. int64_range (ce_pk ce)) (visible ob)"
      using visible_in_range [OF assms(2)] Some by (auto simp: list_all_iff object_named_iff [OF assms(2)])
    ultimately show ?thesis
      using Some query by (simp add: readCollectionDefViaTx_run tx_rows_fold sorted_key_entries)
  qed
qed

lemma modify_on_catalog:
  assumes "serves E cat (pl_db p)" "wf_catalog cat" "object_named cat table = Some ob"
    and "ApplyModifyField E table name newDef opts p = (Ok (), r)"
  obtains s fs where "name \<in> ce_name ` set (visible ob)" "buildCreateTableSQL (remade table name newDef ob) no_options = Inr s"
    "exec_all E (modify_plan table s fs) (pl_db p) = (None, pl_db r)" "pl_open r = pl_open p"
proof -
  have field: "fd_Name (tx_field ce) = ce_name ce" for ce by (simp add: tx_field_def)
  show thesis
    using assms(4) that unfolding ApplyModifyField_run [OF read_on_catalog [OF assms(1,2)]] assms(3)
    by (auto simp: modified_table_def remade_def field)
qed

section \<open>The four statements\<close>

lemma fold_append: "foldASCII (s @ t) = foldASCII s @ foldASCII t"
  by (simp add: foldASCII_def)

lemma fold_new: "foldASCII (t @ ''_new'') = foldASCII t @ ''_new''"
  by (simp add: fold_append) (simp add: foldASCII_def ascii_lower_def)

lemma new_name_apart:
  "foldASCII (t @ ''_new'') \<noteq> foldASCII t" "foldASCII (t @ ''_new'') \<noteq> timeMarkerTable"
proof -
  show "foldASCII (t @ ''_new'') \<noteq> foldASCII t" by (simp add: fold_new)
  have "last (foldASCII (t @ ''_new'')) \<noteq> last timeMarkerTable" by (simp add: fold_new timeMarkerTable_def)
  then show "foldASCII (t @ ''_new'') \<noteq> timeMarkerTable" by auto
qed

lemma may_read_new: "may_read vw (t @ ''_new'') \<Longrightarrow> may_read vw t"
  using sublist_order.order.trans [OF sublist_append_rightI]
  by (auto simp: may_read_def go_contains_iff fold_append)

text \<open>What can be modified: what can be dropped, when no foreign key is to the new table's name already.\<close>

definition modifiable :: "catalog \<Rightarrow> string \<Rightarrow> bool" where
  "modifiable cat n \<longleftrightarrow> droppable cat n \<and> \<not> targeted cat (n @ ''_new'') \<and>
     (case object_named cat n of None \<Rightarrow> True | Some ob \<Rightarrow> distinct (map ce_name (oe_columns ob)))"

lemma remade_keyed:
  assumes "distinct (map ce_name (oe_columns ob))" "name \<in> ce_name ` set (visible ob)"
  shows "keyed (remade table name newDef ob)" "map fd_Name (cd_Fields (remade table name newDef ob)) = map ce_name (visible ob)"
proof -
  have field: "fd_Name (tx_field ce) = ce_name ce" for ce by (simp add: tx_field_def)
  then show names: "map fd_Name (cd_Fields (remade table name newDef ob)) = map ce_name (visible ob)"
    by (simp add: remade_def comp_def)
  have "distinct (map ce_name (visible ob))" using assms(1) by (simp add: visible_def distinct_map_filter)
  moreover have "set (map ce_name (key_columns ob)) \<subseteq> set (map ce_name (visible ob))" by (auto simp: key_columns_def)
  moreover have "cd_Fields (remade table name newDef ob) \<noteq> []" using assms(2) by (auto simp: remade_def modify_fields_def)
  moreover have "cd_PrimaryKey (remade table name newDef ob) = map ce_name (key_columns ob)" by (simp add: remade_def)
  ultimately show "keyed (remade table name newDef ob)" unfolding keyed_def names by simp
qed

lemma built_head: "buildCreateTableSQL c no_options = Inr s \<Longrightarrow> prefix (table_head (cd_Name c)) s"
  by (auto simp: buildCreateTableSQL_def Let_def table_head_def split: sum.splits)

lemma made_indexes: "ix \<in> set (oe_indexes (made_table t pk s)) \<Longrightarrow>
    ie_name ix = ''sqlite_autoindex_'' @ pt_Name t @ ''_1'' \<and> ie_ddl ix = None \<and> ie_origin ix = ''pk''"
  by (auto simp: made_table_def made_index_def split: if_splits)

lemma automatic_name: "ie_name ix = ''sqlite_autoindex_'' @ old @ ''_1'' \<Longrightarrow>
    renamed_index old new ix = ix\<lparr>ie_name := ''sqlite_autoindex_'' @ new @ ''_1''\<rparr>"
proof -
  assume ix: "ie_name ix = ''sqlite_autoindex_'' @ old @ ''_1''"
  then have name: "ie_name ix = (''sqlite_autoindex_'' @ old) @ ''_1''" by simp
  have "length (''sqlite_autoindex_'' @ old) = 17 + length old" by simp
  then have "drop (17 + length old) (ie_name ix) = ''_1''" by (metis name append_eq_conv_conj)
  moreover have "prefix (''sqlite_autoindex_'' @ old) (ie_name ix)" unfolding name by (rule prefixI) (rule refl)
  ultimately show ?thesis by (simp add: renamed_index_def)
qed

lemma renamed_made:
  "ix \<in> set (oe_indexes (renamed_object n (made_table t pk s))) \<Longrightarrow> ie_name ix = ''sqlite_autoindex_'' @ n @ ''_1'' \<and> ie_origin ix = ''pk''"
  using automatic_name made_indexes by (force simp: renamed_object_def)

lemma renamed_object_sel [simp]: "oe_name (renamed_object n ob) = n" "oe_kind (renamed_object n ob) = oe_kind ob"
    "oe_columns (renamed_object n ob) = oe_columns ob" "oe_keys (renamed_object n ob) = oe_keys ob"
    "visible (renamed_object n ob) = visible ob" "key_columns (renamed_object n ob) = key_columns ob"
    "first_hidden (renamed_object n ob) = first_hidden ob"
  by (simp_all add: renamed_object_def visible_def key_columns_def first_hidden_def)

lemma wf_renamed_object: "wf_object ob \<Longrightarrow> wf_object (renamed_object n ob)"
  by (auto simp: wf_object_def renamed_object_def renamed_index_def visible_def list_all_iff)

lemma rename_made:
  assumes "wf_catalog cat" "object_named cat (pt_Name t) = Some (made_table t pk s)" "prefix (table_head (pt_Name t)) s"
    and "timeMarkerTable \<notin> {foldASCII (pt_Name t), foldASCII n}" "\<not> targeted cat (pt_Name t)"
    and "\<not> list_ex (\<lambda>vw. may_read vw (pt_Name t) \<or> may_read vw n) (views cat)" "exec_rename (pt_Name t) n cat \<noteq> Refused"
    and "cat' = add_object (renamed_object n (made_table t pk s)) (drop_object (pt_Name t) cat)"
  shows "exec_rename (pt_Name t) n cat = Changed cat'" "wf_catalog cat'"
    "object_named cat' n = Some (renamed_object n (made_table t pk s))"
    "agree_except {foldASCII (pt_Name t), foldASCII n} cat cat'"
proof -
  let ?ob = "made_table t pk s" and ?cat = "drop_object (pt_Name t) cat"
  have "\<not> list_ex (\<lambda>ix. ie_name ix \<noteq> ''sqlite_autoindex_'' @ pt_Name t @ ''_1'' \<or> ie_ddl ix \<noteq> None) (oe_indexes ?ob)"
    by (auto simp: list_ex_iff dest: made_indexes)
  then show "exec_rename (pt_Name t) n cat = Changed cat'"
    using assms(2-8) by (auto simp: exec_rename_def split: if_splits)
  have free: "\<not> taken cat n" "\<not> taken cat (''sqlite_autoindex_'' @ n @ ''_1'')"
    using assms(2,7) by (auto simp: exec_rename_def split: if_splits)
  have wf: "wf_catalog ?cat" by (rule wf_drop_object [OF assms(1)])
  have none: "object_named ?cat n = None" using taken_object [OF free(1)] by (simp add: object_named_drop)
  have fewer: "set (all_indexes ?cat) \<subseteq> set (all_indexes cat)" by (auto simp: all_indexes_def drop_object_def)
  show "wf_catalog cat'"
    unfolding assms(8)
  proof (rule wf_add_object [OF wf])
    have "wf_object ?ob" using assms(1,2) by (auto simp: object_named_iff wf_catalog_def list_all_iff)
    then show "wf_object (renamed_object n ?ob)" by (rule wf_renamed_object)
    have "length (oe_indexes (renamed_object n ?ob)) \<le> 1" by (simp add: renamed_object_def made_table_def)
    then show "distinct (map (foldASCII \<circ> ie_name) (oe_indexes (renamed_object n ?ob)))"
      by (cases "oe_indexes (renamed_object n ?ob)") auto
    show "foldASCII (ie_name ix) \<notin> foldASCII ` ie_name ` set (all_indexes ?cat)" if "ix \<in> set (oe_indexes (renamed_object n ?ob))" for ix
      using renamed_made [OF that] free(2) fewer by (auto simp: taken_def image_Un)
  qed (simp add: none)
  note named = object_named_add [OF wf \<open>wf_catalog cat'\<close> [unfolded assms(8)], folded assms(8)]
  show "object_named cat' n = Some (renamed_object n ?ob)" by (simp add: named)
  show "agree_except {foldASCII (pt_Name t), foldASCII n} cat cat'"
    by (simp add: agree_except_def named object_named_drop) (simp add: assms(8) drop_object_def)
qed

text \<open>Names that a new table leaves as they were.\<close>

lemma kept_views:
  assumes "set (cat_objects cat') \<subseteq> {made_table t pk s, sequence_table} \<union> set (cat_objects cat)"
  shows "set (views cat') \<subseteq> set (views cat)" "targeted cat' n \<Longrightarrow> targeted cat n"
proof -
  have old: "ob \<in> set (cat_objects cat) \<or> oe_kind ob = Table \<and> oe_keys ob = []" if "ob \<in> set (cat_objects cat')" for ob
    using subsetD [OF assms that] by (auto simp: made_table_def sequence_table_def)
  show "set (views cat') \<subseteq> set (views cat)" using old by (force simp: views_def)
  show "targeted cat' n \<Longrightarrow> targeted cat n" using old by (force simp: targeted_def list_ex_iff)
qed

lemma dropped_views:
  "set (views (drop_object m cat)) \<subseteq> set (views cat)" "targeted (drop_object m cat) n \<Longrightarrow> targeted cat n"
  by (auto simp: views_def drop_object_def targeted_def list_ex_iff)

text \<open>The first three statements: the new table beside the old one, the rows copied, the old table dropped.\<close>

lemma run_modify_copy:
  assumes "executes E cat_of" "wf_catalog (cat_of d)" "modifiable (cat_of d) table"
    and "object_named (cat_of d) table = Some ob" "c = remade table name newDef ob" "keyed c"
    and "buildCreateTableSQL c no_options = Inr s" "exec_all E (modify_plan table s fs) d = (None, d')"
  obtains d3 where "eng_exec E (rename_sql table) [] d3 = (None, d')" "wf_catalog (cat_of d3)"
    "object_named (cat_of d3) (table @ ''_new'') = Some (made_table (table_shape c no_options) (cd_PrimaryKey c) s)"
    "set (views (cat_of d3)) \<subseteq> set (views (cat_of d))" "\<not> targeted (cat_of d3) (table @ ''_new'')"
    "object_named (cat_of d3) timeMarkerTable = object_named (cat_of d) timeMarkerTable"
    "cat_markers (cat_of d3) = cat_markers (cat_of d)"
proof -
  let ?new = "table @ ''_new''"
  from assms(8) obtain d1 d2 d3 where run: "eng_exec E s [] d = (None, d1)" "eng_exec E (copy_sql table fs) [] d1 = (None, d2)"
      "eng_exec E (buildDropTableSQL table no_options) [] d2 = (None, d3)" "eng_exec E (rename_sql table) [] d3 = (None, d')"
    by (auto simp: modify_plan_def split: prod.splits option.splits)
  have name: "cd_Name c = ?new" by (simp add: assms(5) remade_def bare_collection_def)
  note cat1 = run_table [OF assms(1,2,6,7) run(1), unfolded name]
  have apart: "foldASCII table \<noteq> ''sqlite_sequence''" "foldASCII table \<noteq> timeMarkerTable"
    using assms(3) by (auto simp: modifiable_def droppable_def sqlite_reserved_def)
  have "exec_insert ?new (cat_of d1) = Changed (cat_of d1)"
    using cat1(3,6) new_name_apart(2) by (simp add: exec_insert_def)
  then have cat2: "cat_of d2 = cat_of d1"
    using executed(2) [OF assms(1) cat1(1) run(2)] by (simp add: catalog_exec_def read_statement_copy)
  have old: "object_named (cat_of d1) table = Some ob"
    using agree_object [OF cat1(4)] assms(4) new_name_apart(1) [of table] apart(1) by simp
  have "droppable (cat_of d1) table"
    using assms(3,4) kept_views(1) [OF cat1(8)] by (auto simp: droppable_def modifiable_def old list_ex_iff)
  from exec_drop_Changed [OF cat1(1) this, of False]
  have cat3: "cat_of d3 = drop_object table (cat_of d1)"
    using executed [OF assms(1) _ run(3)] cat1(1) by (simp add: cat2 catalog_exec_drop)
  have marker: "timeMarkerTable \<noteq> foldASCII ?new" "timeMarkerTable \<noteq> ''sqlite_sequence''"
    using new_name_apart(2) [of table] by (simp_all add: timeMarkerTable_def)
  show ?thesis
  proof (rule that [of d3])
    show "eng_exec E (rename_sql table) [] d3 = (None, d')" by (rule run(4))
    show "wf_catalog (cat_of d3)" unfolding cat3 by (rule wf_drop_object [OF cat1(1)])
    show "object_named (cat_of d3) ?new = Some (made_table (table_shape c no_options) (cd_PrimaryKey c) s)"
      using cat1(3) new_name_apart(1) by (simp add: cat3 object_named_drop)
    show "set (views (cat_of d3)) \<subseteq> set (views (cat_of d))" "\<not> targeted (cat_of d3) ?new"
      using kept_views [OF cat1(8)] dropped_views assms(3) unfolding cat3 modifiable_def by blast+
    show "object_named (cat_of d3) timeMarkerTable = object_named (cat_of d) timeMarkerTable"
      using agree_object [OF cat1(4), of timeMarkerTable] apart(2) marker by (simp add: cat3 object_named_drop marker_names)
    show "cat_markers (cat_of d3) = cat_markers (cat_of d)" using cat1(2) by (simp add: cat3 drop_object_def)
  qed
qed

lemma run_modify_plan:
  assumes "executes E cat_of" "wf_catalog (cat_of d)" "markers_ok (cat_of d)" "modifiable (cat_of d) table"
    and "object_named (cat_of d) table = Some ob" "c = remade table name newDef ob" "keyed c"
    and "buildCreateTableSQL c no_options = Inr s" "exec_all E (modify_plan table s fs) d = (None, d')"
  shows "wf_catalog (cat_of d')"
    "object_named (cat_of d') table = Some (renamed_object table (made_table (table_shape c no_options) (cd_PrimaryKey c) s))"
    "spec_markers (cat_of d') n = spec_markers (cat_of d) n"
proof -
  let ?new = "table @ ''_new''" and ?t = "table_shape c no_options"
  let ?made = "made_table ?t (cd_PrimaryKey c) s"
  obtain d3 where run: "eng_exec E (rename_sql table) [] d3 = (None, d')" and wf3: "wf_catalog (cat_of d3)"
    and named3: "object_named (cat_of d3) ?new = Some ?made"
    and sub3: "set (views (cat_of d3)) \<subseteq> set (views (cat_of d))" "\<not> targeted (cat_of d3) ?new"
    and keep3: "object_named (cat_of d3) timeMarkerTable = object_named (cat_of d) timeMarkerTable"
      "cat_markers (cat_of d3) = cat_markers (cat_of d)"
    by (rule run_modify_copy [OF assms(1,2,4-9)])
  have name: "cd_Name c = ?new" "pt_Name ?t = ?new" by (simp_all add: assms(6) remade_def bare_collection_def table_shape_def)
  have "\<not> list_ex (\<lambda>vw. may_read vw table) (views (cat_of d))" using assms(4) by (simp add: modifiable_def droppable_def)
  then have unread: "\<not> list_ex (\<lambda>vw. may_read vw ?new \<or> may_read vw table) (views (cat_of d3))"
    using may_read_new sub3(1) by (auto simp: list_ex_iff)
  have rename: "exec_rename ?new table (cat_of d3) \<noteq> Refused"
    using executed(1) [OF assms(1) wf3 run] by (simp add: catalog_exec_def read_statement_rename)
  have "prefix (table_head ?new) s" using built_head [OF assms(8)] by (simp add: name)
  note cat4 = rename_made [of "cat_of d3" ?t "cd_PrimaryKey c" s table, unfolded name(2), OF wf3 named3 this _ sub3(2) unread rename refl]
  have outside: "timeMarkerTable \<notin> {foldASCII ?new, foldASCII table}"
    using new_name_apart(2) [of table] assms(4) by (auto simp: modifiable_def droppable_def sqlite_reserved_def)
  have same: "cat_of d' = add_object (renamed_object table ?made) (drop_object ?new (cat_of d3))"
    using executed(2) [OF assms(1) wf3 run] cat4(1) [OF outside] by (simp add: catalog_exec_def read_statement_rename)
  show wf: "wf_catalog (cat_of d')" and "object_named (cat_of d') table = Some (renamed_object table ?made)"
    using cat4(2,3) [OF outside] by (simp_all add: same)
  have table: "object_named (cat_of d') timeMarkerTable = object_named (cat_of d) timeMarkerTable"
    using agree_object [OF cat4(4) [OF outside]] outside keep3(1) by (simp add: same marker_names)
  then have "markers_ok (cat_of d')" using assms(3) by (simp add: markers_ok_def)
  then have "marked (cat_of d') \<longleftrightarrow> marked (cat_of d)"
    using markers_ok_marked [OF wf] markers_ok_marked [OF assms(2,3)] table by simp
  moreover have "cat_markers (cat_of d') = cat_markers (cat_of d)" using keep3(2) by (simp add: same drop_object_def)
  ultimately show "spec_markers (cat_of d') n = spec_markers (cat_of d) n" by (simp add: spec_markers_def)
qed

section \<open>Modify, then describe\<close>

lemma io_bind_right: "io_bind m io_return = m"
  by (rule ext) (simp add: io_bind_def io_return_def split: prod.split outcome.split)

text \<open>A successful alteration, and one change of a field.\<close>

lemma AlterCollection_runs:
  assumes "executes E cat_of" "pl_open p = []" "AlterCollection E table (map run_call cs) p = (Ok (), q)"
  obtains d r where "cat_of d = cat_of (pl_db p)" "alter_body E table (map run_call cs) (in_tx_pool p d) = (Ok (), r)"
    "fst (eng_commit E (pl_db r)) = None" "cat_of (pl_db q) = cat_of (pl_db r)" "pl_open q = []"
proof -
  have pool: "free_pool p" "pool_ok p" using assms(2) by (auto simp: free_pool_def pool_ok_def)
  have "inTx E (alter_body E table (map run_call cs)) p = (Ok (), q)" using assms(3) by (simp add: AlterCollection_def)
  then obtain d r where run: "eng_begin E (pl_db p) = (None, d)" "alter_body E table (map run_call cs) (in_tx_pool p d) = (Ok (), r)"
      "eng_commit E (pl_db r) = (None, pl_db q)" "pl_open q = pl_open p"
    using alter_tx.success [OF pool] by blast
  show thesis
  proof (rule that [OF _ run(2)])
    show "cat_of d = cat_of (pl_db p)" "cat_of (pl_db q) = cat_of (pl_db r)"
      using assms(1) run(1,3) unfolding executes_def by metis+
    show "fst (eng_commit E (pl_db r)) = None" "pl_open q = []" using run(3,4) assms(2) by simp_all
  qed
qed

lemma AlterCollection_one:
  assumes "executes E cat_of" "pl_open p = []" "AlterCollection E table [run_call c] p = (Ok (), q)"
  obtains d r where "cat_of d = cat_of (pl_db p)" "run_call c (sqliteAlterApplier E table) (in_tx_pool p d) = (Ok (), r)"
    "fst (eng_commit E (pl_db r)) = None" "cat_of (pl_db q) = cat_of (pl_db r)" "pl_open q = []"
  using AlterCollection_runs [OF assms(1,2), of table "[c]" q] assms(3) that by (auto simp: alter_body_def io_bind_right)

lemma AlterCollection_modify_run:
  assumes "executes E cat_of" "wf_catalog (cat_of (pl_db p))" "pl_open p = []"
    and "object_named (cat_of (pl_db p)) table = Some ob"
    and "AlterCollection E table [run_call (Modify_Field name newDef opts)] p = (Ok (), q)"
  obtains d0 d1 s fs where "cat_of d0 = cat_of (pl_db p)" "name \<in> ce_name ` set (visible ob)"
    "buildCreateTableSQL (remade table name newDef ob) no_options = Inr s"
    "exec_all E (modify_plan table s fs) d0 = (None, d1)" "cat_of (pl_db q) = cat_of d1" "pl_open q = []"
proof -
  obtain d0 r where run: "cat_of d0 = cat_of (pl_db p)" "run_call (Modify_Field name newDef opts) (sqliteAlterApplier E table) (in_tx_pool p d0) = (Ok (), r)"
      "cat_of (pl_db q) = cat_of (pl_db r)" "pl_open q = []"
    by (rule AlterCollection_one [OF assms(1,3,5)]) (rule that)
  have run_body: "ApplyModifyField E table name newDef opts (in_tx_pool p d0) = (Ok (), r)"
    using run(2) by (simp add: sqliteAlterApplier_def)
  have "serves E (cat_of (pl_db p)) (pl_db (in_tx_pool p d0))"
    using executes_serves [OF assms(1), of d0] run(1) by simp
  then obtain s fs where body: "name \<in> ce_name ` set (visible ob)"
      "buildCreateTableSQL (remade table name newDef ob) no_options = Inr s"
      "exec_all E (modify_plan table s fs) (pl_db (in_tx_pool p d0)) = (None, pl_db r)"
    by (rule modify_on_catalog [OF _ assms(2,4) run_body]) (rule that)
  show thesis
    by (rule that [OF run(1) body(1,2) _ run(3,4)]) (use body(3) in simp)
qed

lemma described_remade:
  assumes "buildCreateTableSQL (remade table name newDef ob) no_options = Inr s" "f \<in> set (cd_Fields (remade table name newDef ob))"
    and "ce = created_column (table_shape (remade table name newDef ob) no_options) (column_shape (remade table name newDef ob) f)"
  shows "ce_name ce = fd_Name f" "ce_hidden ce = 0" "\<not> unreadable marks ce"
    "fst (spec_type marks ce) = (if fd_Name f \<in> marks then Type_Time else read_back (fd_Type f))"
    "ce_pk ce = key_position (map ce_name (key_columns ob)) (fd_Name f)"
proof -
  obtain ty where ty: "sqliteTypeFor (fd_Type f) = Inr ty" using built_field_type [OF assms(1,2)] by blast
  show "ce_name ce = fd_Name f" "ce_hidden ce = 0" by (simp_all add: assms(3))
  show "\<not> unreadable marks ce" "fst (spec_type marks ce) = (if fd_Name f \<in> marks then Type_Time else read_back (fd_Type f))"
    using sqliteTypeFor_read_back [OF ty] ty by (simp_all add: unreadable_def recognized_def spec_type_def declared_type_def assms(3))
  show "ce_pk ce = key_position (map ce_name (key_columns ob)) (fd_Name f)"
    unfolding assms(3) created_key by (simp add: remade_def)
qed

lemma read_back_not_time: "read_back ty \<noteq> Type_Time"
  by (cases ty) simp_all

lemma made_columns:
  "oe_columns (made_table (table_shape c no_options) (cd_PrimaryKey c) s) =
     map (\<lambda>f. created_column (table_shape c no_options) (column_shape c f)) (cd_Fields c)"
  using created_key [of c no_options] by (auto simp: made_table_def table_shape_def created_column_def)

lemma remade_key:
  assumes "keyed c" "c = remade table name newDef ob" "distinct (map ce_name (oe_columns ob))"
    and "map ce_name cs = map fd_Name (cd_Fields c)" "\<And>ce. ce \<in> set cs \<Longrightarrow> ce_pk ce = key_position (cd_PrimaryKey c) (ce_name ce)"
  shows "map ce_name (sort_key ce_pk (filter (\<lambda>ce. ce_pk ce > 0) cs)) = map ce_name (key_columns ob)"
proof -
  have pk: "cd_PrimaryKey c = map ce_name (key_columns ob)" by (simp add: assms(2) remade_def)
  have "inj_on ce_name (set (oe_columns ob))" "distinct (oe_columns ob)" using assms(3) by (simp_all add: distinct_map)
  then have "distinct (cd_PrimaryKey c)"
    unfolding pk by (auto simp: distinct_map key_columns_def visible_def intro: inj_on_subset)
  moreover have "distinct (map ce_name cs)" "set (cd_PrimaryKey c) \<subseteq> set (map ce_name cs)"
    using assms(1) unfolding keyed_def assms(4) by simp_all
  ultimately have "map ce_name (sort_key ce_pk (filter (\<lambda>ce. ce_pk ce > 0) cs)) = cd_PrimaryKey c"
    using assms(5) by (rule sort_by_position)
  then show ?thesis by (simp only: pk)
qed

text \<open>What DescribeCollection returns for the table ModifyField has made.\<close>

lemma describe_remade:
  assumes "c = remade table name newDef ob" "buildCreateTableSQL c no_options = Inr s" "t = table_shape c no_options"
    and "ob' = renamed_object table (made_table t (cd_PrimaryKey c) s)"
    and "wf_catalog cat" "object_named cat table = Some ob'" "d = describe_object cat False ob'"
  shows "describe_spec cat False table = Inr d" "cd_Name d = table" "cd_PrimaryKey d = map ce_name (key_columns ob')"
    "cd_Fields d = map (\<lambda>f. describe_field (spec_markers cat table) ob' (created_column t (column_shape c f))) (cd_Fields c)"
    "cd_Indexes d = []" "cd_ForeignKeys d = []"
proof -
  note column = described_remade [OF assms(2) [unfolded assms(1)] _ refl, folded assms(1), folded assms(3)]
  have visible: "visible ob' = map (\<lambda>f. created_column t (column_shape c f)) (cd_Fields c)"
    by (simp add: assms(3,4) visible_def made_columns filter_id_conv)
  have found: "described cat False table = Some ob'" by (simp add: described_by_name [OF assms(5)] assms(6)) (simp add: assms(4))
  have "find (unreadable (spec_markers cat table)) (visible ob') = None" "first_hidden ob' = None"
    using column(3) visible by (auto simp: find_None_iff first_hidden_def made_columns assms(3,4))
  then show "describe_spec cat False table = Inr d"
    by (simp only: describe_spec_def found option.case assms(7) if_False)
  show "cd_Fields d = map (\<lambda>f. describe_field (spec_markers cat table) ob' (created_column t (column_shape c f))) (cd_Fields c)"
    by (simp only: assms(7) describe_object_def Let_def collection_def.simps visible map_map comp_def)
      (simp only: assms(4) renamed_object_sel(1))
  have "filter (\<lambda>ix. ie_origin ix \<noteq> ''pk'' \<and> spec_index_fields ix \<noteq> []) (oe_indexes ob') = []"
    using renamed_made by (auto simp: filter_empty_conv assms(4))
  then show "cd_Indexes d = []" by (simp add: assms(7) describe_object_def Let_def spec_indexes_def)
  show "cd_Name d = table" "cd_PrimaryKey d = map ce_name (key_columns ob')" "cd_ForeignKeys d = []"
    by (simp_all add: assms(4,7) describe_object_def Let_def made_table_def)
qed

lemma remade_type:
  assumes "f \<in> set (cd_Fields (remade table name newDef ob))" "fd_Name f = name"
  shows "fd_Type f = fd_Type newDef"
proof -
  from assms(1) obtain g where g: "f = (if fd_Name g = name then newDef\<lparr>fd_Name := name\<rparr> else g)"
    unfolding remade_def bare_collection_sel modify_fields_def set_map by blast
  show ?thesis using assms(2) unfolding g by (simp split: if_splits)
qed

text \<open>C15: ModifyField changes the type of one column. After a successful AlterCollection with it, DescribeCollection
  returns the same columns in the same order and the same key, and the column has its new type as SQLite keeps
  it; but no index and no foreign key of the collection is left, and the Time markers are
  those of before: a column is Time afterwards exactly when it was marked before, whatever its new type.\<close>

theorem ModifyField_describe:
  assumes "executes E cat_of" "wf_catalog (cat_of (pl_db p))" "markers_ok (cat_of (pl_db p))" "pl_open p = []"
    and "modifiable (cat_of (pl_db p)) table" "object_named (cat_of (pl_db p)) table = Some ob"
    and "AlterCollection E table [run_call (Modify_Field name newDef opts)] p = (Ok (), q)"
    and "marks = spec_markers (cat_of (pl_db p)) table"
  shows "\<exists>d. fst (DescribeCollection E False table q) = Ok d \<and> cd_Name d = table \<and>
    map fd_Name (cd_Fields d) = map ce_name (visible ob) \<and> cd_PrimaryKey d = map ce_name (key_columns ob) \<and>
    name \<in> fd_Name ` set (cd_Fields d) \<and>
    (\<forall>f \<in> set (cd_Fields d). fd_Type f = Type_Time \<longleftrightarrow> fd_Name f \<in> marks) \<and>
    (\<forall>f \<in> set (cd_Fields d). fd_Name f = name \<longrightarrow> name \<notin> marks \<longrightarrow> fd_Type f = read_back (fd_Type newDef)) \<and>
    cd_Indexes d = [] \<and> cd_ForeignKeys d = []"
proof (rule AlterCollection_modify_run [OF assms(1,2,4,6,7)])
  fix d0 d1 s fs
  assume run: "cat_of d0 = cat_of (pl_db p)" "name \<in> ce_name ` set (visible ob)"
    "buildCreateTableSQL (remade table name newDef ob) no_options = Inr s"
    "exec_all E (modify_plan table s fs) d0 = (None, d1)" "cat_of (pl_db q) = cat_of d1" "pl_open q = []"
  let ?c = "remade table name newDef ob"
  let ?t = "table_shape ?c no_options"
  let ?ob = "renamed_object table (made_table ?t (cd_PrimaryKey ?c) s)"
  let ?made = "\<lambda>f. created_column ?t (column_shape ?c f)"
  let ?d = "describe_object (cat_of (pl_db q)) False ?ob"
  have distinct: "distinct (map ce_name (oe_columns ob))" using assms(5,6) by (simp add: modifiable_def)
  note keyed = remade_keyed [OF distinct run(2), of table newDef]
  note after = run_modify_plan [OF assms(1) _ _ _ _ refl keyed(1) run(3,4), unfolded run(1), OF assms(2,3,5,6), folded run(5)]
  note column = described_remade [OF run(3) _ refl]
  note now = describe_remade [OF refl run(3) refl refl after(1,2) refl, unfolded after(3), folded assms(8)]
  have visible: "visible ?ob = map ?made (cd_Fields ?c)" by (simp add: visible_def made_columns filter_id_conv)
  have "map ce_name (visible ?ob) = map fd_Name (cd_Fields ?c)" unfolding visible by simp
  from remade_key [OF keyed(1) refl distinct this] have key: "map ce_name (key_columns ?ob) = map ce_name (key_columns ob)"
    unfolding key_columns_def [of ?ob] visible by (force simp only: set_map created_key created_column_simps column_shape_simps)
  have type: "fd_Name (describe_field marks ?ob (?made f)) = fd_Name f"
    "fd_Type (describe_field marks ?ob (?made f)) = (if fd_Name f \<in> marks then Type_Time else read_back (fd_Type f))"
    if "f \<in> set (cd_Fields ?c)" for f
    using column(1,4) [OF that] by (simp_all add: describe_field_def)
  have names: "map fd_Name (cd_Fields ?d) = map ce_name (visible ob)"
    using type(1) unfolding keyed(2) [symmetric] now(4) map_map by (intro map_cong) simp_all
  show ?thesis
  proof (intro exI conjI)
    show "fst (DescribeCollection E False table q) = Ok ?d"
      by (simp only: describe_now [OF assms(1) after(1) run(6)] now(1) outcome_of.simps)
    show "map fd_Name (cd_Fields ?d) = map ce_name (visible ob)" by (rule names)
    show "name \<in> fd_Name ` set (cd_Fields ?d)" using run(2) unfolding set_map [symmetric] names .
    show "\<forall>f \<in> set (cd_Fields ?d). fd_Type f = Type_Time \<longleftrightarrow> fd_Name f \<in> marks"
      unfolding now(4) set_map using type read_back_not_time by simp
    show "\<forall>f \<in> set (cd_Fields ?d). fd_Name f = name \<longrightarrow> name \<notin> marks \<longrightarrow> fd_Type f = read_back (fd_Type newDef)"
      unfolding now(4) set_map using type remade_type by simp
    show "cd_Name ?d = table" "cd_PrimaryKey ?d = map ce_name (key_columns ob)" "cd_Indexes ?d = []" "cd_ForeignKeys ?d = []"
      using now(2,3,5,6) key by simp_all
  qed
qed

section \<open>A diary modified\<close>

text \<open>The Time column of the diary, changed to Float: it is still described as Time.\<close>

definition float_diary :: collection_def where
  "float_diary = remade ''visit'' ''at'' (field ''at'' Type_Float) (one_column_table ''visit'')"

definition visit_new_sql :: string where
  "visit_new_sql = ''CREATE TABLE \"visit_new\" (\"at\" REAL)''"

definition modified_diary :: catalog where
  "modified_diary = \<lparr>cat_objects = [markers_made, renamed_object ''visit''
     (made_table (table_shape float_diary no_options) [] visit_new_sql)],
     cat_keys_on = True, cat_markers = [(''visit'', ''at'')]\<rparr>"

definition made_diary :: catalog where
  "made_diary = \<lparr>cat_objects = [markers_made, one_column_table ''visit'',
     made_table (table_shape float_diary no_options) [] visit_new_sql], cat_keys_on = True, cat_markers = [(''visit'', ''at'')]\<rparr>"

definition emptied_diary :: catalog where
  "emptied_diary = \<lparr>cat_objects = [markers_made, made_table (table_shape float_diary no_options) [] visit_new_sql],
     cat_keys_on = True, cat_markers = [(''visit'', ''at'')]\<rparr>"

lemma visit_columns: "visible (one_column_table ''visit'') =
    [\<lparr>ce_name = ''at'', ce_type = ''TEXT'', ce_notnull = False, ce_default = None, ce_pk = 0, ce_hidden = 0\<rparr>]"
    "oe_columns (one_column_table ''visit'') = visible (one_column_table ''visit'')" "key_columns (one_column_table ''visit'') = []"
  by (simp_all add: visible_def key_columns_def one_column_table_def made_table_def one_column_shape)
    (simp add: one_column_def bare_collection_def declared_type_def)

lemma float_diary_parts: "cd_Name float_diary = ''visit_new''" "cd_PrimaryKey float_diary = []" "cd_Indexes float_diary = []"
    "cd_Fields float_diary = [\<lparr>fd_Name = ''at'', fd_Type = Type_Float, fd_Precision = None, fd_Nullable = True, fd_AutoIncrement = False\<rparr>]"
  by (simp_all add: float_diary_def remade_def visit_columns modify_fields_def field_def bare_collection_def tx_field_def)

lemma float_diary_text: "buildCreateTableSQL float_diary no_options = Inr visit_new_sql"
  by (simp add: buildCreateTableSQL_def Let_def float_diary_parts map_result.simps buildColumnDecl_def has_inline_pk_def
      has_composite_pk_def quoteIdentifier_def visit_new_sql_def)

lemma float_diary_shape: "table_shape float_diary no_options =
    \<lparr>pt_IfNotExists = False, pt_Name = ''visit_new'',
     pt_Columns = [\<lparr>pc_Name = ''at'', pc_Type = ''REAL'', pc_NotNull = False, pc_PrimaryKey = False, pc_AutoIncrement = False\<rparr>],
     pt_PrimaryKey = []\<rparr>"
  by (simp add: table_shape_def column_shape_def Let_def float_diary_parts has_inline_pk_def declared_type_def)

lemma visit_new_facts:
  "oe_name (made_table (table_shape float_diary no_options) [] visit_new_sql) = ''visit_new''"
  "oe_kind (made_table (table_shape float_diary no_options) [] visit_new_sql) = Table"
  "oe_indexes (made_table (table_shape float_diary no_options) [] visit_new_sql) = []"
  "oe_keys (made_table (table_shape float_diary no_options) [] visit_new_sql) = []"
  "oe_sql (made_table (table_shape float_diary no_options) [] visit_new_sql) = visit_new_sql"
  "pt_Name (table_shape float_diary no_options) = ''visit_new''"
  "timeMarkerTable \<noteq> ''visit_new''" "''visit_new'' \<noteq> timeMarkerTable"
  "foldASCII ''visit_new'' = ''visit_new''" "foldASCII ''sqlite_autoindex_visit_new_1'' = ''sqlite_autoindex_visit_new_1''"
  "foldASCII ''sqlite_autoindex_visit_1'' = ''sqlite_autoindex_visit_1''"
  "foldASCII (''sqlite_autoindex_'' @ timeMarkerTable @ ''_1'') = ''sqlite_autoindex_'' @ timeMarkerTable @ ''_1''"
  by (simp_all add: float_diary_shape made_table_def timeMarkerTable_def foldASCII_def ascii_lower_def)

lemma visit_new_made: "catalog_exec visit_new_sql [] diary = Changed made_diary"
proof -
  let ?made = "made_table (table_shape float_diary no_options) [] visit_new_sql"
  have keyed: "keyed float_diary" by (simp add: keyed_def float_diary_parts)
  note facts = diary_facts visit_new_facts made_index_def
  have "\<not> taken diary ''visit_new''" "\<not> taken diary ''sqlite_autoindex_visit_new_1''"
    by (simp_all add: taken_def diary_def all_indexes_def facts) (simp_all add: timeMarkerTable_def marker_folds)
  moreover have "insort_key oe_name ?made [markers_made, one_column_table ''visit''] = [markers_made, one_column_table ''visit'', ?made]"
    by (simp add: facts) (simp add: timeMarkerTable_def float_diary_shape)
  ultimately show ?thesis
    by (simp add: catalog_exec_table [OF float_diary_text keyed] exec_table_def float_diary_shape Let_def key_names_def
        sqlite_reserved_def visit_new_facts add_object_def diary_def made_diary_def diary_folds)
qed

lemma modified_steps:
  "catalog_exec (copy_sql ''visit'' fs) [] made_diary = Changed made_diary"
  "catalog_exec (buildDropTableSQL ''visit'' no_options) [] made_diary = Changed emptied_diary"
  "catalog_exec (rename_sql ''visit'') [] emptied_diary = Changed modified_diary"
proof -
  let ?made = "made_table (table_shape float_diary no_options) [] visit_new_sql"
  note facts = diary_facts visit_new_facts made_index_def
  have named: "object_named made_diary ''visit_new'' = Some ?made" "object_named made_diary ''visit'' = Some (one_column_table ''visit'')"
    "object_named emptied_diary ''visit_new'' = Some ?made"
    by (simp_all add: object_named_def made_diary_def emptied_diary_def facts)
  show "catalog_exec (copy_sql ''visit'' fs) [] made_diary = Changed made_diary"
    by (simp add: catalog_exec_def read_statement_copy exec_insert_def named facts sqlite_reserved_def)
  have views: "views made_diary = []" "views emptied_diary = []"
    by (simp_all add: views_def made_diary_def emptied_diary_def facts)
  have "drop_object ''visit'' made_diary = emptied_diary"
    by (simp add: drop_object_def made_diary_def emptied_diary_def facts)
  then have "exec_drop False ''visit'' made_diary = Changed emptied_diary"
    by (simp add: exec_drop_def named views facts sqlite_reserved_def one_column_sql_def)
  then show "catalog_exec (buildDropTableSQL ''visit'' no_options) [] made_diary = Changed emptied_diary"
    by (simp add: catalog_exec_drop)
  have "\<not> taken emptied_diary ''visit''" "\<not> taken emptied_diary ''sqlite_autoindex_visit_1''"
    by (simp_all add: taken_def emptied_diary_def all_indexes_def facts) (simp_all add: timeMarkerTable_def marker_folds)
  moreover have "\<not> targeted emptied_diary ''visit_new''" by (simp add: targeted_def emptied_diary_def facts)
  moreover have "prefix (table_head ''visit_new'') visit_new_sql" by (simp add: table_head_def quoteIdentifier_def visit_new_sql_def)
  moreover have "add_object (renamed_object ''visit'' ?made) (drop_object ''visit_new'' emptied_diary) = modified_diary"
    by (simp add: add_object_def drop_object_def emptied_diary_def modified_diary_def facts) (simp add: timeMarkerTable_def)
  ultimately have "exec_rename ''visit_new'' ''visit'' emptied_diary = Changed modified_diary"
    by (simp add: exec_rename_def named views facts sqlite_reserved_def)
  then show "catalog_exec (rename_sql ''visit'') [] emptied_diary = Changed modified_diary"
    by (simp add: catalog_exec_def read_statement_rename)
qed

lemma alter_body_runs:
  assumes "alter_body ddl_engine t (map run_call cs) (in_tx_pool p (fst (pl_db p), fst (pl_db p))) = (Ok (), r)" "pl_open p = []"
  shows "\<exists>q. AlterCollection ddl_engine t (map run_call cs) p = (Ok (), q) \<and> pl_db q = pl_db r \<and> pl_open q = []"
proof -
  have pool: "free_pool p" "pool_ok p" using assms(2) by (auto simp: free_pool_def pool_ok_def)
  have engine: "eng_begin ddl_engine d = (None, (fst d, fst d))" "eng_commit ddl_engine d = (None, d)" for d
    by (simp_all add: ddl_engine_def)
  have "\<exists>q. inTx ddl_engine (alter_body ddl_engine t (map run_call cs)) p = (Ok (), q) \<and> pl_db q = pl_db r \<and> pl_open q = []"
    by (rule alter_tx.outcome [OF pool, of ddl_engine t cs]) (use assms engine in auto)
  then show ?thesis by (simp add: AlterCollection_def)
qed

lemma alter_runs:
  assumes "run_call c (sqliteAlterApplier ddl_engine t) (in_tx_pool p (fst (pl_db p), fst (pl_db p))) = (Ok (), r)" "pl_open p = []"
  shows "\<exists>q. AlterCollection ddl_engine t [run_call c] p = (Ok (), q) \<and> pl_db q = pl_db r \<and> pl_open q = []"
  using alter_body_runs [of t "[c]" p r] assms by (simp add: alter_body_def io_bind_right)

lemma modify_visit_runs:
  "\<exists>q. AlterCollection ddl_engine ''visit'' [run_call (Modify_Field ''at'' (field ''at'' Type_Float) no_options)]
     (one_connection (diary, diary)) = (Ok (), q)"
proof -
  let ?p = "in_tx_pool (one_connection (diary, diary)) (diary, diary)" and ?new = "field ''at'' Type_Float"
  let ?table = "bare_collection ''visit'' (map tx_field (visible (one_column_table ''visit''))) []"
  have serve: "serves ddl_engine diary (pl_db ?p)" using executes_serves [OF ddl_engine_executes, of "(diary, diary)"] by simp
  have found: "object_named diary ''visit'' = Some (one_column_table ''visit'')" by (simp add: object_named_def diary_def diary_facts)
  have read: "readCollectionDefViaTx ddl_engine ''visit'' ?p = (Ok ?table, ?p)"
    using read_on_catalog [OF serve diary_ok(1), of "''visit''"] by (simp add: found visit_columns)
  have remade: "modified_table ''visit'' ''at'' ?new ?table = float_diary"
    by (simp add: modified_table_def float_diary_def remade_def visit_columns)
  have "exec_all ddl_engine (modify_plan ''visit'' visit_new_sql fs) (diary, diary) = (None, (modified_diary, diary))" for fs
    by (simp add: modify_plan_def step_runs [OF visit_new_made] step_runs [OF modified_steps(1)] step_runs [OF modified_steps(2)]
        step_runs [OF modified_steps(3)])
  then have "ApplyModifyField ddl_engine ''visit'' ''at'' ?new no_options ?p = (Ok (), ?p\<lparr>pl_db := (modified_diary, diary)\<rparr>)"
    unfolding ApplyModifyField_run [OF read] remade by (simp add: float_diary_text visit_columns tx_field_def)
  then have "run_call (Modify_Field ''at'' ?new no_options) (sqliteAlterApplier ddl_engine ''visit'') ?p =
      (Ok (), ?p\<lparr>pl_db := (modified_diary, diary)\<rparr>)"
    by (simp add: sqliteAlterApplier_def)
  then show ?thesis
    using alter_runs [of "Modify_Field ''at'' ?new no_options" "''visit''" "one_connection (diary, diary)"] by (auto simp: diary_pool)
qed

theorem ModifyField_describe_witness:
  "\<exists>q d. AlterCollection ddl_engine ''visit'' [run_call (Modify_Field ''at'' (field ''at'' Type_Float) no_options)]
       (one_connection (diary, diary)) = (Ok (), q) \<and>
     fst (DescribeCollection ddl_engine False ''visit'' q) = Ok d \<and> map fd_Name (cd_Fields d) = [''at''] \<and>
     map fd_Type (cd_Fields d) = [Type_Time]"
proof -
  obtain q where q: "AlterCollection ddl_engine ''visit'' [run_call (Modify_Field ''at'' (field ''at'' Type_Float) no_options)]
       (one_connection (diary, diary)) = (Ok (), q)"
    using modify_visit_runs by blast
  let ?cat = "fst (pl_db (one_connection (diary, diary)))"
  have cat: "?cat = diary" by (simp only: diary_pool fst_conv)
  have facts: "object_named ?cat ''visit'' = Some (one_column_table ''visit'')" "modifiable ?cat ''visit''"
    unfolding cat by (simp_all add: modifiable_def droppable_def object_named_def diary_def views_def targeted_def diary_facts
        visit_columns sqlite_reserved_def one_column_sql_def)
  have marks: "{''at''} = spec_markers ?cat ''visit''" unfolding cat by (rule diary_marks [symmetric])
  have ok: "wf_catalog ?cat" "markers_ok ?cat" unfolding cat by (rule diary_ok)+
  note described = ModifyField_describe [OF ddl_engine_executes ok diary_pool(1) facts(2,1) q marks]
  obtain d where d: "fst (DescribeCollection ddl_engine False ''visit'' q) = Ok d"
      "map fd_Name (cd_Fields d) = map ce_name (visible (one_column_table ''visit''))"
      "\<forall>f \<in> set (cd_Fields d). fd_Type f = Type_Time \<longleftrightarrow> fd_Name f \<in> {''at''}"
    by (rule exE [OF described], elim conjE) (rule that)
  then have names: "map fd_Name (cd_Fields d) = [''at'']" by (simp add: visit_columns)
  then have "map fd_Type (cd_Fields d) = [Type_Time]" using d(3) by (auto simp: map_eq_Cons_conv)
  then show ?thesis by (intro exI conjI) (rule q, rule d(1), rule names)
qed

end
