(* ===== verification/Alter_Statements.thy ===== *)
theory Alter_Statements
  imports Modify_Effects
begin

text \<open>
  The statements of AlterCollection on the catalog: which statement each text is, what is the same in catalogs that
  differ in texts only, and how an object is found after a change of a column.
\<close>

section \<open>Which statement is which\<close>

definition field_column :: "field_def \<Rightarrow> parsed_column" where
  "field_column f = \<lparr>pc_Name = fd_Name f, pc_Type = declared_type (fd_Type f), pc_NotNull = (\<not> fd_Nullable f),
     pc_PrimaryKey = False, pc_AutoIncrement = False\<rparr>"

lemma read_field_column:
  "read_column (fd_Name f) (Word (declared_type (fd_Type f)) # map Word (column_words f False False False)) = Some (field_column f)"
  by (simp add: read_column_def column_words_def field_column_def)

lemma read_statement_alter:
  assumes "sql_lex s = Some (Word ''ALTER'' # Word ''TABLE'' # ts)" "s = ''ALTER'' @ r"
  shows "read_statement s = read_alter ts"
  using read_statement_tokens [OF assms(1)] assms(2) by (simp add: token_statement_def)

lemma read_statement_add_column:
  assumes "buildAlterTableAddColumnSQL t f = Inr s"
  shows "read_statement s = Some (Add_Column t (field_column f))"
proof -
  obtain c where c: "buildColumnDecl f False False False = Inr c" "s = ''ALTER TABLE '' @ quoteIdentifier t @ '' ADD COLUMN '' @ c"
    using assms by (auto simp: buildAlterTableAddColumnSQL_def split: sum.splits)
  obtain ty where ty: "sqliteTypeFor (fd_Type f) = Inr ty"
    using c(1) by (auto simp: buildColumnDecl_def split: sum.splits)
  have "sql_lex s = Some ([Word ''ALTER'', Word ''TABLE''] @ [Ident t] @ [Word ''ADD'', Word ''COLUMN''] @
      Ident (fd_Name f) # Word ty # map Word (column_words f False False False))"
    unfolding c(2)
    using lex_any_end [OF lex_any_append [OF lex_any_kw(10) lex_any_ident_blank [OF lex_any_kw_blank(3)]] lex_end_column [OF c(1) ty], of t]
    by (auto simp: boundary_def dest!: lex_end_whole)
  then have "read_statement s = read_alter (Ident t # Word ''ADD'' # Word ''COLUMN'' # Ident (fd_Name f) # Word ty #
      map Word (column_words f False False False))"
    by (intro read_statement_alter) (simp_all add: c(2))
  moreover have "declared_type (fd_Type f) = ty" by (simp add: declared_type_def ty)
  ultimately show ?thesis
    using read_field_column [of f]
    by (cases "column_words f False False False") (auto simp: read_alter_def split: list.split)
qed

lemma read_statement_column:
  "read_statement (buildAlterTableDropColumnSQL t c) = Some (Drop_Column t c)"
  "read_statement (buildAlterTableRenameColumnSQL t c n) = Some (Rename_Column t c n)"
  "read_statement (buildDropIndexSQL n opts) = Some (Unindex (opt_IfExists opts) n)"
proof -
  have texts: "\<exists>r. buildAlterTableDropColumnSQL t c = ''ALTER'' @ r" "\<exists>r. buildAlterTableRenameColumnSQL t c n = ''ALTER'' @ r"
    "\<exists>r. buildDropIndexSQL n opts = ''DROP'' @ r"
    by (simp_all add: buildAlterTableDropColumnSQL_def buildAlterTableRenameColumnSQL_def buildDropIndexSQL_def)
  have "read_statement (buildAlterTableDropColumnSQL t c) = read_alter [Ident t, Word ''DROP'', Word ''COLUMN'', Ident c]"
    using texts(1) drop_and_alter_tokens [of t undefined c] by (auto intro: read_statement_alter)
  then show "read_statement (buildAlterTableDropColumnSQL t c) = Some (Drop_Column t c)" by (simp add: read_alter_def)
  have "read_statement (buildAlterTableRenameColumnSQL t c n) =
      read_alter [Ident t, Word ''RENAME'', Word ''COLUMN'', Ident c, Word ''TO'', Ident n]"
    using texts(2) drop_and_alter_tokens [of t undefined c n] by (auto intro: read_statement_alter)
  then show "read_statement (buildAlterTableRenameColumnSQL t c n) = Some (Rename_Column t c n)" by (simp add: read_alter_def)
  have "sql_lex (buildDropIndexSQL n opts) = Some (Word ''DROP'' # Word ''INDEX'' #
      (if opt_IfExists opts then [Word ''IF'', Word ''EXISTS''] else []) @ [Ident n])"
    using drop_and_alter_tokens [of n opts] by simp
  from read_statement_tokens [OF this] texts(3) show "read_statement (buildDropIndexSQL n opts) = Some (Unindex (opt_IfExists opts) n)"
    by (auto simp: token_statement_def read_drop_def)
qed

lemma catalog_exec_alter:
  "buildAlterTableAddColumnSQL t f = Inr s \<Longrightarrow> catalog_exec s args cat = exec_add_column t (field_column f) cat"
  "catalog_exec (buildAlterTableDropColumnSQL t c) args cat = exec_drop_column t c cat"
  "catalog_exec (buildAlterTableRenameColumnSQL t c n) args cat = exec_rename_column t c n cat"
  "catalog_exec (buildDropIndexSQL n opts) args cat = exec_drop_index (opt_IfExists opts) n cat"
  by (simp_all add: catalog_exec_def read_statement_add_column read_statement_column)

section \<open>Changing every object\<close>

text \<open>A change that keeps the names and kinds of the objects and the names of their indexes.\<close>

lemma object_named_map:
  assumes "\<And>ob. oe_name (g ob) = oe_name ob"
  shows "object_named (cat\<lparr>cat_objects := map g (cat_objects cat)\<rparr>) n = map_option g (object_named cat n)"
proof -
  have "find (\<lambda>ob. foldASCII (oe_name ob) = foldASCII n) (map g obs) =
      map_option g (find (\<lambda>ob. foldASCII (oe_name ob) = foldASCII n) obs)" for obs
    by (induction obs) (simp_all add: assms)
  then show ?thesis by (simp add: object_named_def)
qed

lemma index_names_map:
  assumes "\<And>ob. map ie_name (oe_indexes (g ob)) = map ie_name (oe_indexes ob)"
  shows "map ie_name (all_indexes (cat\<lparr>cat_objects := map g (cat_objects cat)\<rparr>)) = map ie_name (all_indexes cat)"
  by (simp add: all_indexes_def map_concat comp_def assms)

lemma distinct_fold_names: "distinct (map (\<lambda>ix. foldASCII (ie_name ix)) ixs) \<longleftrightarrow> distinct (map foldASCII (map ie_name ixs))"
  by (simp add: comp_def)

lemma wf_map:
  assumes "\<And>ob. oe_name (g ob) = oe_name ob" "\<And>ob. map ie_name (oe_indexes (g ob)) = map ie_name (oe_indexes ob)"
    and "\<And>ob. wf_object (g ob) = wf_object ob"
  shows "wf_catalog (cat\<lparr>cat_objects := map g (cat_objects cat)\<rparr>) = wf_catalog cat"
  unfolding wf_catalog_def distinct_fold_names index_names_map [of g cat, OF assms(2)]
  by (simp add: comp_def assms(1,3) list_all_iff)

lemma marked_map:
  assumes "\<And>ob. oe_name (g ob) = oe_name ob" "\<And>ob. oe_kind (g ob) = oe_kind ob"
  shows "marked (cat\<lparr>cat_objects := map g (cat_objects cat)\<rparr>) = marked cat"
  by (simp add: marked_def assms)

section \<open>Catalogs that differ in texts\<close>

lemma textless_sel [simp]:
  "oe_name (textless ob) = oe_name ob" "oe_kind (textless ob) = oe_kind ob" "oe_columns (textless ob) = oe_columns ob"
  "oe_keys (textless ob) = oe_keys ob" "visible (textless ob) = visible ob" "key_columns (textless ob) = key_columns ob"
  "first_hidden (textless ob) = first_hidden ob"
  by (simp_all add: textless_def visible_def key_columns_def first_hidden_def)

lemma textless_index_sel [simp]:
  "ie_name (textless_index ix) = ie_name ix" "ie_unique (textless_index ix) = ie_unique ix" "ie_origin (textless_index ix) = ie_origin ix"
  "ie_terms (textless_index ix) = ie_terms ix"
  by (simp_all add: textless_index_def)

lemma textless_indexes: "spec_indexes (textless ob) = spec_indexes ob"
  by (simp add: textless_def spec_indexes_def spec_index_fields_def filter_map comp_def)

lemma wf_textless: "wf_object (textless ob) = wf_object ob"
  by (simp add: wf_object_def) (simp add: textless_def list_all_iff)

lemma textless_names: "map ie_name (oe_indexes (textless ob)) = map ie_name (oe_indexes ob)"
  by (simp add: textless_def)

lemma but_texts_sel:
  "object_named (but_texts cat) n = map_option textless (object_named cat n)"
  "wf_catalog (but_texts cat) = wf_catalog cat" "marked (but_texts cat) = marked cat"
  "cat_markers (but_texts cat) = cat_markers cat" "cat_keys_on (but_texts cat) = cat_keys_on cat"
  unfolding but_texts_def
  by (simp_all only: object_named_map textless_sel wf_map [OF textless_sel(1) textless_names wf_textless] marked_map)
    simp_all

text \<open>What such catalogs share.\<close>

lemma textless_marker: "textless ob' = textless ob \<Longrightarrow> ob\<lparr>oe_sql := []\<rparr> = marker_object \<Longrightarrow> ob'\<lparr>oe_sql := []\<rparr> = marker_object"
proof -
  assume same: "textless ob' = textless ob" and ob: "ob\<lparr>oe_sql := []\<rparr> = marker_object"
  have plain: "textless_index ix = ix" if "ix \<in> set (oe_indexes marker_object)" for ix
    using that by (simp add: marker_object_def made_table_def textless_index_def made_index_def split: if_splits)
  have kind: "oe_kind ob = Table" "oe_indexes ob = oe_indexes marker_object"
    using ob marker_object_sel(2) by (auto simp flip: ob)
  have fields: "oe_kind ob' = oe_kind ob" "oe_name ob' = oe_name ob" "oe_columns ob' = oe_columns ob" "oe_keys ob' = oe_keys ob"
    using same by (metis textless_sel(1-4))+
  have "oe_indexes (textless ob') = oe_indexes (textless ob)" by (simp only: same)
  then have ixs: "map textless_index (oe_indexes ob') = oe_indexes marker_object"
    using plain by (simp add: textless_def fields(1) kind map_idI)
  have "textless_index ix = ix" if "ix \<in> set (oe_indexes ob')" for ix
  proof -
    have "textless_index ix \<in> set (oe_indexes marker_object)" using that by (simp flip: ixs)
    then have "ie_ddl (textless_index ix) = None"
      by (auto simp: marker_object_def made_table_def made_index_def split: if_splits)
    then show ?thesis by (simp add: textless_index_def)
  qed
  then have "map textless_index (oe_indexes ob') = map id (oe_indexes ob')"
    unfolding map_eq_conv by simp
  then have "oe_indexes ob' = oe_indexes ob" using ixs kind(2) by simp
  then have "ob'\<lparr>oe_sql := []\<rparr> = ob\<lparr>oe_sql := []\<rparr>" using fields by (intro object_entry.equality) simp_all
  then show ?thesis using ob by simp
qed

lemma same_but_texts:
  assumes "but_texts cat' = but_texts cat"
  shows "wf_catalog cat' = wf_catalog cat" "spec_markers cat' n = spec_markers cat n" "cat_keys_on cat' = cat_keys_on cat"
    "cat_markers cat' = cat_markers cat" "marked cat' = marked cat"
    "map_option textless (object_named cat' n) = map_option textless (object_named cat n)" "markers_ok cat \<Longrightarrow> markers_ok cat'"
proof -
  show *: "wf_catalog cat' = wf_catalog cat" "cat_keys_on cat' = cat_keys_on cat" "cat_markers cat' = cat_markers cat"
    "marked cat' = marked cat" "map_option textless (object_named cat' n) = map_option textless (object_named cat n)" for n
    using arg_cong [OF assms, of wf_catalog] arg_cong [OF assms, of cat_keys_on] arg_cong [OF assms, of cat_markers]
      arg_cong [OF assms, of marked] arg_cong [OF assms, of "\<lambda>c. object_named c n"]
    by (simp_all only: but_texts_sel)
  show "spec_markers cat' n = spec_markers cat n" by (simp add: spec_markers_def *)
  show "markers_ok cat \<Longrightarrow> markers_ok cat'"
  proof -
    assume ok: "markers_ok cat"
    show "markers_ok cat'"
      unfolding markers_ok_def
    proof (intro allI impI)
      fix ob' assume "object_named cat' timeMarkerTable = Some ob'"
      then obtain ob where ob: "object_named cat timeMarkerTable = Some ob" "textless ob' = textless ob"
        using *(5) [of timeMarkerTable] by (cases "object_named cat timeMarkerTable") simp_all
      show "ob'\<lparr>oe_sql := []\<rparr> = marker_object"
        by (rule textless_marker [OF ob(2)]) (use ok ob(1) in \<open>simp add: markers_ok_def\<close>)
    qed
  qed
qed

section \<open>A statement that changes columns\<close>

text \<open>What a change of objects keeps, and its effect when SQLite also rewrites texts.\<close>

definition keeps_names :: "(object_entry \<Rightarrow> object_entry) \<Rightarrow> bool" where
  "keeps_names g \<longleftrightarrow>
     (\<forall>ob. oe_name (g ob) = oe_name ob \<and> oe_kind (g ob) = oe_kind ob \<and>
        map ie_name (oe_indexes (g ob)) = map ie_name (oe_indexes ob) \<and> (wf_object ob \<longrightarrow> wf_object (g ob)))"

lemma wf_map_keeps:
  assumes "keeps_names g" "wf_catalog cat"
  shows "wf_catalog (cat\<lparr>cat_objects := map g (cat_objects cat)\<rparr>)"
proof -
  have names: "map ie_name (all_indexes (cat\<lparr>cat_objects := map g (cat_objects cat)\<rparr>)) = map ie_name (all_indexes cat)"
    by (rule index_names_map) (use assms(1) in \<open>simp add: keeps_names_def\<close>)
  show ?thesis
    using assms unfolding wf_catalog_def distinct_fold_names names
    by (simp add: comp_def keeps_names_def list_all_iff)
qed

lemma views_map:
  assumes "keeps_names g" "\<And>ob. ob \<in> set (cat_objects cat) \<Longrightarrow> oe_kind ob = View \<Longrightarrow> g ob = ob"
  shows "views (cat\<lparr>cat_objects := map g (cat_objects cat)\<rparr>) = views cat"
proof -
  have "filter (\<lambda>ob. oe_kind ob = View) (map g obs) = filter (\<lambda>ob. oe_kind ob = View) obs"
    if "\<And>ob. ob \<in> set obs \<Longrightarrow> oe_kind ob = View \<Longrightarrow> g ob = ob" for obs
    using that assms(1) by (induction obs) (auto simp: keeps_names_def)
  then show ?thesis using assms(2) by (simp add: views_def)
qed

lemma keeps_textless: "keeps_names textless"
  by (simp add: keeps_names_def textless_names wf_textless)

lemma same_views: "but_texts cat' = but_texts cat \<Longrightarrow> views cat' = views cat"
proof -
  have "views (but_texts cat) = views cat" for cat
    unfolding but_texts_def by (rule views_map [OF keeps_textless]) (simp add: textless_def)
  then show "but_texts cat' = but_texts cat \<Longrightarrow> views cat' = views cat" by metis
qed

lemma rewritten_step:
  assumes "executes E cat_of" "wf_catalog (cat_of d)" "markers_ok (cat_of d)" "eng_exec E q args d = (None, d')"
    and "catalog_exec q args (cat_of d) = Rewritten ((cat_of d)\<lparr>cat_objects := map g (cat_objects (cat_of d))\<rparr>)"
    and "keeps_names g" "\<And>ob. ob \<in> set (cat_objects (cat_of d)) \<Longrightarrow> oe_kind ob = View \<or> foldASCII (oe_name ob) = timeMarkerTable \<Longrightarrow> g ob = ob"
  shows "wf_catalog (cat_of d')" "markers_ok (cat_of d')" "spec_markers (cat_of d') n = spec_markers (cat_of d) n"
    "cat_markers (cat_of d') = cat_markers (cat_of d)" "cat_keys_on (cat_of d') = cat_keys_on (cat_of d)"
    "map_option textless (object_named (cat_of d') n) = map_option (\<lambda>ob. textless (g ob)) (object_named (cat_of d) n)"
    "views (cat_of d') = views (cat_of d)"
proof -
  let ?cat = "(cat_of d)\<lparr>cat_objects := map g (cat_objects (cat_of d))\<rparr>"
  have g: "oe_name (g ob) = oe_name ob" "oe_kind (g ob) = oe_kind ob" for ob
    using assms(6) by (simp_all add: keeps_names_def)
  note same = same_but_texts [OF executed(3) [OF assms(1,2,4,5)]]
  have named: "object_named ?cat n = map_option g (object_named (cat_of d) n)" for n by (rule object_named_map) (rule g)
  have ok: "markers_ok ?cat"
    unfolding markers_ok_def named
  proof (intro allI impI)
    fix ob' assume "map_option g (object_named (cat_of d) timeMarkerTable) = Some ob'"
    then obtain ob where ob: "object_named (cat_of d) timeMarkerTable = Some ob" "ob' = g ob" by auto
    then have "g ob = ob" using assms(7) by (simp add: object_named_iff [OF assms(2)] marker_names)
    then show "ob'\<lparr>oe_sql := []\<rparr> = marker_object" using assms(3) ob by (simp add: markers_ok_def)
  qed
  show "wf_catalog (cat_of d')" using same(1) wf_map_keeps [OF assms(6,2)] by simp
  show "markers_ok (cat_of d')" by (rule same(7) [OF ok])
  have "marked ?cat = marked (cat_of d)" by (rule marked_map) (rule g)+
  then show "spec_markers (cat_of d') n = spec_markers (cat_of d) n" using same(2) by (simp add: spec_markers_def)
  show "cat_markers (cat_of d') = cat_markers (cat_of d)" "cat_keys_on (cat_of d') = cat_keys_on (cat_of d)"
    using same(3,4) by simp_all
  show "map_option textless (object_named (cat_of d') n) = map_option (\<lambda>ob. textless (g ob)) (object_named (cat_of d) n)"
    using same(6) by (simp add: named option.map_comp comp_def)
  show "views (cat_of d') = views (cat_of d)"
    using same_views [OF executed(3) [OF assms(1,2,4,5)]] views_map [OF assms(6)] assms(7) by simp
qed

lemma update_object_map:
  "update_object n f cat = cat\<lparr>cat_objects := map (\<lambda>ob. if foldASCII (oe_name ob) = foldASCII n then f ob else ob) (cat_objects cat)\<rparr>"
  by (fact update_object_def)

lemma keeps_update: "keeps_names f \<Longrightarrow> keeps_names (\<lambda>ob. if foldASCII (oe_name ob) = foldASCII n then f ob else ob)"
  by (simp add: keeps_names_def)

lemma key_ok_columns:
  "key_ok (k\<lparr>ke_columns := map (\<lambda>(i, c, r). (i, f c, h r)) (ke_columns k)\<rparr>) = key_ok k"
  by (simp add: key_ok_def list_all_iff case_prod_beta)

lemma keeps_column:
  "ce_pk ce = 0 \<Longrightarrow> int64_range (ce_hidden ce) \<Longrightarrow> keeps_names (add_column ce)" "keeps_names (drop_column c)"
  "keeps_names (rename_column old new)" "keeps_names (rename_target n old new)"
proof -
  show "ce_pk ce = 0 \<Longrightarrow> int64_range (ce_hidden ce) \<Longrightarrow> keeps_names (add_column ce)"
    by (simp add: keeps_names_def add_column_def wf_object_def visible_def int64_range_def)
  have "distinct (map f (filter P (filter Q (filter R xs))))" if "distinct (map f (filter P (filter Q xs)))" for f P Q R and xs :: "column_entry list"
  proof -
    have "filter P (filter Q (filter R xs)) = filter R (filter P (filter Q xs))" by (simp add: conj_ac)
    then show ?thesis using that by (simp only: distinct_map_filter)
  qed
  then show "keeps_names (drop_column c)"
    by (auto simp: keeps_names_def drop_column_def wf_object_def visible_def list_all_iff)
  show "keeps_names (rename_column old new)"
    using key_ok_columns [where f = "renamed_name old new" and h = "\<lambda>r. r"]
    by (simp add: keeps_names_def rename_column_def wf_object_def visible_def list_all_iff filter_map comp_def)
  have ids: "ke_id (if b then k\<lparr>ke_columns := cols\<rparr> else k) = ke_id k" for b k cols by simp
  show "keeps_names (rename_target n old new)"
    using key_ok_columns [where f = "\<lambda>c. c" and h = "map_option (renamed_name old new)"]
    by (auto simp: keeps_names_def rename_target_def wf_object_def visible_def list_all_iff comp_def ids)
qed

text \<open>A table whose columns may be changed.\<close>

definition alterable :: "catalog \<Rightarrow> string \<Rightarrow> bool" where
  "alterable cat n \<longleftrightarrow> foldASCII n \<noteq> timeMarkerTable \<and> \<not> list_ex (\<lambda>vw. may_read vw n) (views cat)"

lemma on_column_table:
  assumes "alterable cat n" "object_named cat n = Some ob" "on_column_table cat n f \<noteq> Refused"
  shows "on_column_table cat n f = f ob" "oe_kind ob = Table" "\<not> sqlite_reserved n"
  using assms by (auto simp: on_column_table_def alterable_def split: if_splits) (cases "oe_kind ob"; simp)+

lemma other_object:
  assumes "wf_catalog cat" "alterable cat n" "object_named cat n = Some ob" "oe_kind ob = Table"
    and "ob' \<in> set (cat_objects cat)" "oe_kind ob' = View \<or> foldASCII (oe_name ob') = timeMarkerTable"
  shows "foldASCII (oe_name ob') \<noteq> foldASCII n"
proof
  assume same: "foldASCII (oe_name ob') = foldASCII n"
  then have "object_named cat n = Some ob'" using assms(5) by (simp add: object_named_iff [OF assms(1)])
  then show False using assms(2,3,4,6) same by (auto simp: alterable_def)
qed

end
