(* ===== verification/Alter_Effects.thy ===== *)
theory Alter_Effects
  imports Alter_Statements
begin

text \<open>
  What DescribeCollection returns after AlterCollection with a field added or dropped. A description depends on the object of its name, the markers of the name, and
  the names and keys of the tables its foreign keys are to.
\<close>

section \<open>A description by its parts\<close>

definition field_kind :: "field_def \<Rightarrow> string \<times> db_type \<times> precision option" where
  "field_kind f = (fd_Name f, fd_Type f, fd_Precision f)"

definition column_kind :: "string set \<Rightarrow> column_entry \<Rightarrow> string \<times> db_type \<times> precision option" where
  "column_kind marks ce = (ce_name ce, spec_type marks ce)"

lemma field_kind_described [simp]: "field_kind (describe_field marks ob ce) = column_kind marks ce"
  by (simp add: field_kind_def column_kind_def describe_field_def)

lemma described_kinds:
  "map field_kind (cd_Fields (describe_object cat l ob)) = map (column_kind (spec_markers cat (oe_name ob))) (visible ob)"
  by (simp add: describe_object_def Let_def comp_def)

text \<open>A table that the strict reader describes.\<close>

definition readable :: "catalog \<Rightarrow> string \<Rightarrow> object_entry \<Rightarrow> bool" where
  "readable cat n ob \<longleftrightarrow> object_named cat n = Some ob \<and> oe_name ob = n \<and> oe_kind ob = Table \<and>
     list_all (\<lambda>ce. \<not> unreadable (spec_markers cat n) ce) (visible ob) \<and> first_hidden ob = None"

lemma none_found: "list_all (\<lambda>x. \<not> P x) xs \<longleftrightarrow> find P xs = None"
  by (induction xs) auto

lemma describe_readable:
  assumes "wf_catalog cat"
  shows "describe_spec cat False n = Inr d \<longleftrightarrow> (\<exists>ob. readable cat n ob \<and> d = describe_object cat False ob)"
  by (auto simp: describe_spec_def described_by_name [OF assms] readable_def none_found
      split: option.splits if_splits)

lemma describes_readable:
  assumes "executes E cat_of" "wf_catalog (cat_of (pl_db p))" "pl_open p = []"
  shows "fst (DescribeCollection E False n p) = Ok d \<longleftrightarrow>
    (\<exists>ob. readable (cat_of (pl_db p)) n ob \<and> d = describe_object (cat_of (pl_db p)) False ob)"
proof -
  have "outcome_of r = Ok d \<longleftrightarrow> r = Inr d" for r :: "err + collection_def" by (cases r) simp_all
  then show ?thesis by (simp only: describe_now [OF assms] describe_readable [OF assms(2)])
qed

section \<open>Foreign keys\<close>

text \<open>What a foreign key needs of the other tables: their kind, name and key.\<close>

definition key_shape :: "object_entry \<Rightarrow> object_kind \<times> string \<times> string list" where
  "key_shape ob = (oe_kind ob, oe_name ob, map ce_name (key_columns ob))"

definition shapes_agree :: "string set \<Rightarrow> catalog \<Rightarrow> catalog \<Rightarrow> bool" where
  "shapes_agree N cat cat' \<longleftrightarrow> cat_keys_on cat' = cat_keys_on cat \<and>
     (\<forall>n. foldASCII n \<notin> N \<longrightarrow> map_option key_shape (object_named cat' n) = map_option key_shape (object_named cat n))"

lemma key_shape_textless [simp]: "key_shape (textless ob) = key_shape ob"
  by (simp add: key_shape_def)

lemma shapes_agree_trans: "shapes_agree N a b \<Longrightarrow> shapes_agree M b c \<Longrightarrow> shapes_agree (N \<union> M) a c"
  by (simp add: shapes_agree_def)

lemma agree_shapes: "agree_except N a b \<Longrightarrow> shapes_agree N a b"
  by (simp add: shapes_agree_def agree_except_def)

lemma target_by_shape:
  assumes "wf_catalog cat"
  shows "spec_target cat t = (case map_option key_shape (object_named cat t) of None \<Rightarrow> t | Some (k, n, key) \<Rightarrow> if k = Table then n else t)"
    and "target_key cat t = (case map_option key_shape (object_named cat t) of None \<Rightarrow> [] | Some (k, n, key) \<Rightarrow> key)"
  by (simp_all add: spec_target_by_name [OF assms] target_key_by_name key_shape_def split: option.split)

lemma spec_key_shapes:
  assumes "wf_catalog cat" "wf_catalog cat'" "shapes_agree N cat cat'" "foldASCII (ke_target k) \<notin> N"
  shows "spec_key cat' n k = spec_key cat n k"
proof -
  have same: "map_option key_shape (object_named cat' m) = map_option key_shape (object_named cat m)"
    if "foldASCII m = foldASCII (ke_target k)" for m
    using assms(3,4) that by (simp add: shapes_agree_def)
  have target: "spec_target cat' (ke_target k) = spec_target cat (ke_target k)"
    by (simp only: target_by_shape [OF assms(1)] target_by_shape [OF assms(2)] same)
  have "foldASCII (spec_target cat (ke_target k)) = foldASCII (ke_target k)"
    by (auto simp: spec_target_by_name [OF assms(1)] object_named_iff [OF assms(1)] split: option.splits)
  from same [OF this] have "target_key cat' (spec_target cat (ke_target k)) = target_key cat (spec_target cat (ke_target k))"
    by (simp only: target_by_shape [OF assms(1)] target_by_shape [OF assms(2)])
  then show ?thesis using assms(3) by (simp add: spec_key_def target shapes_agree_def)
qed

section \<open>One alteration\<close>

text \<open>The table of an alteration, as every change finds it and leaves it.\<close>

definition altering :: "catalog \<Rightarrow> string \<Rightarrow> object_entry \<Rightarrow> bool" where
  "altering cat table ob \<longleftrightarrow> wf_catalog cat \<and> markers_ok cat \<and> alterable cat table \<and> object_named cat table = Some ob"

lemma alteringI:
  "wf_catalog cat \<Longrightarrow> markers_ok cat \<Longrightarrow> alterable cat table \<Longrightarrow> object_named cat table = Some ob \<Longrightarrow> altering cat table ob"
  by (simp add: altering_def)

lemma alteringD:
  assumes "altering cat table ob"
  shows "wf_catalog cat" "markers_ok cat" "alterable cat table" "object_named cat table = Some ob"
  using assms by (simp_all add: altering_def)

lemma altered_table:
  assumes "altering cat table ob" "wf_catalog cat'" "markers_ok cat'" "object_named cat' table = Some ob'" "views cat' = views cat"
  shows "altering cat' table ob'"
  using assms by (simp add: altering_def alterable_def)

text \<open>A statement, then one whose failure is ignored.\<close>

lemma exec_then_ignore:
  "io_bind (io_wrap f as (conn_exec E q qargs)) (\<lambda>_. io_ignore (conn_exec E q' qargs')) p = (Ok (), r) \<longleftrightarrow>
     (\<exists>d. eng_exec E q qargs (pl_db p) = (None, d) \<and> r = p\<lparr>pl_db := snd (eng_exec E q' qargs' d)\<rparr>)"
  by (auto simp: conn_exec_def io_bind_def io_wrap_def io_ignore_def split: prod.splits option.splits)

lemma textless_parts:
  assumes "textless ob' = textless ob"
  shows "oe_name ob' = oe_name ob" "oe_kind ob' = oe_kind ob" "visible ob' = visible ob" "key_columns ob' = key_columns ob"
    "oe_keys ob' = oe_keys ob" "first_hidden ob' = first_hidden ob" "spec_indexes ob' = spec_indexes ob" "key_shape ob' = key_shape ob"
proof -
  show "oe_name ob' = oe_name ob" "oe_kind ob' = oe_kind ob" "visible ob' = visible ob" "key_columns ob' = key_columns ob"
    "oe_keys ob' = oe_keys ob" "first_hidden ob' = first_hidden ob" "spec_indexes ob' = spec_indexes ob"
    using assms by (metis textless_sel textless_indexes)+
  then show "key_shape ob' = key_shape ob" by (simp add: key_shape_def)
qed

lemma describe_like:
  assumes "textless ob' = textless ob" "oe_name ob = n"
  shows "map field_kind (cd_Fields (describe_object cat False ob')) = map (column_kind (spec_markers cat n)) (visible ob)"
    "cd_PrimaryKey (describe_object cat False ob') = map ce_name (key_columns ob)"
    "cd_Indexes (describe_object cat False ob') = spec_indexes ob"
    "cd_ForeignKeys (describe_object cat False ob') = map (spec_key cat n) (oe_keys ob)"
    "cd_Name (describe_object cat False ob') = n"
  using textless_parts [OF assms(1)] assms(2) described_kinds [of cat False ob']
  by (simp_all add: describe_object_def Let_def)

section \<open>AddField\<close>

text \<open>The statements after ALTER TABLE: a field of type Time is marked.\<close>

definition mark_plan :: "string \<Rightarrow> field_def \<Rightarrow> (string \<times> sqlval list) list" where
  "mark_plan table f =
     (if fd_Type f = Type_Time
      then [(create_marker_table_sql 3, []), (insert_marker_sql, [V_Text table, V_Text (fd_Name f)])] else [])"

lemma ApplyAddField_plan:
  assumes "buildAlterTableAddColumnSQL table f = Inr s"
  shows "amounts_to E (ApplyAddField E table f opts) ((s, []) # mark_plan table f)"
  using assms by (auto simp: ApplyAddField_def mark_plan_def intro!: plan_step plan_return plan_exec)

lemma ApplyAddField_runs:
  assumes "ApplyAddField E table f opts p = (Ok (), r)"
  obtains s d where "buildAlterTableAddColumnSQL table f = Inr s" "eng_exec E s [] (pl_db p) = (None, d)"
    "exec_all E (mark_plan table f) d = (None, pl_db r)"
proof (cases "buildAlterTableAddColumnSQL table f")
  case (Inl e)
  then show ?thesis using assms by (simp add: ApplyAddField_def io_fail_def)
next
  case (Inr s)
  then show ?thesis
    using assms that [OF Inr] amounts_to_Ok [OF ApplyAddField_plan [OF Inr], of E opts p r]
    by (auto simp: exec_all_Cons simp del: exec_all.simps)
qed

lemma spelled_None: "spelled names n = None \<longleftrightarrow> foldASCII n \<notin> foldASCII ` set names"
  by (auto simp: spelled_def find_None_iff image_iff)

text \<open>A change of one table, and ADD COLUMN as one.\<close>

lemma step_shapes:
  assumes "wf_catalog cat"
    and "\<And>n. map_option textless (object_named cat' n) = map_option (\<lambda>ob. textless (g ob)) (object_named cat n)"
    and "cat_keys_on cat' = cat_keys_on cat"
    and "\<And>ob. ob \<in> set (cat_objects cat) \<Longrightarrow> foldASCII (oe_name ob) \<notin> N \<Longrightarrow> key_shape (g ob) = key_shape ob"
  shows "shapes_agree N cat cat'"
proof -
  have "map_option key_shape (object_named cat' n) = map_option key_shape (object_named cat n)" if "foldASCII n \<notin> N" for n
  proof (cases "object_named cat n")
    case None
    then show ?thesis using assms(2) [of n] by simp
  next
    case (Some ob)
    then have "key_shape (g ob) = key_shape ob" using assms(4) that by (simp add: object_named_iff [OF assms(1)])
    then show ?thesis
      using arg_cong [OF assms(2) [of n], of "map_option key_shape"] Some by (simp add: option.map_comp comp_def)
  qed
  then show ?thesis using assms(3) by (simp add: shapes_agree_def)
qed

lemma run_update:
  assumes "executes E cat_of" "wf_catalog (cat_of d)" "markers_ok (cat_of d)" "alterable (cat_of d) table"
    and "object_named (cat_of d) table = Some ob" "oe_kind ob = Table" "eng_exec E q args d = (None, d')"
    and "catalog_exec q args (cat_of d) = Rewritten (update_object table h (cat_of d))" "keeps_names h" "key_shape (h ob) = key_shape ob"
  obtains ob' where "wf_catalog (cat_of d')" "markers_ok (cat_of d')" "object_named (cat_of d') table = Some ob'"
    "textless ob' = textless (h ob)" "\<And>n. spec_markers (cat_of d') n = spec_markers (cat_of d) n"
    "shapes_agree {} (cat_of d) (cat_of d')" "views (cat_of d') = views (cat_of d)"
proof -
  let ?g = "\<lambda>o'. if foldASCII (oe_name o') = foldASCII table then h o' else o'"
  have own: "?g o' = o'" if "o' \<in> set (cat_objects (cat_of d))" "oe_kind o' = View \<or> foldASCII (oe_name o') = timeMarkerTable" for o'
    using other_object [OF assms(2,4-6) that] by simp
  note step = rewritten_step [OF assms(1-3,7) assms(8) [unfolded update_object_map] keeps_update [OF assms(9)] own]
  have here: "foldASCII (oe_name ob) = foldASCII table" using assms(5) by (simp add: object_named_iff [OF assms(2)])
  then obtain ob' where ob': "object_named (cat_of d') table = Some ob'" "textless ob' = textless (h ob)"
    using step(6) [of table] assms(5) by auto
  have "shapes_agree {} (cat_of d) (cat_of d')"
  proof (rule step_shapes [OF assms(2) step(6,5)])
    fix o' assume "o' \<in> set (cat_objects (cat_of d))"
    moreover have "o' = ob" if "o' \<in> set (cat_objects (cat_of d))" "foldASCII (oe_name o') = foldASCII table"
      using object_named_iff [OF assms(2), of table o'] assms(5) that by simp
    ultimately show "key_shape (?g o') = key_shape o'" using assms(10) by auto
  qed
  then show thesis using that [OF step(1,2) ob' step(3) _ step(7)] by simp
qed

lemma run_add_column:
  assumes "executes E cat_of" "wf_catalog (cat_of d)" "markers_ok (cat_of d)" "alterable (cat_of d) table"
    and "object_named (cat_of d) table = Some ob" "buildAlterTableAddColumnSQL table f = Inr s" "eng_exec E s [] d = (None, d')"
    and "new = add_column (column_of (field_column f)) ob"
  obtains ob' where "wf_catalog (cat_of d')" "markers_ok (cat_of d')" "\<not> sqlite_reserved table"
    "foldASCII (fd_Name f) \<notin> foldASCII ` ce_name ` set (oe_columns ob)" "object_named (cat_of d') table = Some ob'"
    "textless ob' = textless new" "\<And>n. spec_markers (cat_of d') n = spec_markers (cat_of d) n" "shapes_agree {} (cat_of d) (cat_of d')"
    "views (cat_of d') = views (cat_of d)"
proof -
  let ?pc = "field_column f"
  have ran: "exec_add_column table ?pc (cat_of d) \<noteq> Refused"
    using executed(1) [OF assms(1,2,7)] by (simp add: catalog_exec_alter(1) [OF assms(6)])
  note run = on_column_table [OF assms(4,5) ran [unfolded exec_add_column_def]]
  have effect: "exec_add_column table ?pc (cat_of d) = (if pc_PrimaryKey ?pc \<or> spelled (map ce_name (oe_columns ob)) (pc_Name ?pc) \<noteq> None
      then Refused else Rewritten (update_object table (add_column (column_of ?pc)) (cat_of d)))"
    unfolding exec_add_column_def by (rule run(1))
  then have ok: "spelled (map ce_name (oe_columns ob)) (fd_Name f) = None"
    using ran by (auto simp: field_column_def split: if_splits)
  have exec: "catalog_exec s [] (cat_of d) = Rewritten (update_object table (add_column (column_of ?pc)) (cat_of d))"
    using ran effect by (simp add: catalog_exec_alter(1) [OF assms(6)] split: if_splits)
  have key: "key_shape (add_column (column_of ?pc) ob) = key_shape ob"
    by (simp add: key_shape_def key_columns_def visible_def) (simp add: add_column_def column_of_def)
  have keeps: "keeps_names (add_column (column_of ?pc))"
    by (rule keeps_column(1)) (simp_all add: column_of_def int64_range_def)
  show thesis
    by (rule run_update [OF assms(1-5) run(2) assms(7) exec keeps key], rule that [OF _ _ run(3)])
      (use ok in \<open>simp only: spelled_None assms(8) set_map not_False_eq_True simp_thms\<close>)+
qed

lemma marker_table_views:
  assumes "exec_marker_table tabs cat = Changed cat'"
  shows "views cat' = views cat"
proof -
  have "views (add_object ob cat) = views cat" if "oe_kind ob = Table" for ob cat
    using that by (simp add: views_def add_object_def filter_insort_triv)
  then show ?thesis
    using assms by (auto simp: exec_marker_table_def exec_table_def Let_def views_def marker_shape_def split: if_splits option.splits)
qed

lemma run_mark_plan:
  assumes "executes E cat_of" "wf_catalog (cat_of d)" "markers_ok (cat_of d)" "exec_all E (mark_plan table f) d = (None, d')"
  shows "wf_catalog (cat_of d')" "agree_except {timeMarkerTable, ''sqlite_sequence''} (cat_of d) (cat_of d')" "markers_ok (cat_of d')"
    "spec_markers (cat_of d') n = spec_markers (cat_of d) n \<union> (if n = table \<and> fd_Type f = Type_Time then {fd_Name f} else {})"
proof -
  have "wf_catalog (cat_of d') \<and> agree_except {timeMarkerTable, ''sqlite_sequence''} (cat_of d) (cat_of d') \<and>
      markers_ok (cat_of d') \<and>
      spec_markers (cat_of d') n = spec_markers (cat_of d) n \<union> (if n = table \<and> fd_Type f = Type_Time then {fd_Name f} else {})"
  proof (cases "fd_Type f = Type_Time")
    case True
    then have "exec_all E ((create_marker_table_sql 3, []) #
        map (\<lambda>col. (insert_marker_sql, [V_Text table, V_Text col])) [fd_Name f]) d = (None, d')"
      using assms(4) by (simp add: mark_plan_def)
    from run_marks [OF assms(1-3) _ this] True show ?thesis by simp
  qed (use assms in \<open>simp add: mark_plan_def agree_refl\<close>)
  then show "wf_catalog (cat_of d')" "agree_except {timeMarkerTable, ''sqlite_sequence''} (cat_of d) (cat_of d')" "markers_ok (cat_of d')"
    "spec_markers (cat_of d') n = spec_markers (cat_of d) n \<union> (if n = table \<and> fd_Type f = Type_Time then {fd_Name f} else {})"
    by blast+
qed

lemma run_mark_plan_views:
  assumes "executes E cat_of" "wf_catalog (cat_of d)" "markers_ok (cat_of d)" "exec_all E (mark_plan table f) d = (None, d')"
  shows "views (cat_of d') = views (cat_of d)"
proof (cases "fd_Type f = Type_Time")
  case True
  then obtain d1 where d1: "eng_exec E (create_marker_table_sql 3) [] d = (None, d1)"
      "exec_all E (map (\<lambda>col. (insert_marker_sql, [V_Text table, V_Text col])) [fd_Name f]) d1 = (None, d')"
    using assms(4) by (auto simp: mark_plan_def exec_all_Cons simp del: exec_all.simps)
  have exec: "catalog_exec (create_marker_table_sql 3) [] (cat_of d) = exec_marker_table 3 (cat_of d)"
    by (rule catalog_exec_markers(1)) simp
  obtain cat ob where made: "exec_marker_table 3 (cat_of d) = Changed cat" "wf_catalog cat"
      "object_named cat timeMarkerTable = Some ob" "ob\<lparr>oe_sql := []\<rparr> = marker_object"
    by (rule exec_marker_table_Changed [OF assms(2,3)]) (use executed(1) [OF assms(1,2) d1(1)] exec in auto)
  have same: "cat_of d1 = cat" using executed(2) [OF assms(1,2) d1(1)] exec made(1) by simp
  have "cat_objects (cat_of d') = cat_objects cat"
    using run_markers [OF assms(1) _ _ made(4) d1(2)] made(2,3) by (simp add: same)
  then have "views (cat_of d') = views cat" by (simp add: views_def)
  then show ?thesis using marker_table_views [OF made(1)] by simp
qed (use assms(4) in \<open>simp add: mark_plan_def\<close>)

lemma AddField_step:
  assumes "executes E cat_of" "altering (cat_of (pl_db p)) table ob"
    and "run_call (Add_Field f opts) (sqliteAlterApplier E table) p = (Ok (), r)"
    and "new = add_column (column_of (field_column f)) ob"
  obtains ob' ty where "altering (cat_of (pl_db r)) table ob'" "textless ob' = textless new"
    "sqliteTypeFor (fd_Type f) = Inr ty" "foldASCII (fd_Name f) \<notin> foldASCII ` ce_name ` set (oe_columns ob)"
    "\<And>n. spec_markers (cat_of (pl_db r)) n =
       spec_markers (cat_of (pl_db p)) n \<union> (if n = table \<and> fd_Type f = Type_Time then {fd_Name f} else {})"
    "shapes_agree {timeMarkerTable, ''sqlite_sequence''} (cat_of (pl_db p)) (cat_of (pl_db r))"
proof -
  have "ApplyAddField E table f opts p = (Ok (), r)" using assms(3) by (simp add: sqliteAlterApplier_def)
  then obtain s d1 where built: "buildAlterTableAddColumnSQL table f = Inr s" "eng_exec E s [] (pl_db p) = (None, d1)"
      "exec_all E (mark_plan table f) d1 = (None, pl_db r)"
    by (rule ApplyAddField_runs)
  obtain ty where ty: "sqliteTypeFor (fd_Type f) = Inr ty"
    using built(1) by (auto simp: buildAlterTableAddColumnSQL_def buildColumnDecl_def split: sum.splits)
  show thesis
  proof (rule run_add_column [OF assms(1) alteringD [OF assms(2)] built(1,2) assms(4)])
    fix ob' assume step: "wf_catalog (cat_of d1)" "markers_ok (cat_of d1)" "\<not> sqlite_reserved table"
      "foldASCII (fd_Name f) \<notin> foldASCII ` ce_name ` set (oe_columns ob)" "object_named (cat_of d1) table = Some ob'"
      "textless ob' = textless new" "\<And>n. spec_markers (cat_of d1) n = spec_markers (cat_of (pl_db p)) n"
      "shapes_agree {} (cat_of (pl_db p)) (cat_of d1)" "views (cat_of d1) = views (cat_of (pl_db p))"
    note marks = run_mark_plan [OF assms(1) step(1,2) built(3)]
    have "foldASCII table \<notin> {timeMarkerTable, ''sqlite_sequence''}"
      using alteringD(3) [OF assms(2)] step(3) by (auto simp: alterable_def sqlite_reserved_def)
    then have "object_named (cat_of (pl_db r)) table = Some ob'" using agree_object [OF marks(2)] step(5) by simp
    moreover have "views (cat_of (pl_db r)) = views (cat_of (pl_db p))"
      using run_mark_plan_views [OF assms(1) step(1,2) built(3)] step(9) by simp
    ultimately have "altering (cat_of (pl_db r)) table ob'" by (rule altered_table [OF assms(2) marks(1,3)])
    moreover have "shapes_agree {timeMarkerTable, ''sqlite_sequence''} (cat_of (pl_db p)) (cat_of (pl_db r))"
      using shapes_agree_trans [OF step(8) agree_shapes [OF marks(2)]] by simp
    ultimately show thesis using that [OF _ step(6) ty step(4)] marks(4) step(7) by simp
  qed
qed

lemma AddField_catalog:
  assumes "executes E cat_of" "altering (cat_of (pl_db p)) table ob" "pl_open p = []"
    and "AlterCollection E table [run_call (Add_Field f opts)] p = (Ok (), q)"
    and "new = add_column (column_of (field_column f)) ob"
  obtains ob' ty where "pl_open q = []" "altering (cat_of (pl_db q)) table ob'" "textless ob' = textless new"
    "sqliteTypeFor (fd_Type f) = Inr ty" "foldASCII (fd_Name f) \<notin> foldASCII ` ce_name ` set (oe_columns ob)"
    "\<And>n. spec_markers (cat_of (pl_db q)) n =
       spec_markers (cat_of (pl_db p)) n \<union> (if n = table \<and> fd_Type f = Type_Time then {fd_Name f} else {})"
    "shapes_agree {timeMarkerTable, ''sqlite_sequence''} (cat_of (pl_db p)) (cat_of (pl_db q))"
proof (rule AlterCollection_one [OF assms(1,3,4)])
  fix d r
  assume run: "cat_of d = cat_of (pl_db p)" "run_call (Add_Field f opts) (sqliteAlterApplier E table) (in_tx_pool p d) = (Ok (), r)"
    "cat_of (pl_db q) = cat_of (pl_db r)" "pl_open q = []"
  have here: "altering (cat_of (pl_db (in_tx_pool p d))) table ob" using assms(2) run(1) by simp
  show thesis
    by (rule AddField_step [OF assms(1) here run(2) assms(5), folded run(3)], rule that [OF run(4)]) (assumption | simp add: run(1))+
qed

lemma find_last: "\<not> P x \<Longrightarrow> find P (xs @ [x]) = find P xs"
  by (induction xs) simp_all

lemma unmarked_columns:
  assumes "ce_name ce \<noteq> n"
  shows "unreadable (marks \<union> (if b then {n} else {})) ce = unreadable marks ce"
    "column_kind (marks \<union> (if b then {n} else {})) ce = column_kind marks ce"
  using assms by (auto simp: unreadable_def column_kind_def spec_type_def)

text \<open>The field that a new column is described as.\<close>

lemma describe_new_column:
  assumes "sqliteTypeFor (fd_Type f) = Inr ty"
  shows "\<not> unreadable marks (column_of (field_column f))"
    "describe_field marks ob (column_of (field_column f)) = f\<lparr>fd_Type := if fd_Name f \<in> marks then Type_Time else read_back (fd_Type f),
       fd_Precision := None, fd_AutoIncrement := False\<rparr>"
  using sqliteTypeFor_read_back [OF assms] assms
  by (simp_all add: column_of_def field_column_def unreadable_def recognized_def declared_type_def describe_field_def spec_type_def
      alias_column_def int_key_def)

text \<open>C12: AddField adds one field and nothing else. After a successful AlterCollection with it, DescribeCollection
  returns the fields it returned before, in the same order and of the same types, and last the new
  one, with its nullability, as the type SQLite keeps for it or as Time when it is one (or when a
  marker of its name was left behind); the key, the indexes and the foreign keys are the same.\<close>

theorem AddField_describe:
  assumes "executes E cat_of" "wf_catalog (cat_of (pl_db p))" "markers_ok (cat_of (pl_db p))" "pl_open p = []"
    and "alterable (cat_of (pl_db p)) table" "\<not> refers (cat_of (pl_db p)) table {timeMarkerTable, ''sqlite_sequence''}"
    and "fst (DescribeCollection E False table p) = Ok d"
    and "AlterCollection E table [run_call (Add_Field f opts)] p = (Ok (), q)"
    and "time \<longleftrightarrow> fd_Type f = Type_Time \<or> fd_Name f \<in> spec_markers (cat_of (pl_db p)) table"
  shows "\<exists>d' fs. fst (DescribeCollection E False table q) = Ok d' \<and> map field_kind fs = map field_kind (cd_Fields d) \<and>
    cd_Fields d' = fs @ [f\<lparr>fd_Type := if time then Type_Time else read_back (fd_Type f), fd_Precision := None, fd_AutoIncrement := False\<rparr>] \<and>
    cd_PrimaryKey d' = cd_PrimaryKey d \<and> cd_Indexes d' = cd_Indexes d \<and> cd_ForeignKeys d' = cd_ForeignKeys d"
proof -
  let ?cat = "cat_of (pl_db p)" and ?cat' = "cat_of (pl_db q)" and ?ce = "column_of (field_column f)"
  let ?marks = "spec_markers ?cat table" and ?marks' = "spec_markers ?cat' table"
  obtain ob where ob: "readable ?cat table ob" "d = describe_object ?cat False ob"
    using assms(7) unfolding describes_readable [OF assms(1,2,4)] by blast
  have found: "object_named ?cat table = Some ob" "oe_name ob = table" using ob(1) by (simp_all add: readable_def)
  show ?thesis
  proof (rule AddField_catalog [OF assms(1) alteringI [OF assms(2,3,5) found(1)] assms(4,8) refl])
    fix ob' ty
    assume new: "pl_open q = []" "altering ?cat' table ob'" "textless ob' = textless (add_column ?ce ob)" "sqliteTypeFor (fd_Type f) = Inr ty"
      "foldASCII (fd_Name f) \<notin> foldASCII ` ce_name ` set (oe_columns ob)"
      "\<And>n. spec_markers ?cat' n = spec_markers ?cat n \<union> (if n = table \<and> fd_Type f = Type_Time then {fd_Name f} else {})"
      "shapes_agree {timeMarkerTable, ''sqlite_sequence''} ?cat ?cat'"
    note there = alteringD [OF new(2)]
    have marks: "?marks' = ?marks \<union> (if fd_Type f = Type_Time then {fd_Name f} else {})" using new(6) by simp
    have parts: "visible (add_column ?ce ob) = visible ob @ [?ce]" "oe_name (add_column ?ce ob) = table"
      "key_columns (add_column ?ce ob) = key_columns ob" "oe_keys (add_column ?ce ob) = oe_keys ob"
      "spec_indexes (add_column ?ce ob) = spec_indexes ob" "first_hidden (add_column ?ce ob) = first_hidden ob"
      "oe_kind (add_column ?ce ob) = oe_kind ob"
      by (simp_all add: add_column_def visible_def key_columns_def column_of_def found(2) spec_indexes_def first_hidden_def
          find_last)
    have other: "ce_name ce \<noteq> fd_Name f" if "ce \<in> set (visible ob)" for ce
      using that new(5) by (force simp: visible_def)
    note like = describe_like [OF new(3) parts(2), of ?cat']
    note was = describe_like [OF refl found(2), of ?cat]
    have fields: "cd_Fields (describe_object ?cat' False ob') = map (describe_field ?marks' ob') (visible ob @ [?ce])"
      using textless_parts [OF new(3)] parts by (simp add: describe_object_def Let_def)
    have "readable ?cat' table ob'"
      using ob(1) there(4) textless_parts [OF new(3)] parts other unmarked_columns(1) describe_new_column(1) [OF new(4)]
      by (simp add: readable_def list_all_iff marks)
    then have "fst (DescribeCollection E False table q) = Ok (describe_object ?cat' False ob')"
      unfolding describes_readable [OF assms(1) there(1) new(1)] by blast
    moreover have "map field_kind (map (describe_field ?marks' ob') (visible ob)) = map field_kind (cd_Fields d)"
      unfolding ob(2) described_kinds found(2) marks using unmarked_columns(2) [OF other] by simp
    moreover have "cd_ForeignKeys (describe_object ?cat' False ob') = cd_ForeignKeys d"
      unfolding ob(2) like(4) was(4) parts(4)
      using spec_key_shapes [OF assms(2) there(1) new(7)] assms(6) found(1) by (auto simp: refers_def list_ex_iff)
    ultimately show ?thesis
      using like(2,3) was(2,3) parts(3,5) fields describe_new_column(2) [OF new(4)]
      by (intro exI [of _ "describe_object ?cat' False ob'"] exI [of _ "map (describe_field ?marks' ob') (visible ob)"])
        (auto simp: ob(2) marks assms(9))
  qed
qed

section \<open>DropField\<close>

lemma run_drop_column:
  assumes "executes E cat_of" "wf_catalog (cat_of d)" "markers_ok (cat_of d)" "alterable (cat_of d) table"
    and "object_named (cat_of d) table = Some ob" "eng_exec E (buildAlterTableDropColumnSQL table c) [] d = (None, d')"
  obtains ob' where "wf_catalog (cat_of d')" "markers_ok (cat_of d')" "object_named (cat_of d') table = Some ob'"
    "textless ob' = textless (drop_column c ob)" "\<And>n. spec_markers (cat_of d') n = spec_markers (cat_of d) n"
    "shapes_agree {} (cat_of d) (cat_of d')" "key_columns (drop_column c ob) = key_columns ob"
    "foldASCII c \<in> foldASCII ` ce_name ` set (oe_columns ob)" "views (cat_of d') = views (cat_of d)"
proof -
  have ran: "exec_drop_column table c (cat_of d) \<noteq> Refused"
    using executed(1) [OF assms(1,2,6)] by (simp add: catalog_exec_alter(2))
  note run = on_column_table [OF assms(4,5) ran [unfolded exec_drop_column_def]]
  have effect: "exec_drop_column table c (cat_of d) = (if spelled (map ce_name (oe_columns ob)) c = None \<or> length (oe_columns ob) = 1 \<or>
      uses_column ob c then Refused else Rewritten (update_object table (drop_column c) (cat_of d)))"
    unfolding exec_drop_column_def by (rule run(1))
  have exec: "catalog_exec (buildAlterTableDropColumnSQL table c) [] (cat_of d) = Rewritten (update_object table (drop_column c) (cat_of d))"
    using ran effect by (simp add: catalog_exec_alter(2) split: if_splits)
  have there: "foldASCII c \<in> foldASCII ` ce_name ` set (oe_columns ob)" and unused: "\<not> uses_column ob c"
    using ran effect spelled_None [of "map ce_name (oe_columns ob)" c] by (auto split: if_splits)
  have "filter (\<lambda>ce. ce_pk ce > 0) (visible (drop_column c ob)) = filter (\<lambda>ce. ce_pk ce > 0) (visible ob)"
    using unused by (auto simp: visible_def drop_column_def uses_column_def list_ex_iff intro: filter_cong)
  then have key: "key_columns (drop_column c ob) = key_columns ob" by (simp add: key_columns_def)
  then have shape: "key_shape (drop_column c ob) = key_shape ob" by (simp add: key_shape_def) (simp add: drop_column_def)
  show thesis
    by (rule run_update [OF assms(1-5) run(2) assms(6) exec keeps_column(2) shape], rule that [OF _ _ _ _ _ _ key there]) (assumption | simp)+
qed

text \<open>A statement that is carried out whenever SQLite has no reason to refuse it.\<close>

definition heeds :: "'d engine \<Rightarrow> ('d \<Rightarrow> catalog) \<Rightarrow> string \<Rightarrow> bool" where
  "heeds E cat_of q \<longleftrightarrow> (\<forall>args d cat. catalog_exec q args (cat_of d) = Changed cat \<longrightarrow> fst (eng_exec E q args d) = None)"

text \<open>A statement whose failure is ignored has done its effect or nothing.\<close>

lemma ignored_statement:
  assumes "executes E cat_of" "wf_catalog (cat_of d)" "fst (eng_commit E (snd (eng_exec E q args d))) = None"
    and "catalog_exec q args (cat_of d) = Refused \<or> catalog_exec q args (cat_of d) = Changed c"
  shows "cat_of (snd (eng_exec E q args d)) = cat_of d \<or>
    catalog_exec q args (cat_of d) = Changed c \<and> cat_of (snd (eng_exec E q args d)) = c"
proof -
  obtain e d' where run: "eng_exec E q args d = (e, d')" by fastforce
  show ?thesis
  proof (cases e)
    case None
    then show ?thesis using executed [OF assms(1,2)] run assms(4) by auto
  next
    case (Some x)
    have "cat_of d' = cat_of d \<or> fst (eng_commit E d') \<noteq> None"
      using assms(1) run Some unfolding executes_def by blast
    then show ?thesis using assms(3) run by simp
  qed
qed

lemma only_markers [simp]:
  "object_named (cat\<lparr>cat_markers := ms\<rparr>) n = object_named cat n" "markers_ok (cat\<lparr>cat_markers := ms\<rparr>) = markers_ok cat"
  by (simp_all add: markers_ok_def)

lemma run_unmark_column:
  assumes "executes E cat_of" "wf_catalog (cat_of d)" "markers_ok (cat_of d)" "d' = snd (eng_exec E delete_marker_sql [V_Text t, V_Text c] d)"
    and "fst (eng_commit E d') = None"
  obtains ms where "cat_of d' = (cat_of d)\<lparr>cat_markers := ms\<rparr>"
    "set (cat_markers (cat_of d)) - {(t, c)} \<subseteq> set ms" "set ms \<subseteq> set (cat_markers (cat_of d))"
    "heeds E cat_of delete_marker_sql \<Longrightarrow> c \<notin> spec_markers (cat_of d') t"
proof -
  let ?ms = "filter (\<lambda>m. m \<noteq> (t, c)) (cat_markers (cat_of d))"
  have "exec_unmark_column [V_Text t, V_Text c] (cat_of d) = Refused \<or>
      exec_unmark_column [V_Text t, V_Text c] (cat_of d) = Changed ((cat_of d)\<lparr>cat_markers := ?ms\<rparr>)"
    using assms(3) by (auto simp: exec_unmark_column_def markers_ok_def split: option.split)
  then have result: "cat_of d' = cat_of d \<or> cat_of d' = (cat_of d)\<lparr>cat_markers := ?ms\<rparr>"
    using ignored_statement [OF assms(1,2), of delete_marker_sql "[V_Text t, V_Text c]"] assms(4,5) by (auto simp: catalog_exec_markers)
  have gone: "c \<notin> spec_markers (cat_of d') t" if heeds: "heeds E cat_of delete_marker_sql"
  proof (cases "marked (cat_of d)")
    case True
    then have change: "catalog_exec delete_marker_sql [V_Text t, V_Text c] (cat_of d) = Changed ((cat_of d)\<lparr>cat_markers := ?ms\<rparr>)"
      using markers_ok_marked [OF assms(2,3)] assms(3)
      by (auto simp: catalog_exec_markers exec_unmark_column_def markers_ok_def split: option.split)
    then have "eng_exec E delete_marker_sql [V_Text t, V_Text c] d = (None, d')"
      using heeds assms(4) unfolding heeds_def by (metis prod.collapse)
    then have "cat_of d' = (cat_of d)\<lparr>cat_markers := ?ms\<rparr>" using executed(2) [OF assms(1,2)] change by simp
    then show ?thesis by (auto simp: spec_markers_def)
  next
    case False
    then show ?thesis using result by (auto simp: spec_markers_def)
  qed
  show thesis
    using result
  proof
    assume "cat_of d' = cat_of d"
    then show thesis by (intro that [OF _ _ _ gone, of "cat_markers (cat_of d)"]) auto
  next
    assume "cat_of d' = (cat_of d)\<lparr>cat_markers := ?ms\<rparr>"
    then show thesis by (rule that [OF _ _ _ gone]) auto
  qed
qed

lemma DropField_step:
  assumes "executes E cat_of" "altering (cat_of (pl_db p)) table ob"
    and "run_call (Drop_Field c opts) (sqliteAlterApplier E table) p = (Ok (), r)" "fst (eng_commit E (pl_db r)) = None"
  obtains ob' where "altering (cat_of (pl_db r)) table ob'" "textless ob' = textless (drop_column c ob)"
    "\<And>n. n \<noteq> c \<Longrightarrow> n \<in> spec_markers (cat_of (pl_db r)) table \<longleftrightarrow> n \<in> spec_markers (cat_of (pl_db p)) table"
    "heeds E cat_of delete_marker_sql \<Longrightarrow> c \<notin> spec_markers (cat_of (pl_db r)) table"
    "shapes_agree {} (cat_of (pl_db p)) (cat_of (pl_db r))" "key_columns (drop_column c ob) = key_columns ob"
    "foldASCII c \<in> foldASCII ` ce_name ` set (oe_columns ob)"
proof -
  have "ApplyDropField E table c opts p = (Ok (), r)" using assms(3) by (simp add: sqliteAlterApplier_def)
  then obtain d1 where d1: "eng_exec E (buildAlterTableDropColumnSQL table c) [] (pl_db p) = (None, d1)"
      "pl_db r = snd (eng_exec E delete_marker_sql [V_Text table, V_Text c] d1)"
    by (auto simp: ApplyDropField_def exec_then_ignore)
  show thesis
  proof (rule run_drop_column [OF assms(1) alteringD [OF assms(2)] d1(1)])
    fix ob' assume step: "wf_catalog (cat_of d1)" "markers_ok (cat_of d1)" "object_named (cat_of d1) table = Some ob'"
      "textless ob' = textless (drop_column c ob)" "\<And>n. spec_markers (cat_of d1) n = spec_markers (cat_of (pl_db p)) n"
      "shapes_agree {} (cat_of (pl_db p)) (cat_of d1)" "key_columns (drop_column c ob) = key_columns ob"
      "foldASCII c \<in> foldASCII ` ce_name ` set (oe_columns ob)" "views (cat_of d1) = views (cat_of (pl_db p))"
    show thesis
    proof (rule run_unmark_column [OF assms(1) step(1,2) d1(2) assms(4)])
      fix ms assume ms: "cat_of (pl_db r) = (cat_of d1)\<lparr>cat_markers := ms\<rparr>"
        "set (cat_markers (cat_of d1)) - {(table, c)} \<subseteq> set ms" "set ms \<subseteq> set (cat_markers (cat_of d1))"
        "heeds E cat_of delete_marker_sql \<Longrightarrow> c \<notin> spec_markers (cat_of (pl_db r)) table"
      have "n \<in> spec_markers (cat_of (pl_db r)) table \<longleftrightarrow> n \<in> spec_markers (cat_of d1) table" if "n \<noteq> c" for n
        using ms(2,3) that by (force simp: ms(1) spec_markers_def)
      moreover have "altering (cat_of (pl_db r)) table ob'"
        by (rule altered_table [OF assms(2)]) (use step(1,2,3,9) in \<open>simp_all add: ms(1) views_def\<close>)
      ultimately show thesis
        using that [OF _ step(4) _ ms(4) _ step(7,8)] step(5,6) by (simp add: ms(1) shapes_agree_def)
    qed
  qed
qed

lemma DropField_catalog:
  assumes "executes E cat_of" "altering (cat_of (pl_db p)) table ob" "pl_open p = []"
    and "AlterCollection E table [run_call (Drop_Field c opts)] p = (Ok (), q)"
  obtains ob' where "pl_open q = []" "altering (cat_of (pl_db q)) table ob'" "textless ob' = textless (drop_column c ob)"
    "\<And>n. n \<noteq> c \<Longrightarrow> n \<in> spec_markers (cat_of (pl_db q)) table \<longleftrightarrow> n \<in> spec_markers (cat_of (pl_db p)) table"
    "shapes_agree {} (cat_of (pl_db p)) (cat_of (pl_db q))" "key_columns (drop_column c ob) = key_columns ob"
proof (rule AlterCollection_one [OF assms(1,3,4)])
  fix d r
  assume run: "cat_of d = cat_of (pl_db p)" "run_call (Drop_Field c opts) (sqliteAlterApplier E table) (in_tx_pool p d) = (Ok (), r)"
    "fst (eng_commit E (pl_db r)) = None" "cat_of (pl_db q) = cat_of (pl_db r)" "pl_open q = []"
  have here: "altering (cat_of (pl_db (in_tx_pool p d))) table ob" using assms(2) run(1) by simp
  show thesis
    by (rule DropField_step [OF assms(1) here run(2,3), folded run(4)], rule that [OF run(5)]) (assumption | simp add: run(1))+
qed

text \<open>DropField takes off one field and nothing else. After a successful AlterCollection with it,
  under whichever spelling of the column's name, DescribeCollection returns the other fields, of the same types
  and in the same order, and the same key, indexes and foreign keys.\<close>

theorem DropField_describe:
  assumes "executes E cat_of" "wf_catalog (cat_of (pl_db p))" "markers_ok (cat_of (pl_db p))" "pl_open p = []"
    and "alterable (cat_of (pl_db p)) table" "fst (DescribeCollection E False table p) = Ok d"
    and "AlterCollection E table [run_call (Drop_Field c opts)] p = (Ok (), q)"
  shows "\<exists>d'. fst (DescribeCollection E False table q) = Ok d' \<and>
    map field_kind (cd_Fields d') = map field_kind (filter (\<lambda>f. foldASCII (fd_Name f) \<noteq> foldASCII c) (cd_Fields d)) \<and>
    cd_PrimaryKey d' = cd_PrimaryKey d \<and> cd_Indexes d' = cd_Indexes d \<and> cd_ForeignKeys d' = cd_ForeignKeys d"
proof -
  let ?cat = "cat_of (pl_db p)" and ?cat' = "cat_of (pl_db q)"
  let ?marks = "spec_markers ?cat table" and ?marks' = "spec_markers ?cat' table" and ?stays = "\<lambda>n. foldASCII n \<noteq> foldASCII c"
  obtain ob where ob: "readable ?cat table ob" "d = describe_object ?cat False ob"
    using assms(6) unfolding describes_readable [OF assms(1,2,4)] by blast
  have found: "object_named ?cat table = Some ob" "oe_name ob = table" using ob(1) by (simp_all add: readable_def)
  show ?thesis
  proof (rule DropField_catalog [OF assms(1) alteringI [OF assms(2,3,5) found(1)] assms(4,7)])
    fix ob'
    assume new: "pl_open q = []" "altering ?cat' table ob'" "textless ob' = textless (drop_column c ob)"
      "\<And>n. n \<noteq> c \<Longrightarrow> n \<in> ?marks' \<longleftrightarrow> n \<in> ?marks" "shapes_agree {} ?cat ?cat'" "key_columns (drop_column c ob) = key_columns ob"
    note there = alteringD [OF new(2)]
    have parts: "visible (drop_column c ob) = filter (\<lambda>ce. ?stays (ce_name ce)) (visible ob)" "oe_name (drop_column c ob) = table"
      "oe_keys (drop_column c ob) = oe_keys ob" "spec_indexes (drop_column c ob) = spec_indexes ob" "oe_kind (drop_column c ob) = oe_kind ob"
      by (simp_all add: drop_column_def visible_def found(2) spec_indexes_def conj_commute)
    have hidden: "first_hidden (drop_column c ob) = None"
      using ob(1) by (auto simp: readable_def first_hidden_def drop_column_def find_None_iff)
    have same: "column_kind ?marks' ce = column_kind ?marks ce" "unreadable ?marks' ce = unreadable ?marks ce" if "?stays (ce_name ce)" for ce
      using new(4) [of "ce_name ce"] that by (auto simp: column_kind_def spec_type_def unreadable_def)
    note like = describe_like [OF new(3) parts(2), of ?cat']
    note was = describe_like [OF refl found(2), of ?cat]
    have "readable ?cat' table ob'"
      using ob(1) there(4) textless_parts [OF new(3)] parts hidden same(2) by (simp add: readable_def list_all_iff)
    then have "fst (DescribeCollection E False table q) = Ok (describe_object ?cat' False ob')"
      unfolding describes_readable [OF assms(1) there(1) new(1)] by blast
    moreover have "map field_kind (cd_Fields (describe_object ?cat' False ob')) =
        map field_kind (filter (\<lambda>f. ?stays (fd_Name f)) (cd_Fields d))"
    proof -
      have "map field_kind (filter (\<lambda>f. ?stays (fd_Name f)) (cd_Fields d)) =
          filter (\<lambda>k. ?stays (fst k)) (map field_kind (cd_Fields d))"
        by (simp add: filter_map comp_def field_kind_def)
      also have "\<dots> = map (column_kind ?marks) (filter (\<lambda>ce. ?stays (ce_name ce)) (visible ob))"
        unfolding ob(2) was(1) by (simp add: filter_map comp_def column_kind_def)
      finally show ?thesis unfolding like(1) parts(1) using same(1) by simp
    qed
    moreover have "cd_ForeignKeys (describe_object ?cat' False ob') = cd_ForeignKeys d"
      unfolding ob(2) like(4) was(4) parts(3) using spec_key_shapes [OF assms(2) there(1) new(5)] by simp
    ultimately show ?thesis using like(2,3) was(2,3) parts(4) new(6) by (auto simp: ob(2))
  qed
qed

end
