(* ===== verification/Rename_Effects.thy ===== *)
theory Rename_Effects
  imports Alter_Effects
begin

text \<open>
  What DescribeCollection returns after RenameField: the column has its new name in the fields, the key, the indexes
  and the foreign keys, and a Time column stays one when it was named exactly as it is spelled; named in
  another letter case it is renamed all the same, but its marker stays with the old name.
\<close>

section \<open>The renamed table\<close>

definition renamed_column :: "string \<Rightarrow> string \<Rightarrow> column_entry \<Rightarrow> column_entry" where
  "renamed_column old new ce = ce\<lparr>ce_name := renamed_name old new (ce_name ce)\<rparr>"

lemma renamed_column_sel [simp]:
  "ce_name (renamed_column old new ce) = renamed_name old new (ce_name ce)" "ce_type (renamed_column old new ce) = ce_type ce"
  "ce_pk (renamed_column old new ce) = ce_pk ce" "ce_hidden (renamed_column old new ce) = ce_hidden ce"
  by (simp_all add: renamed_column_def)

lemma insort_map: "insort_key f (g x) (map g xs) = map g (insort_key (\<lambda>y. f (g y)) x xs)"
  by (induction xs) simp_all

lemma sort_map: "sort_key f (map g xs) = map g (sort_key (\<lambda>y. f (g y)) xs)"
  by (induction xs) (simp_all add: insort_map)

lemma rename_column_parts:
  "oe_name (rename_column old new ob) = oe_name ob" "oe_kind (rename_column old new ob) = oe_kind ob"
  "visible (rename_column old new ob) = map (renamed_column old new) (visible ob)"
  "map ce_name (key_columns (rename_column old new ob)) = map (renamed_name old new) (map ce_name (key_columns ob))"
  "first_hidden (rename_column old new ob) = None \<longleftrightarrow> first_hidden ob = None"
proof -
  show visible: "visible (rename_column old new ob) = map (renamed_column old new) (visible ob)"
    by (simp add: visible_def rename_column_def filter_map comp_def flip: renamed_column_def)
  show "map ce_name (key_columns (rename_column old new ob)) = map (renamed_name old new) (map ce_name (key_columns ob))"
    unfolding key_columns_def visible by (simp add: filter_map comp_def sort_map)
  show "first_hidden (rename_column old new ob) = None \<longleftrightarrow> first_hidden ob = None"
    by (auto simp: first_hidden_def rename_column_def find_None_iff)
qed (simp_all add: rename_column_def)

lemma rename_column_indexes:
  "spec_indexes (rename_column old new ob) = map (\<lambda>i. i\<lparr>ix_Fields := map (renamed_name old new) (ix_Fields i)\<rparr>) (spec_indexes ob)"
proof -
  let ?ix = "\<lambda>ix. ix\<lparr>ie_terms := map (\<lambda>t. t\<lparr>te_column := map_option (renamed_name old new) (te_column t)\<rparr>) (ie_terms ix)\<rparr>"
  have terms: "map te_column (filter te_key (ie_terms (?ix ix))) =
      map (map_option (renamed_name old new)) (map te_column (filter te_key (ie_terms ix)))" for ix
    by (simp add: filter_map comp_def)
  have "spec_index_fields (?ix ix) = map (renamed_name old new) (spec_index_fields ix)" for ix
    unfolding spec_index_fields_def Let_def terms by (auto simp: option.map_sel image_iff)
  then show ?thesis by (simp add: spec_indexes_def rename_column_def filter_map comp_def)
qed

lemma spec_key_renamed:
  "spec_key cat n (k\<lparr>ke_columns := map (\<lambda>(i, c, r). (i, f c, r)) (ke_columns k)\<rparr>) =
     (spec_key cat n k)\<lparr>fk_Fields := map f (fk_Fields (spec_key cat n k))\<rparr>"
proof -
  have "named_columns (map (\<lambda>(i, c, r). (i, f c, r)) cols) = named_columns cols" for cols :: "(int \<times> string \<times> string option) list"
    by (induction cols) (auto simp: named_columns_def)
  then show ?thesis by (simp add: spec_key_def case_prod_beta comp_def)
qed

section \<open>The statement\<close>

lemma rename_in_catalog_map:
  "rename_in_catalog n old new cat = cat\<lparr>cat_objects := map (\<lambda>ob. rename_target n old new
     (if foldASCII (oe_name ob) = foldASCII n then rename_column old new ob else ob)) (cat_objects cat)\<rparr>"
  by (simp add: rename_in_catalog_def Let_def update_object_def comp_def)

lemma rename_target_parts:
  "key_shape (rename_target n old new ob) = key_shape ob"
  "oe_keys ob = [] \<Longrightarrow> rename_target n old new ob = ob"
  "\<not> list_ex (\<lambda>k. foldASCII (ke_target k) = foldASCII n) (oe_keys ob) \<Longrightarrow> rename_target n old new ob = ob"
proof -
  show "key_shape (rename_target n old new ob) = key_shape ob"
    by (simp add: key_shape_def key_columns_def visible_def rename_target_def)
  show "oe_keys ob = [] \<Longrightarrow> rename_target n old new ob = ob" by (simp add: rename_target_def)
  assume "\<not> list_ex (\<lambda>k. foldASCII (ke_target k) = foldASCII n) (oe_keys ob)"
  then have "map (\<lambda>k. if foldASCII (ke_target k) = foldASCII n
      then k\<lparr>ke_columns := map (\<lambda>(i, c, r). (i, c, map_option (renamed_name old new) r)) (ke_columns k)\<rparr> else k) (oe_keys ob) = oe_keys ob"
    by (intro map_idI) (auto simp: list_ex_iff)
  then show "rename_target n old new ob = ob" by (simp add: rename_target_def)
qed

lemma run_rename_column:
  assumes "executes E cat_of" "wf_catalog (cat_of d)" "markers_ok (cat_of d)" "alterable (cat_of d) table"
    and "object_named (cat_of d) table = Some ob" "eng_exec E (buildAlterTableRenameColumnSQL table old new) [] d = (None, d')"
    and "\<not> refers (cat_of d) table {foldASCII table}"
  obtains ob' where "wf_catalog (cat_of d')" "markers_ok (cat_of d')" "object_named (cat_of d') table = Some ob'"
    "textless ob' = textless (rename_column old new ob)" "\<And>n. spec_markers (cat_of d') n = spec_markers (cat_of d) n"
    "shapes_agree {foldASCII table} (cat_of d) (cat_of d')"
    "foldASCII new \<noteq> foldASCII old \<Longrightarrow> foldASCII new \<notin> foldASCII ` ce_name ` set (oe_columns ob)"
    "views (cat_of d') = views (cat_of d)"
proof -
  let ?g = "\<lambda>o'. rename_target table old new (if foldASCII (oe_name o') = foldASCII table then rename_column old new o' else o')"
  have ran: "exec_rename_column table old new (cat_of d) \<noteq> Refused"
    using executed(1) [OF assms(1,2,6)] by (simp add: catalog_exec_alter(3))
  note run = on_column_table [OF assms(4,5) ran [unfolded exec_rename_column_def]]
  have effect: "exec_rename_column table old new (cat_of d) = (if spelled (map ce_name (oe_columns ob)) old = None \<or>
      foldASCII new \<noteq> foldASCII old \<and> spelled (map ce_name (oe_columns ob)) new \<noteq> None then Refused
      else Rewritten (rename_in_catalog table old new (cat_of d)))"
    unfolding exec_rename_column_def by (rule run(1))
  have exec: "catalog_exec (buildAlterTableRenameColumnSQL table old new) [] (cat_of d) =
      Rewritten ((cat_of d)\<lparr>cat_objects := map ?g (cat_objects (cat_of d))\<rparr>)"
    using ran effect by (simp add: catalog_exec_alter(3) rename_in_catalog_map split: if_splits)
  have fresh: "foldASCII new \<noteq> foldASCII old \<Longrightarrow> foldASCII new \<notin> foldASCII ` ce_name ` set (oe_columns ob)"
    using ran effect spelled_None [of "map ce_name (oe_columns ob)" new] by (auto split: if_splits)
  have keeps: "keeps_names ?g"
    using keeps_update [OF keeps_column(3)] keeps_column(4) by (simp add: keeps_names_def)
  have own: "?g o' = o'" if o': "o' \<in> set (cat_objects (cat_of d))" "oe_kind o' = View \<or> foldASCII (oe_name o') = timeMarkerTable" for o'
  proof -
    have "rename_target table old new o' = o'"
    proof (cases "oe_kind o' = View")
      case False
      then have "object_named (cat_of d) timeMarkerTable = Some o'" using o' by (simp add: object_named_iff [OF assms(2)] marker_names)
      then have "o'\<lparr>oe_sql := []\<rparr> = marker_object" using assms(3) by (simp add: markers_ok_def)
      then have "oe_keys o' = oe_keys marker_object" by (simp flip: \<open>o'\<lparr>oe_sql := []\<rparr> = marker_object\<close>)
      then show ?thesis by (intro rename_target_parts(2)) (simp add: marker_object_def made_table_def)
    qed (simp add: rename_target_def)
    then show ?thesis using other_object [OF assms(2,4,5) run(2) o'] by simp
  qed
  note step = rewritten_step [OF assms(1-3,6) exec keeps own]
  have here: "foldASCII (oe_name ob) = foldASCII table" using assms(5) by (simp add: object_named_iff [OF assms(2)])
  have "?g ob = rename_column old new ob"
    using assms(5,7) here rename_target_parts(3) [of table "rename_column old new ob"]
    by (simp add: refers_def list_ex_iff) (auto simp: rename_column_def)
  then obtain ob' where ob': "object_named (cat_of d') table = Some ob'" "textless ob' = textless (rename_column old new ob)"
    using step(6) [of table] assms(5) by auto
  have "shapes_agree {foldASCII table} (cat_of d) (cat_of d')"
    by (rule step_shapes [OF assms(2) step(6,5)]) (simp_all add: rename_target_parts(1))
  then show thesis using that [OF step(1,2) ob' step(3) _ _ step(7)] fresh by blast
qed

section \<open>The marker\<close>

text \<open>The markers of a table after a column was renamed: a name that is marked already keeps SQLite from moving one.\<close>

definition moved_marks :: "string \<Rightarrow> string \<Rightarrow> string set \<Rightarrow> string set" where
  "moved_marks old new marks = (if old \<in> marks \<and> new \<notin> marks then insert new (marks - {old}) else marks)"

lemma spec_markers_mem: "n \<in> spec_markers cat t \<longleftrightarrow> marked cat \<and> (t, n) \<in> set (cat_markers cat)"
  by (force simp: spec_markers_def)

lemma run_remark_column:
  assumes "executes E cat_of" "wf_catalog (cat_of d)" "markers_ok (cat_of d)"
    and "d' = snd (eng_exec E rename_marker_sql [V_Text new, V_Text t, V_Text old] d)" "fst (eng_commit E d') = None"
  obtains ms where "cat_of d' = (cat_of d)\<lparr>cat_markers := ms\<rparr>"
    "old \<notin> spec_markers (cat_of d) t \<or> heeds E cat_of rename_marker_sql \<Longrightarrow>
       spec_markers (cat_of d') t = moved_marks old new (spec_markers (cat_of d) t)"
proof -
  let ?args = "[V_Text new, V_Text t, V_Text old]" and ?ms = "cat_markers (cat_of d)"
  let ?moved = "map (\<lambda>m. if m = (t, old) then (t, new) else m) ?ms"
  have effect: "exec_remark_column ?args (cat_of d) =
      (if object_named (cat_of d) timeMarkerTable = None \<or> new \<noteq> old \<and> {(t, old), (t, new)} \<subseteq> set ?ms then Refused
       else Changed ((cat_of d)\<lparr>cat_markers := ?moved\<rparr>))"
    using assms(3) by (auto simp: exec_remark_column_def markers_ok_def split: option.split)
  have result: "cat_of d' = cat_of d \<or>
      exec_remark_column ?args (cat_of d) \<noteq> Refused \<and> cat_of d' = (cat_of d)\<lparr>cat_markers := ?moved\<rparr>"
    using ignored_statement [OF assms(1,2), of rename_marker_sql ?args] assms(4,5) effect
    by (auto simp: catalog_exec_markers split: if_splits)
  note in_markers = spec_markers_mem [of _ "cat_of d" t]
  have "(t, n) \<in> set ?moved \<longleftrightarrow> (t, n) \<in> set ?ms \<and> n \<noteq> old \<or> n = new \<and> (t, old) \<in> set ?ms" for n
    by (auto simp: image_iff)
  moreover have "cat_markers ((cat_of d)\<lparr>cat_markers := ?moved\<rparr>) = ?moved" "marked ((cat_of d)\<lparr>cat_markers := ?moved\<rparr>) = marked (cat_of d)"
    by simp_all
  ultimately have moved: "n \<in> spec_markers ((cat_of d)\<lparr>cat_markers := ?moved\<rparr>) t \<longleftrightarrow>
      marked (cat_of d) \<and> ((t, n) \<in> set ?ms \<and> n \<noteq> old \<or> n = new \<and> (t, old) \<in> set ?ms)" for n
    by (simp only: spec_markers_mem)
  have "\<exists>ms. cat_of d' = (cat_of d)\<lparr>cat_markers := ms\<rparr>"
    using result
  proof (elim disjE conjE)
    assume "cat_of d' = cat_of d"
    then show ?thesis by (intro exI [of _ ?ms]) simp
  qed (rule exI)
  then obtain ms where ms: "cat_of d' = (cat_of d)\<lparr>cat_markers := ms\<rparr>" by (rule exE)
  show thesis
  proof (rule that [OF ms])
    assume heeds: "old \<notin> spec_markers (cat_of d) t \<or> heeds E cat_of rename_marker_sql"
    let ?marks = "spec_markers (cat_of d) t"
    consider "old \<notin> ?marks" | "old = new" | "old \<in> ?marks" "new \<in> ?marks" "old \<noteq> new" | "old \<in> ?marks" "new \<notin> ?marks" by blast
    then show "spec_markers (cat_of d') t = moved_marks old new ?marks"
    proof cases
      case 1
      then have "spec_markers ((cat_of d)\<lparr>cat_markers := ?moved\<rparr>) t = ?marks"
        by (intro set_eqI) (simp only: moved in_markers, blast)
      then show ?thesis using result 1 by (elim disjE conjE) (simp_all add: moved_marks_def)
    next
      case 2
      then have "?moved = ?ms" by (intro map_idI) simp
      then show ?thesis using result 2 by (auto simp: moved_marks_def)
    next
      case 3
      then have "{(t, old), (t, new)} \<subseteq> set ?ms" using in_markers by simp
      then have "exec_remark_column ?args (cat_of d) = Refused" using effect 3(3) by simp
      then have "cat_of d' = cat_of d" using result by (elim disjE conjE) simp_all
      then show ?thesis using 3 by (simp add: moved_marks_def)
    next
      case 4
      have some: "marked (cat_of d)" "(t, old) \<in> set ?ms" "(t, new) \<notin> set ?ms" using 4 in_markers by auto
      then have changes: "catalog_exec rename_marker_sql ?args (cat_of d) = Changed ((cat_of d)\<lparr>cat_markers := ?moved\<rparr>)"
        using effect markers_ok_marked [OF assms(2,3)] by (simp add: catalog_exec_markers)
      have "heeds E cat_of rename_marker_sql" using heeds 4(1) by blast
      then have "fst (eng_exec E rename_marker_sql ?args d) = None" using changes unfolding heeds_def by blast
      then have "eng_exec E rename_marker_sql ?args d = (None, d')" using assms(4) by (metis prod.collapse)
      then have "cat_of d' = (cat_of d)\<lparr>cat_markers := ?moved\<rparr>"
        using executed(2) [OF assms(1,2)] changes by simp
      then have "spec_markers (cat_of d') t = insert new (?marks - {old})"
        using some by (intro set_eqI) (simp only: moved in_markers insert_iff Diff_iff singleton_iff, blast)
      then show ?thesis using 4 by (simp add: moved_marks_def)
    qed
  qed
qed

lemma RenameField_step:
  assumes "executes E cat_of" "altering (cat_of (pl_db p)) table ob"
    and "\<not> refers (cat_of (pl_db p)) table {foldASCII table}" "marks = spec_markers (cat_of (pl_db p)) table"
    and "run_call (Rename_Field old new opts) (sqliteAlterApplier E table) p = (Ok (), r)" "fst (eng_commit E (pl_db r)) = None"
  obtains ob' where "altering (cat_of (pl_db r)) table ob'" "textless ob' = textless (rename_column old new ob)"
    "shapes_agree {foldASCII table} (cat_of (pl_db p)) (cat_of (pl_db r))"
    "foldASCII new \<noteq> foldASCII old \<Longrightarrow> foldASCII new \<notin> foldASCII ` ce_name ` set (oe_columns ob)"
    "old \<notin> marks \<or> heeds E cat_of rename_marker_sql \<Longrightarrow> spec_markers (cat_of (pl_db r)) table = moved_marks old new marks"
proof -
  have "ApplyRenameField E table old new opts p = (Ok (), r)" using assms(5) by (simp add: sqliteAlterApplier_def)
  then obtain d1 where d1: "eng_exec E (buildAlterTableRenameColumnSQL table old new) [] (pl_db p) = (None, d1)"
      "pl_db r = snd (eng_exec E rename_marker_sql [V_Text new, V_Text table, V_Text old] d1)"
    by (auto simp: ApplyRenameField_def exec_then_ignore)
  show thesis
  proof (rule run_rename_column [OF assms(1) alteringD [OF assms(2)] d1(1) assms(3)])
    fix ob' assume step: "wf_catalog (cat_of d1)" "markers_ok (cat_of d1)" "object_named (cat_of d1) table = Some ob'"
      "textless ob' = textless (rename_column old new ob)" "\<And>n. spec_markers (cat_of d1) n = spec_markers (cat_of (pl_db p)) n"
      "shapes_agree {foldASCII table} (cat_of (pl_db p)) (cat_of d1)"
      "foldASCII new \<noteq> foldASCII old \<Longrightarrow> foldASCII new \<notin> foldASCII ` ce_name ` set (oe_columns ob)"
      "views (cat_of d1) = views (cat_of (pl_db p))"
    show thesis
    proof (rule run_remark_column [OF assms(1) step(1,2) d1(2) assms(6)])
      fix ms assume ms: "cat_of (pl_db r) = (cat_of d1)\<lparr>cat_markers := ms\<rparr>"
        "old \<notin> spec_markers (cat_of d1) table \<or> heeds E cat_of rename_marker_sql \<Longrightarrow>
          spec_markers (cat_of (pl_db r)) table = moved_marks old new (spec_markers (cat_of d1) table)"
      have "altering (cat_of (pl_db r)) table ob'"
        by (rule altered_table [OF assms(2)]) (use step(1-3,8) in \<open>simp_all add: ms(1) views_def\<close>)
      moreover have "shapes_agree {foldASCII table} (cat_of (pl_db p)) (cat_of (pl_db r))"
        using step(6) by (simp add: ms(1) shapes_agree_def)
      ultimately show thesis using that [OF _ step(4) _ step(7)] ms(2) by (simp add: step(5) assms(4))
    qed
  qed
qed

lemma RenameField_catalog:
  assumes "executes E cat_of" "altering (cat_of (pl_db p)) table ob" "pl_open p = []"
    and "\<not> refers (cat_of (pl_db p)) table {foldASCII table}" "marks = spec_markers (cat_of (pl_db p)) table"
    and "AlterCollection E table [run_call (Rename_Field old new opts)] p = (Ok (), q)"
  obtains ob' where "pl_open q = []" "altering (cat_of (pl_db q)) table ob'" "textless ob' = textless (rename_column old new ob)"
    "shapes_agree {foldASCII table} (cat_of (pl_db p)) (cat_of (pl_db q))"
    "foldASCII new \<noteq> foldASCII old \<Longrightarrow> foldASCII new \<notin> foldASCII ` ce_name ` set (oe_columns ob)"
    "old \<notin> marks \<or> heeds E cat_of rename_marker_sql \<Longrightarrow> spec_markers (cat_of (pl_db q)) table = moved_marks old new marks"
proof (rule AlterCollection_one [OF assms(1,3,6)])
  fix d r
  assume run: "cat_of d = cat_of (pl_db p)" "run_call (Rename_Field old new opts) (sqliteAlterApplier E table) (in_tx_pool p d) = (Ok (), r)"
    "fst (eng_commit E (pl_db r)) = None" "cat_of (pl_db q) = cat_of (pl_db r)" "pl_open q = []"
  have here: "altering (cat_of (pl_db (in_tx_pool p d))) table ob" "\<not> refers (cat_of (pl_db (in_tx_pool p d))) table {foldASCII table}"
    "marks = spec_markers (cat_of (pl_db (in_tx_pool p d))) table"
    using assms(2,4,5) run(1) by simp_all
  show thesis
    by (rule RenameField_step [OF assms(1) here run(2,3), folded run(4)], rule that [OF run(5)]) (assumption | simp add: run(1))+
qed

section \<open>Rename, then describe\<close>

lemma describe_renamed:
  assumes "wf_catalog cat" "wf_catalog cat'" "object_named cat table = Some ob" "oe_name ob = table"
    and "textless ob' = textless (rename_column old new ob)" "shapes_agree {foldASCII table} cat cat'" "\<not> refers cat table {foldASCII table}"
    and "d = describe_object cat False ob" "d' = describe_object cat' False ob'"
  shows "map field_kind (cd_Fields d') = map (\<lambda>ce. column_kind (spec_markers cat' table) (renamed_column old new ce)) (visible ob)"
    "cd_PrimaryKey d' = map (renamed_name old new) (cd_PrimaryKey d)"
    "cd_Indexes d' = map (\<lambda>i. i\<lparr>ix_Fields := map (renamed_name old new) (ix_Fields i)\<rparr>) (cd_Indexes d)"
    "cd_ForeignKeys d' = map (\<lambda>k. k\<lparr>fk_Fields := map (renamed_name old new) (fk_Fields k)\<rparr>) (cd_ForeignKeys d)"
proof -
  have name: "oe_name (rename_column old new ob) = table" by (simp add: rename_column_parts(1) assms(4))
  note like = describe_like [OF assms(5) name, of cat', folded assms(9)]
  note was = describe_like [OF refl assms(4), of cat, folded assms(8)]
  show "map field_kind (cd_Fields d') = map (\<lambda>ce. column_kind (spec_markers cat' table) (renamed_column old new ce)) (visible ob)"
    by (simp add: like(1) rename_column_parts(3))
  show "cd_PrimaryKey d' = map (renamed_name old new) (cd_PrimaryKey d)" by (simp only: like(2) was(2) rename_column_parts(4))
  show "cd_Indexes d' = map (\<lambda>i. i\<lparr>ix_Fields := map (renamed_name old new) (ix_Fields i)\<rparr>) (cd_Indexes d)"
    by (simp only: like(3) was(3) rename_column_indexes)
  have same: "spec_key cat' table k = spec_key cat table k" if "k \<in> set (oe_keys ob)" for k
    using that assms(3,7) by (intro spec_key_shapes [OF assms(1,2,6)]) (auto simp: refers_def list_ex_iff)
  have "cd_ForeignKeys d' = map (\<lambda>k. (spec_key cat' table k)\<lparr>fk_Fields := map (renamed_name old new) (fk_Fields (spec_key cat' table k))\<rparr>) (oe_keys ob)"
    by (simp only: like(4)) (simp add: rename_column_def comp_def spec_key_renamed)
  then show "cd_ForeignKeys d' = map (\<lambda>k. k\<lparr>fk_Fields := map (renamed_name old new) (fk_Fields k)\<rparr>) (cd_ForeignKeys d)"
    using same by (simp add: was(4))
qed

lemma renamed_kind:
  assumes "foldASCII (ce_name ce) = foldASCII old \<Longrightarrow> ce_name ce = old" "new \<notin> marks"
    and "foldASCII new \<noteq> foldASCII old \<Longrightarrow> ce_name ce \<noteq> new" "marks' = (if old \<in> marks then insert new (marks - {old}) else marks)"
  shows "column_kind marks' (renamed_column old new ce) = (renamed_name old new (ce_name ce), snd (column_kind marks ce))"
    "unreadable marks' (renamed_column old new ce) = unreadable marks ce"
proof -
  have "renamed_name old new (ce_name ce) \<in> marks' \<longleftrightarrow> ce_name ce \<in> marks"
    using assms by (auto simp: renamed_name_def)
  then show "column_kind marks' (renamed_column old new ce) = (renamed_name old new (ce_name ce), snd (column_kind marks ce))"
    "unreadable marks' (renamed_column old new ce) = unreadable marks ce"
    by (simp_all add: column_kind_def spec_type_def unreadable_def)
qed

text \<open>C13: RenameField renames one field wherever the description has it. After a successful AlterCollection with it, and
  if SQLite moves a marker it has no reason to refuse, DescribeCollection returns the same fields in the same
  order with their types, a Time field among them, and the same key, indexes and foreign keys, with the new name in
  the place of the old one; the old name is given as it is spelled, and the new one is not marked.\<close>

theorem RenameField_describe:
  assumes "executes E cat_of" "wf_catalog (cat_of (pl_db p))" "markers_ok (cat_of (pl_db p))" "pl_open p = []" "heeds E cat_of rename_marker_sql"
    and "alterable (cat_of (pl_db p)) table" "\<not> refers (cat_of (pl_db p)) table {foldASCII table}"
    and "fst (DescribeCollection E False table p) = Ok d" "distinct (map (\<lambda>f. foldASCII (fd_Name f)) (cd_Fields d))"
    and "old \<in> fd_Name ` set (cd_Fields d)" "new \<notin> spec_markers (cat_of (pl_db p)) table"
    and "AlterCollection E table [run_call (Rename_Field old new opts)] p = (Ok (), q)" "\<rho> = renamed_name old new"
  shows "\<exists>d'. fst (DescribeCollection E False table q) = Ok d' \<and>
    map field_kind (cd_Fields d') = map (apfst \<rho>) (map field_kind (cd_Fields d)) \<and> cd_PrimaryKey d' = map \<rho> (cd_PrimaryKey d) \<and>
    cd_Indexes d' = map (\<lambda>i. i\<lparr>ix_Fields := map \<rho> (ix_Fields i)\<rparr>) (cd_Indexes d) \<and>
    cd_ForeignKeys d' = map (\<lambda>k. k\<lparr>fk_Fields := map \<rho> (fk_Fields k)\<rparr>) (cd_ForeignKeys d)"
proof -
  let ?cat = "cat_of (pl_db p)" and ?cat' = "cat_of (pl_db q)"
  let ?marks = "spec_markers ?cat table"
  obtain ob where ob: "readable ?cat table ob" "d = describe_object ?cat False ob"
    using assms(8) unfolding describes_readable [OF assms(1,2,4)] by blast
  have found: "object_named ?cat table = Some ob" "oe_name ob = table" using ob(1) by (simp_all add: readable_def)
  show ?thesis
  proof (rule RenameField_catalog [OF assms(1) alteringI [OF assms(2,3,6) found(1)] assms(4,7) refl assms(12)])
    fix ob'
    assume new: "pl_open q = []" "altering ?cat' table ob'" "textless ob' = textless (rename_column old new ob)"
      "shapes_agree {foldASCII table} ?cat ?cat'"
      "foldASCII new \<noteq> foldASCII old \<Longrightarrow> foldASCII new \<notin> foldASCII ` ce_name ` set (oe_columns ob)"
      "old \<notin> ?marks \<or> heeds E cat_of rename_marker_sql \<Longrightarrow> spec_markers ?cat' table = moved_marks old new ?marks"
    note there = alteringD [OF new(2)]
    have fields: "map fd_Name (cd_Fields d) = map ce_name (visible ob)"
      by (simp add: ob(2) describe_object_def Let_def describe_field_def comp_def)
    have names: "foldASCII (ce_name ce) = foldASCII old \<Longrightarrow> ce_name ce = old" if "ce \<in> set (visible ob)" for ce
    proof -
      assume same: "foldASCII (ce_name ce) = foldASCII old"
      have "distinct (map foldASCII (map ce_name (visible ob)))" using assms(9) by (simp flip: fields add: comp_def)
      then have "inj_on foldASCII (ce_name ` set (visible ob))" by (simp only: distinct_map set_map)
      moreover have "old \<in> ce_name ` set (visible ob)" using assms(10) arg_cong [OF fields, of set] by simp
      ultimately show ?thesis using inj_onD [of foldASCII _ "ce_name ce" old] same that by blast
    qed
    have fresh: "foldASCII new \<noteq> foldASCII old \<Longrightarrow> ce_name ce \<noteq> new" if "ce \<in> set (visible ob)" for ce
      using new(5) that by (force simp: visible_def)
    have marks: "spec_markers ?cat' table = (if old \<in> ?marks then insert new (?marks - {old}) else ?marks)"
      using new(6) assms(5,11) by (simp add: moved_marks_def)
    have kind: "column_kind (spec_markers ?cat' table) (renamed_column old new ce) = (\<rho> (ce_name ce), snd (column_kind ?marks ce))"
      "unreadable (spec_markers ?cat' table) (renamed_column old new ce) = unreadable ?marks ce" if "ce \<in> set (visible ob)" for ce
      using renamed_kind [OF names [OF that] assms(11) fresh [OF that] marks] by (simp_all add: assms(13))
    note like = describe_renamed [OF assms(2) there(1) found new(3,4) assms(7) ob(2) refl]
    have "readable ?cat' table ob'"
      using ob(1) there(4) textless_parts [OF new(3)] kind(2)
      by (auto simp: readable_def list_all_iff rename_column_parts)
    then have "fst (DescribeCollection E False table q) = Ok (describe_object ?cat' False ob')"
      unfolding describes_readable [OF assms(1) there(1) new(1)] by blast
    moreover have "map field_kind (cd_Fields (describe_object ?cat' False ob')) = map (apfst \<rho>) (map field_kind (cd_Fields d))"
    proof (rule trans [OF like(1)])
      show "map (\<lambda>ce. column_kind (spec_markers ?cat' table) (renamed_column old new ce)) (visible ob) =
          map (apfst \<rho>) (map field_kind (cd_Fields d))"
        unfolding ob(2) described_kinds found(2) using kind(1) by (simp add: column_kind_def)
    qed
    ultimately show ?thesis using like(2-4) assms(13) by blast
  qed
qed

text \<open>C34: SQLite renames a column under any spelling of its name, and RenameField moves the marker of the spelling
  it was given. Renamed under another spelling, a Time column is described as String afterwards, and its
  marker stays behind under the name the column had.\<close>

theorem RenameField_leaves_marker:
  assumes "executes E cat_of" "wf_catalog (cat_of (pl_db p))" "markers_ok (cat_of (pl_db p))" "pl_open p = []"
    and "alterable (cat_of (pl_db p)) table" "\<not> refers (cat_of (pl_db p)) table {foldASCII table}"
    and "object_named (cat_of (pl_db p)) table = Some ob" "distinct (map (\<lambda>ce. foldASCII (ce_name ce)) (visible ob))"
    and "ce \<in> set (visible ob)" "ce_type ce = ''TEXT''" "foldASCII (ce_name ce) = foldASCII old"
    and "marks = spec_markers (cat_of (pl_db p)) table" "ce_name ce \<in> marks" "old \<notin> marks" "new \<notin> marks"
    and "AlterCollection E table [run_call (Rename_Field old new opts)] p = (Ok (), q)"
    and "fst (DescribeCollection E False table q) = Ok d" "f \<in> set (cd_Fields d)" "fd_Name f = new"
  shows "fd_Type f = Type_String \<and> ce_name ce \<in> spec_markers (cat_of (pl_db q)) table"
proof (rule RenameField_catalog [OF assms(1) alteringI [OF assms(2,3,5,7)] assms(4,6,12,16)])
  let ?cat' = "cat_of (pl_db q)"
  fix ob'
  assume new: "pl_open q = []" "altering ?cat' table ob'" "textless ob' = textless (rename_column old new ob)"
    "foldASCII new \<noteq> foldASCII old \<Longrightarrow> foldASCII new \<notin> foldASCII ` ce_name ` set (oe_columns ob)"
    "old \<notin> marks \<or> heeds E cat_of rename_marker_sql \<Longrightarrow> spec_markers ?cat' table = moved_marks old new marks"
  note there = alteringD [OF new(2)]
  have marks: "spec_markers ?cat' table = marks" using new(5) assms(14) by (simp add: moved_marks_def)
  obtain ob'' where "readable ?cat' table ob''" "d = describe_object ?cat' False ob''"
    using assms(17) unfolding describes_readable [OF assms(1) there(1) new(1)] by blast
  then have d: "d = describe_object ?cat' False ob'" "oe_name ob' = table" using there(4) by (simp_all add: readable_def)
  obtain ce' where ce': "ce' \<in> set (visible ob)" "f = describe_field marks ob' (renamed_column old new ce')"
    using assms(18) textless_parts(3) [OF new(3)]
    by (auto simp: d describe_object_def Let_def marks rename_column_parts(3))
  have name: "renamed_name old new (ce_name ce') = new" using assms(19) ce'(2) by (simp add: describe_field_def)
  have "foldASCII (ce_name ce') = foldASCII old"
  proof (rule ccontr)
    assume "foldASCII (ce_name ce') \<noteq> foldASCII old"
    moreover from this have "ce_name ce' = new" using name by (simp add: renamed_name_def)
    ultimately show False using new(4) ce'(1) by (force simp: visible_def)
  qed
  then have "ce' = ce"
    using assms(8,9,11) ce'(1) by (auto simp: distinct_map inj_on_def)
  then have "fd_Type f = Type_String"
    using assms(10,15) name by (simp add: ce'(2) describe_field_def spec_type_def declared_types_read)
  then show ?thesis using assms(13) marks by simp
qed

end
