(* ===== verification/Index_Effects.thy ===== *)
theory Index_Effects
  imports Alter_Effects
begin

text \<open>
  What DescribeCollection returns after AddIndex and DropIndex. An index is dropped by its name alone, so
  it goes wherever it is, and an index added and dropped again leaves the catalog as it was.
\<close>

section \<open>DropIndex\<close>

definition without_index :: "string \<Rightarrow> object_entry \<Rightarrow> object_entry" where
  "without_index n ob = ob\<lparr>oe_indexes := filter (\<lambda>ix. foldASCII (ie_name ix) \<noteq> foldASCII n) (oe_indexes ob)\<rparr>"

lemma remove_index_map: "remove_index n cat = cat\<lparr>cat_objects := map (without_index n) (cat_objects cat)\<rparr>"
  by (simp add: remove_index_def without_index_def)

lemma without_index_sel [simp]:
  "oe_name (without_index n ob) = oe_name ob" "oe_kind (without_index n ob) = oe_kind ob" "oe_sql (without_index n ob) = oe_sql ob"
  "oe_columns (without_index n ob) = oe_columns ob" "oe_keys (without_index n ob) = oe_keys ob"
  "visible (without_index n ob) = visible ob" "key_columns (without_index n ob) = key_columns ob"
  "first_hidden (without_index n ob) = first_hidden ob" "key_shape (without_index n ob) = key_shape ob"
  by (simp_all add: without_index_def visible_def key_columns_def first_hidden_def key_shape_def)

lemma remove_index_catalog:
  "object_named (remove_index n cat) m = map_option (without_index n) (object_named cat m)"
  "spec_markers (remove_index n cat) m = spec_markers cat m" "shapes_agree {} cat (remove_index n cat)"
  "wf_catalog cat \<Longrightarrow> wf_catalog (remove_index n cat)"
proof -
  show named: "object_named (remove_index n cat) m = map_option (without_index n) (object_named cat m)" for m
    unfolding remove_index_map by (rule object_named_map) simp
  have "marked (remove_index n cat) = marked cat" unfolding remove_index_map by (rule marked_map) simp_all
  then show "spec_markers (remove_index n cat) m = spec_markers cat m" by (simp add: spec_markers_def) (simp add: remove_index_def)
  show "shapes_agree {} cat (remove_index n cat)"
    by (simp add: shapes_agree_def named option.map_comp comp_def) (simp add: remove_index_def)
  have "all_indexes (remove_index n cat) = filter (\<lambda>ix. foldASCII (ie_name ix) \<noteq> foldASCII n) (all_indexes cat)"
    by (simp add: all_indexes_def remove_index_def filter_concat comp_def)
  moreover have "wf_object ob \<Longrightarrow> wf_object (without_index n ob)" for ob
    by (simp add: wf_object_def list_all_iff) (auto simp: without_index_def)
  ultimately show "wf_catalog cat \<Longrightarrow> wf_catalog (remove_index n cat)"
    unfolding wf_catalog_def by (auto simp: distinct_map_filter list_all_iff) (auto simp: remove_index_map comp_def)
qed

text \<open>The description of an object without an index that was created by CREATE INDEX.\<close>

lemma describe_without_index:
  assumes "wf_catalog cat" "\<And>ix. ix \<in> set (oe_indexes ob) \<Longrightarrow> foldASCII (ie_name ix) = foldASCII n \<Longrightarrow> ie_origin ix \<noteq> ''pk''"
    and "d = describe_object cat False ob" "d' = describe_object (remove_index n cat) False (without_index n ob)"
  shows "d' = d\<lparr>cd_Indexes := filter (\<lambda>i. foldASCII (ix_Name i) \<noteq> foldASCII n) (cd_Indexes d), cd_SourceDefinition := cd_SourceDefinition d'\<rparr>"
proof -
  have "alias_column (without_index n ob) ce = alias_column ob ce" for ce
    using assms(2) by (auto simp: alias_column_def) (auto simp: without_index_def)
  then have "describe_field marks (without_index n ob) ce = describe_field marks ob ce" for marks ce
    by (simp add: describe_field_def auto_text_def)
  moreover have "spec_indexes (without_index n ob) = filter (\<lambda>i. foldASCII (ix_Name i) \<noteq> foldASCII n) (spec_indexes ob)"
    by (simp add: spec_indexes_def without_index_def filter_map comp_def conj_ac)
  moreover have "spec_key (remove_index n cat) m k = spec_key cat m k" for m k
    by (rule spec_key_shapes [OF assms(1) remove_index_catalog(4) [OF assms(1)] remove_index_catalog(3)]) simp
  ultimately show ?thesis
    by (simp add: assms(3,4) describe_object_def Let_def remove_index_catalog(2))
qed

lemma DropIndex_step:
  assumes "executes E cat_of" "wf_catalog (cat_of (pl_db p))" "\<not> sqlite_reserved n"
    and "run_call (Drop_Index n opts) (sqliteAlterApplier E table) p = (Ok (), r)"
  shows "cat_of (pl_db r) = remove_index n (cat_of (pl_db p))"
    "ix \<in> set (all_indexes (cat_of (pl_db p))) \<Longrightarrow> foldASCII (ie_name ix) = foldASCII n \<Longrightarrow> ie_origin ix = ''c''"
proof -
  let ?cat = "cat_of (pl_db p)"
  have exec: "eng_exec E (buildDropIndexSQL n opts) [] (pl_db p) = (None, pl_db r)"
    using assms(4) by (auto simp: sqliteAlterApplier_def ApplyDropIndex_def conn_exec_def io_wrap_def split: prod.splits option.splits)
  note step = executed [OF assms(1,2) exec, unfolded catalog_exec_alter(4)]
  have found: "find (\<lambda>ix. foldASCII (ie_name ix) = foldASCII n) (all_indexes ?cat) = Some ix"
    if "ix \<in> set (all_indexes ?cat)" "foldASCII (ie_name ix) = foldASCII n" for ix
    using find_distinct [of "\<lambda>ix. foldASCII (ie_name ix)" "all_indexes ?cat" ix] assms(2) that by (simp add: wf_catalog_def)
  have gone: "remove_index n ?cat = ?cat" if "find (\<lambda>ix. foldASCII (ie_name ix) = foldASCII n) (all_indexes ?cat) = None"
  proof -
    have "without_index n ob = ob" if "ob \<in> set (cat_objects ?cat)" for ob
    proof -
      have "filter (\<lambda>ix. foldASCII (ie_name ix) \<noteq> foldASCII n) (oe_indexes ob) = oe_indexes ob"
        using \<open>find _ _ = None\<close> object_index [OF that] by (intro filter_True) (auto simp: find_None_iff)
      then show ?thesis by (simp add: without_index_def)
    qed
    then show ?thesis by (simp add: remove_index_map map_idI)
  qed
  show "cat_of (pl_db r) = remove_index n ?cat"
    using step(1,2) assms(3) gone by (auto simp: exec_drop_index_def split: option.splits if_splits)
  show "ix \<in> set (all_indexes ?cat) \<Longrightarrow> foldASCII (ie_name ix) = foldASCII n \<Longrightarrow> ie_origin ix = ''c''"
    using step(1) found by (auto simp: exec_drop_index_def split: if_splits)
qed

lemma DropIndex_catalog:
  assumes "executes E cat_of" "wf_catalog (cat_of (pl_db p))" "pl_open p = []" "\<not> sqlite_reserved n"
    and "AlterCollection E table [run_call (Drop_Index n opts)] p = (Ok (), q)"
  shows "pl_open q = []" "cat_of (pl_db q) = remove_index n (cat_of (pl_db p))"
    "ix \<in> set (all_indexes (cat_of (pl_db p))) \<Longrightarrow> foldASCII (ie_name ix) = foldASCII n \<Longrightarrow> ie_origin ix = ''c''"
proof -
  obtain d r where run: "cat_of d = cat_of (pl_db p)" "run_call (Drop_Index n opts) (sqliteAlterApplier E table) (in_tx_pool p d) = (Ok (), r)"
      "cat_of (pl_db q) = cat_of (pl_db r)" "pl_open q = []"
    by (rule AlterCollection_one [OF assms(1,3,5)]) (rule that)
  have "wf_catalog (cat_of (pl_db (in_tx_pool p d)))" using assms(2) run(1) by simp
  note step = DropIndex_step [OF assms(1) this assms(4) run(2)]
  show "pl_open q = []" "cat_of (pl_db q) = remove_index n (cat_of (pl_db p))" using step(1) run by simp_all
  show "ix \<in> set (all_indexes (cat_of (pl_db p))) \<Longrightarrow> foldASCII (ie_name ix) = foldASCII n \<Longrightarrow> ie_origin ix = ''c''"
    using step(2) run(1) by simp
qed

text \<open>What dropping an index that CREATE INDEX made leaves in place.\<close>

lemma may_read_without_index: "may_read (without_index m vw) n = may_read vw n"
  by (simp add: may_read_def)

lemma altering_remove_index:
  assumes "altering cat table ob"
    and "\<And>ix. ix \<in> set (all_indexes cat) \<Longrightarrow> foldASCII (ie_name ix) = foldASCII n \<Longrightarrow> ie_origin ix = ''c''"
  shows "altering (remove_index n cat) table (without_index n ob)"
proof (rule alteringI)
  note here = alteringD [OF assms(1)]
  show "wf_catalog (remove_index n cat)" by (rule remove_index_catalog(4) [OF here(1)])
  show "object_named (remove_index n cat) table = Some (without_index n ob)" by (simp add: remove_index_catalog(1) here(4))
  have "views (remove_index n cat) = map (without_index n) (views cat)"
    by (simp add: views_def remove_index_map filter_map comp_def)
  then show "alterable (remove_index n cat) table"
    using here(3) by (simp add: alterable_def list_ex_iff may_read_without_index)
  show "markers_ok (remove_index n cat)"
    unfolding markers_ok_def remove_index_catalog(1)
  proof (intro allI impI)
    fix mo assume "map_option (without_index n) (object_named cat timeMarkerTable) = Some mo"
    then obtain mo' where mo: "object_named cat timeMarkerTable = Some mo'" "mo = without_index n mo'" by auto
    then have marker: "mo'\<lparr>oe_sql := []\<rparr> = marker_object" using here(2) by (simp add: markers_ok_def)
    then have "oe_indexes mo' = oe_indexes marker_object" by (simp flip: marker)
    moreover have "ie_origin ix = ''pk''" if "ix \<in> set (oe_indexes marker_object)" for ix
      using that by (auto simp: marker_object_def made_table_def made_index_def split: if_splits)
    ultimately have "foldASCII (ie_name ix) \<noteq> foldASCII n" if "ix \<in> set (oe_indexes mo')" for ix
      using that assms(2) [of ix] object_index [of mo' cat ix] mo(1) by (auto simp: object_named_iff [OF here(1)])
    then have "without_index n mo' = mo'" by (simp add: without_index_def filter_id_conv)
    then show "mo\<lparr>oe_sql := []\<rparr> = marker_object" using mo(2) marker by simp
  qed
qed

text \<open>DropIndex takes the index off whichever collection has it, and nothing else: after a successful
  AlterCollection with it, of whichever table, every collection is described as before except for the
  indexes of that name in any letter case and for the source definition.\<close>

theorem DropIndex_describe:
  assumes "executes E cat_of" "wf_catalog (cat_of (pl_db p))" "pl_open p = []" "\<not> sqlite_reserved n"
    and "AlterCollection E table [run_call (Drop_Index n opts)] p = (Ok (), q)" "fst (DescribeCollection E False m p) = Ok d"
  shows "\<exists>d'. fst (DescribeCollection E False m q) = Ok d' \<and>
    d' = d\<lparr>cd_Indexes := filter (\<lambda>i. foldASCII (ix_Name i) \<noteq> foldASCII n) (cd_Indexes d), cd_SourceDefinition := cd_SourceDefinition d'\<rparr>"
proof -
  let ?cat = "cat_of (pl_db p)"
  note dropped = DropIndex_catalog [OF assms(1-5)]
  have wf: "wf_catalog (cat_of (pl_db q))" using remove_index_catalog(4) [OF assms(2)] dropped(2) by simp
  obtain ob where ob: "readable ?cat m ob" "d = describe_object ?cat False ob"
    using assms(6) unfolding describes_readable [OF assms(1-3)] by blast
  then have "readable (cat_of (pl_db q)) m (without_index n ob)"
    by (simp add: readable_def dropped(2) remove_index_catalog)
  then have "fst (DescribeCollection E False m q) = Ok (describe_object (cat_of (pl_db q)) False (without_index n ob))"
    unfolding describes_readable [OF assms(1) wf dropped(1)] by blast
  moreover have "ob \<in> set (cat_objects ?cat)" using ob(1) by (simp add: readable_def object_named_iff [OF assms(2)])
  then have "ie_origin ix \<noteq> ''pk''" if "ix \<in> set (oe_indexes ob)" "foldASCII (ie_name ix) = foldASCII n" for ix
    using dropped(3) [OF object_index that(2)] that(1) by simp
  from describe_without_index [OF assms(2) this ob(2) refl]
  have "describe_object (cat_of (pl_db q)) False (without_index n ob) =
      d\<lparr>cd_Indexes := filter (\<lambda>i. foldASCII (ix_Name i) \<noteq> foldASCII n) (cd_Indexes d),
        cd_SourceDefinition := cd_SourceDefinition (describe_object (cat_of (pl_db q)) False (without_index n ob))\<rparr>"
    by (simp only: dropped(2))
  ultimately show ?thesis by blast
qed

section \<open>AddIndex\<close>

lemma free_name:
  assumes "\<not> taken cat n" "ob \<in> set (cat_objects cat)" "ix \<in> set (oe_indexes ob)"
  shows "foldASCII (ie_name ix) \<noteq> foldASCII n"
proof
  assume "foldASCII (ie_name ix) = foldASCII n"
  then have "foldASCII n \<in> foldASCII ` ie_name ` set (all_indexes cat)" using object_index [OF assms(2,3)] by (metis imageI)
  then show False using assms(1) by (simp add: taken_def image_Un)
qed

lemma remove_added_index:
  assumes "\<not> taken cat n" "foldASCII (ie_name ix) = foldASCII n"
  shows "ob \<in> set (cat_objects cat) \<Longrightarrow> without_index n ob = ob"
    "ob \<in> set (cat_objects cat) \<Longrightarrow> without_index n (ob\<lparr>oe_indexes := ix # oe_indexes ob\<rparr>) = ob"
    "remove_index n (add_index t ix cat) = cat"
proof -
  have kept: "filter (\<lambda>ix. foldASCII (ie_name ix) \<noteq> foldASCII n) (oe_indexes ob) = oe_indexes ob" if "ob \<in> set (cat_objects cat)" for ob
    using free_name [OF assms(1) that] by (intro filter_True) simp
  show same: "ob \<in> set (cat_objects cat) \<Longrightarrow> without_index n ob = ob" for ob
    using kept by (simp add: without_index_def)
  show added: "ob \<in> set (cat_objects cat) \<Longrightarrow> without_index n (ob\<lparr>oe_indexes := ix # oe_indexes ob\<rparr>) = ob" for ob
    using kept assms(2) by (simp add: without_index_def)
  show "remove_index n (add_index t ix cat) = cat"
    using same added by (simp add: remove_index_map add_index_def comp_def map_idI)
qed

lemma AddIndex_catalog:
  assumes "executes E cat_of" "pl_open p = []" "indexable (cat_of (pl_db p)) ob" "oe_name ob = table"
    and "ix_Collection i = [] \<or> ix_Collection i = table" "set (ix_Fields i) \<subseteq> ce_name ` set (oe_columns ob)"
    and "AlterCollection E table [run_call (Add_Index i no_options)] p = (Ok (), q)"
    and "new = (\<lambda>ix. ob\<lparr>oe_indexes := ix # oe_indexes ob\<rparr>)"
  obtains ix where "pl_open q = []" "cat_of (pl_db q) = add_index table ix (cat_of (pl_db p))" "ix_Fields i \<noteq> []"
    "indexable (cat_of (pl_db q)) (new ix)" "catalog_index ix = (ix_Name i, ix_Unique i, map Some (ix_Fields i))"
    "ie_origin ix = ''c''" "\<not> taken (cat_of (pl_db p)) (ix_Name i)"
proof (rule AlterCollection_one [OF assms(1,2,7)])
  let ?cat = "cat_of (pl_db p)" and ?i = "i\<lparr>ix_Collection := table\<rparr>"
  let ?pi = "\<lparr>pi_Unique = ix_Unique i, pi_Name = ix_Name i, pi_Table = table, pi_Columns = ix_Fields i\<rparr>"
  fix d r
  assume run: "cat_of d = ?cat" "run_call (Add_Index i no_options) (sqliteAlterApplier E table) (in_tx_pool p d) = (Ok (), r)"
    "cat_of (pl_db q) = cat_of (pl_db r)" "pl_open q = []"
  have this_table: "on_collection table i = ?i" using assms(5) by (auto simp: on_collection_def)
  obtain s where s: "buildCreateIndexSQL ?i no_options = Inr s" "eng_exec E s [] d = (None, pl_db r)"
    using run(2) by (auto simp: sqliteAlterApplier_def ApplyAddIndex_def this_table conn_exec_def io_wrap_def io_fail_def
        split: prod.splits option.splits sum.splits)
  have same_text: "catalog_exec s [] cat = exec_index ?pi s cat" for cat using catalog_exec_index [OF s(1)] by simp
  have fields: "ix_Fields i \<noteq> []" using s(1) by (auto simp: buildCreateIndexSQL_def split: if_splits)
  have wf: "wf_catalog (cat_of d)" using assms(3) run(1) by (simp add: indexable_def)
  have ran: "exec_index ?pi s ?cat \<noteq> Refused" using executed(1) [OF assms(1) wf s(2)] by (simp add: same_text run(1))
  then have free: "\<not> taken ?cat (ix_Name i)" by (auto simp: exec_index_def)
  have "pi_Table ?pi = oe_name ob" "set (pi_Columns ?pi) \<subseteq> set (map ce_name (oe_columns ob))" using assms(4,6) by simp_all
  from exec_index_Changed [OF assms(3) this ran]
  obtain ix where ix: "exec_index ?pi s ?cat = Changed (add_index table ix ?cat)" "indexable (add_index table ix ?cat) (new ix)"
      "catalog_index ix = (ix_Name i, ix_Unique i, map Some (ix_Fields i))" "ie_origin ix = ''c''"
    by (auto simp: assms(4,8))
  have "cat_of (pl_db q) = add_index table ix ?cat"
    using executed(2) [OF assms(1) wf s(2)] ix(1) by (simp add: same_text run(1,3))
  then show thesis using that [OF run(4) _ fields _ ix(3,4) free] ix(2) by simp
qed

lemma swap_indexes:
  "d = d'\<lparr>cd_Indexes := xs, cd_SourceDefinition := s\<rparr> \<Longrightarrow> cd_Indexes d' = ys \<Longrightarrow>
     d' = d\<lparr>cd_Indexes := ys, cd_SourceDefinition := cd_SourceDefinition d'\<rparr>"
  by simp

text \<open>C14: AddIndex and DropIndex undo each other. After AddIndex, DescribeCollection returns the collection with
  that index first and unchanged otherwise, its source definition apart; after DropIndex of the name in any letter
  case, asked for on whichever collection, every collection is described exactly as before both.\<close>

theorem index_round_trip:
  assumes "executes E cat_of" "pl_open p = []" "indexable (cat_of (pl_db p)) ob" "oe_name ob = table"
    and "ix_Collection i = [] \<or> ix_Collection i = table" "set (ix_Fields i) \<subseteq> ce_name ` set (oe_columns ob)"
    and "AlterCollection E table [run_call (Add_Index i no_options)] p = (Ok (), q)"
    and "foldASCII n = foldASCII (ix_Name i)" "\<not> sqlite_reserved n"
    and "AlterCollection E other [run_call (Drop_Index n opts)] q = (Ok (), r)"
  shows "(\<forall>d. fst (DescribeCollection E False table p) = Ok d \<longrightarrow>
      (\<exists>d'. fst (DescribeCollection E False table q) = Ok d' \<and>
         d' = d\<lparr>cd_Indexes := i\<lparr>ix_Collection := table\<rparr> # cd_Indexes d, cd_SourceDefinition := cd_SourceDefinition d'\<rparr>)) \<and>
    (\<forall>lenient m. fst (DescribeCollection E lenient m r) = fst (DescribeCollection E lenient m p))"
proof (rule AddIndex_catalog [OF assms(1-7) refl])
  let ?cat = "cat_of (pl_db p)" and ?cat' = "cat_of (pl_db q)"
  fix ix
  let ?ob' = "ob\<lparr>oe_indexes := ix # oe_indexes ob\<rparr>"
  assume new: "pl_open q = []" "?cat' = add_index table ix ?cat" "ix_Fields i \<noteq> []" "indexable ?cat' ?ob'"
    "catalog_index ix = (ix_Name i, ix_Unique i, map Some (ix_Fields i))" "ie_origin ix = ''c''" "\<not> taken ?cat (ix_Name i)"
  have name: "foldASCII (ie_name ix) = foldASCII n" and free: "\<not> taken ?cat n"
    using new(5,7) assms(8) by (auto simp: catalog_index_def taken_def)
  have wf: "wf_catalog ?cat" "wf_catalog ?cat'" and ob: "ob \<in> set (cat_objects ?cat)"
    using assms(3) new(4) by (simp_all add: indexable_def)
  note undone = remove_added_index [OF free name]
  note dropped = DropIndex_catalog [OF assms(1) wf(2) new(1) assms(9,10)]
  have restored: "cat_of (pl_db r) = ?cat" by (simp add: dropped(2) new(2) undone(3))
  then have "fst (DescribeCollection E lenient m r) = fst (DescribeCollection E lenient m p)" for lenient m
    using wf(1) describe_now [OF assms(1) wf(1) assms(2)] describe_now [OF assms(1) _ dropped(1)] by simp
  moreover have "\<exists>d'. fst (DescribeCollection E False table q) = Ok d' \<and>
      d' = d\<lparr>cd_Indexes := i\<lparr>ix_Collection := table\<rparr> # cd_Indexes d, cd_SourceDefinition := cd_SourceDefinition d'\<rparr>"
    if described: "fst (DescribeCollection E False table p) = Ok d" for d
  proof -
    let ?d' = "describe_object ?cat' False ?ob'"
    have found: "object_named ?cat table = Some ob" "object_named ?cat' table = Some ?ob'"
      using ob new(4) assms(4) by (simp_all add: object_named_iff wf indexable_def)
    then have d: "readable ?cat table ob" "d = describe_object ?cat False ob"
      using described unfolding describes_readable [OF assms(1) wf(1) assms(2)] by (auto simp: readable_def)
    have "spec_markers ?cat' table = spec_markers ?cat table"
      using remove_index_catalog(2) [of n ?cat' table] by (simp add: new(2) undone(3))
    then have "readable ?cat' table ?ob'"
      using d(1) found(2) by (simp add: readable_def visible_def first_hidden_def)
    then have run: "fst (DescribeCollection E False table q) = Ok ?d'"
      unfolding describes_readable [OF assms(1) wf(2) new(1)] by blast
    have origin: "ie_origin ix' \<noteq> ''pk''" if "ix' \<in> set (oe_indexes ?ob')" "foldASCII (ie_name ix') = foldASCII n" for ix'
      using that new(6) free_name [OF free ob] by auto
    have d_of: "d = ?d'\<lparr>cd_Indexes := filter (\<lambda>i. foldASCII (ix_Name i) \<noteq> foldASCII n) (cd_Indexes ?d'), cd_SourceDefinition := cd_SourceDefinition d\<rparr>"
      by (rule describe_without_index [OF wf(2) origin refl]) (simp_all only: d(2) new(2) undone(2) [OF ob] undone(3))
    have "spec_index_fields ix = ix_Fields i" "ie_name ix = ix_Name i" "ie_unique ix = ix_Unique i"
      using new(5) by (auto simp: catalog_index_def spec_index_fields_def Let_def)
    then have "spec_indexes ?ob' = i\<lparr>ix_Collection := table\<rparr> # spec_indexes ob"
      using new(3,6) assms(4) by (simp add: spec_indexes_def)
    then have "cd_Indexes ?d' = i\<lparr>ix_Collection := table\<rparr> # cd_Indexes d"
      by (simp add: d(2) describe_object_def Let_def)
    then have "?d' = d\<lparr>cd_Indexes := i\<lparr>ix_Collection := table\<rparr> # cd_Indexes d, cd_SourceDefinition := cd_SourceDefinition ?d'\<rparr>"
      by (rule swap_indexes [OF d_of])
    then show ?thesis using run by blast
  qed
  ultimately show ?thesis by blast
qed

end
