(* ===== verification/Alter_Sequence.thy ===== *)
theory Alter_Sequence
  imports Rename_Effects Index_Effects
begin

text \<open>
  AlterCollection with a list of changes: each change of a column and each dropped index is a function on the table and
  the markers of its columns, and the description afterwards is that of the functions applied one after another.
\<close>

section \<open>The changes as functions\<close>

fun altered :: "alter_call \<Rightarrow> object_entry \<times> string set \<Rightarrow> object_entry \<times> string set" where
  "altered (Add_Field f opts) (ob, marks) =
     (add_column (column_of (field_column f)) ob, marks \<union> (if fd_Type f = Type_Time then {fd_Name f} else {}))"
| "altered (Drop_Field c opts) (ob, marks) = (drop_column c ob, marks - {c})"
| "altered (Rename_Field old new opts) (ob, marks) = (rename_column old new ob, moved_marks old new marks)"
| "altered (Drop_Index n opts) (ob, marks) = (without_index n ob, marks)"
| "altered _ state = state"

fun by_columns :: "alter_call \<Rightarrow> bool" where
  "by_columns (Add_Field f opts) = True"
| "by_columns (Drop_Field c opts) = True"
| "by_columns (Rename_Field old new opts) = True"
| "by_columns (Drop_Index n opts) = (\<not> sqlite_reserved n)"
| "by_columns _ = False"

text \<open>They keep the targets of the foreign keys, and do not look at texts.\<close>

lemma altered_targets: "map ke_target (oe_keys (fst (altered c state))) = map ke_target (oe_keys (fst state))"
  by (cases "(c, state)" rule: altered.cases) (simp_all add: add_column_def drop_column_def rename_column_def without_index_def comp_def)

lemma textless_commutes:
  "textless (add_column ce ob) = add_column ce (textless ob)" "textless (drop_column c ob) = drop_column c (textless ob)"
  "textless (rename_column old new ob) = rename_column old new (textless ob)"
  "textless (without_index n ob) = without_index n (textless ob)"
  by (simp_all add: textless_def add_column_def drop_column_def rename_column_def without_index_def textless_index_def filter_map comp_def)

lemma altered_textless: "textless (fst (altered c (ob, marks))) = fst (altered c (textless ob, marks))"
  by (cases "(c, (ob, marks))" rule: altered.cases) (simp_all add: textless_commutes)

lemma altered_marks: "snd (altered c (ob, marks)) = snd (altered c (ob', marks))"
  by (cases "(c, (ob, marks))" rule: altered.cases) simp_all

section \<open>One change\<close>

text \<open>
  The table and its markers are what the changes made of them, up to texts; and of the other tables no more has
  changed than a foreign key can tell.
\<close>

definition stands :: "catalog \<Rightarrow> string \<Rightarrow> catalog \<Rightarrow> object_entry \<times> string set \<Rightarrow> bool" where
  "stands cat table cat' state \<longleftrightarrow>
     (\<exists>ob. altering cat' table ob \<and> textless ob = textless (fst state)) \<and> spec_markers cat' table = snd state \<and>
     shapes_agree {foldASCII table, timeMarkerTable, ''sqlite_sequence''} cat cat'"

abbreviation own_names :: "string \<Rightarrow> string set" where
  "own_names table \<equiv> {foldASCII table, timeMarkerTable, ''sqlite_sequence''}"

text \<open>No foreign key of the table is to one of these.\<close>

definition apart :: "string \<Rightarrow> object_entry \<Rightarrow> bool" where
  "apart table ob \<longleftrightarrow> list_all (\<lambda>t. foldASCII t \<notin> own_names table) (map ke_target (oe_keys ob))"

lemma apart_altered: "apart table (fst (altered c state)) = apart table (fst state)"
  by (simp add: apart_def altered_targets del: list.pred_map)

lemma shapes_mono: "shapes_agree N a b \<Longrightarrow> N \<subseteq> M \<Longrightarrow> shapes_agree M a b"
  by (auto simp: shapes_agree_def)

lemma standsI:
  assumes "stands cat table cat1 (ob, marks)" "altering cat1 table ob1" "textless ob1 = textless ob"
    and "altering cat2 table ob2" "textless ob2 = textless (fst (altered c (ob1, marks)))"
    and "spec_markers cat2 table = snd (altered c (ob, marks))" "shapes_agree N cat1 cat2" "N \<subseteq> own_names table"
  shows "stands cat table cat2 (altered c (ob, marks))"
proof -
  have "textless ob2 = textless (fst (altered c (ob, marks)))"
    by (simp only: assms(3,5) altered_textless)
  moreover have "shapes_agree (own_names table) cat cat2"
    using shapes_agree_trans [of "own_names table" cat cat1 "own_names table" cat2] shapes_mono [OF assms(7,8)] assms(1)
    by (simp add: stands_def)
  ultimately show ?thesis using assms(4,6) by (auto simp: stands_def)
qed

lemma altered_step:
  assumes "executes E cat_of" "heeds E cat_of delete_marker_sql" "heeds E cat_of rename_marker_sql"
    and "stands cat table (cat_of (pl_db p)) state" "apart table (fst state)"
    and "by_columns c" "run_call c (sqliteAlterApplier E table) p = (Ok (), r)" "fst (eng_commit E (pl_db r)) = None"
  shows "stands cat table (cat_of (pl_db r)) (altered c state)"
proof -
  let ?cat = "cat_of (pl_db p)" and ?cat' = "cat_of (pl_db r)"
  obtain ob marks where state: "state = (ob, marks)" by fastforce
  obtain ob1 where here: "altering ?cat table ob1" "textless ob1 = textless ob" and marks: "spec_markers ?cat table = marks"
    using assms(4) by (auto simp: stands_def state)
  note step = standsI [OF assms(4) [unfolded state] here, of ?cat', folded state]
  show ?thesis
  proof (cases c)
    case (Add_Field f opts)
    show ?thesis
      by (rule AddField_step [OF assms(1) here(1) assms(7) [unfolded Add_Field] refl]; rule step, assumption)
        (auto simp: Add_Field state marks)
  next
    case (Drop_Field n opts)
    show ?thesis
    proof (rule DropField_step [OF assms(1) here(1) assms(7) [unfolded Drop_Field] assms(8)])
      fix ob2 assume new: "altering ?cat' table ob2" "textless ob2 = textless (drop_column n ob1)"
        "\<And>m. m \<noteq> n \<Longrightarrow> m \<in> spec_markers ?cat' table \<longleftrightarrow> m \<in> spec_markers ?cat table"
        "heeds E cat_of delete_marker_sql \<Longrightarrow> n \<notin> spec_markers ?cat' table" "shapes_agree {} ?cat ?cat'"
      have "m \<in> spec_markers ?cat' table \<longleftrightarrow> m \<in> marks - {n}" for m
        using new(3) [of m] new(4) [OF assms(2)] marks by (cases "m = n") simp_all
      then have "spec_markers ?cat' table = marks - {n}" by blast
      then show ?thesis by (intro step [OF new(1) _ _ new(5)]) (simp_all add: Drop_Field state new(2))
    qed
  next
    case (Rename_Field old new opts)
    have "\<not> refers ?cat table {foldASCII table}"
      using assms(5) alteringD(4) [OF here(1)] textless_parts(5) [OF here(2)] by (auto simp: refers_def list_ex_iff list_all_iff apart_def state)
    show ?thesis
    proof (rule RenameField_step [OF assms(1) here(1) \<open>\<not> refers _ _ _\<close> refl assms(7) [unfolded Rename_Field] assms(8)])
      fix ob2 assume new: "altering ?cat' table ob2" "textless ob2 = textless (rename_column old new ob1)" "shapes_agree {foldASCII table} ?cat ?cat'"
        "old \<notin> spec_markers ?cat table \<or> heeds E cat_of rename_marker_sql \<Longrightarrow>
          spec_markers ?cat' table = moved_marks old new (spec_markers ?cat table)"
      show ?thesis by (intro step [OF new(1) _ _ new(3)]) (use new(2,4) assms(3) in \<open>simp_all add: Rename_Field state marks\<close>)
    qed
  next
    case (Drop_Index n opts)
    have "\<not> sqlite_reserved n" using assms(6) by (simp add: Drop_Index)
    note drop = DropIndex_step [OF assms(1) alteringD(1) [OF here(1)] this assms(7) [unfolded Drop_Index]]
    have "altering ?cat' table (without_index n ob1)" "shapes_agree {} ?cat ?cat'" "spec_markers ?cat' table = marks"
      using altering_remove_index [OF here(1) drop(2)] remove_index_catalog(2) [of n ?cat] remove_index_catalog(3) [of ?cat n] marks
      by (simp_all add: drop(1))
    then show ?thesis by (intro step [OF _ _ _ _ empty_subsetI]) (simp_all add: Drop_Index state)
  qed (use assms(6) in simp_all)
qed

section \<open>A list of changes\<close>

text \<open>When COMMIT must fail because SQLite has ended the transaction, further statements do not help.\<close>

definition stays_ended :: "'d engine \<Rightarrow> bool" where
  "stays_ended E \<longleftrightarrow> (\<forall>q args d. read_statement q \<noteq> None \<longrightarrow> fst (eng_commit E d) \<noteq> None \<longrightarrow>
     fst (eng_commit E (snd (eng_exec E q args d))) \<noteq> None)"

lemma ended_exec:
  assumes "stays_ended E" "read_statement q \<noteq> None" "fst (eng_commit E (snd (eng_exec E q args d))) = None"
  shows "fst (eng_commit E d) = None"
  using assms unfolding stays_ended_def by blast

lemma ended_plan:
  assumes "stays_ended E"
  shows "list_all (\<lambda>(q, args). read_statement q \<noteq> None) plan \<Longrightarrow> exec_all E plan d = (None, d') \<Longrightarrow>
    fst (eng_commit E d') = None \<Longrightarrow> fst (eng_commit E d) = None"
proof (induction plan arbitrary: d)
  case (Cons s plan)
  obtain q args where s: "s = (q, args)" by fastforce
  obtain d1 where d1: "eng_exec E q args d = (None, d1)" "exec_all E plan d1 = (None, d')"
    using Cons.prems(2) by (auto simp: s exec_all_Cons simp del: exec_all.simps)
  have "fst (eng_commit E d1) = None" using Cons.IH [OF _ d1(2)] Cons.prems(1,3) by (simp add: s)
  then show ?case using ended_exec [OF assms, of q args d] Cons.prems(1) d1(1) by (simp add: s)
qed simp

lemma marker_statements:
  "read_statement (create_marker_table_sql 3) \<noteq> None" "read_statement insert_marker_sql \<noteq> None"
  "read_statement delete_marker_sql \<noteq> None" "read_statement rename_marker_sql \<noteq> None"
  using distinct_marker_texts by (auto simp: read_statement_def marker_texts_def)

lemma ended_call:
  assumes "stays_ended E" "by_columns c" "run_call c (sqliteAlterApplier E table) p = (Ok (), r)" "fst (eng_commit E (pl_db r)) = None"
  shows "fst (eng_commit E (pl_db p)) = None"
proof (cases c)
  case (Add_Field f opts)
  have "ApplyAddField E table f opts p = (Ok (), r)" using assms(3) by (simp add: Add_Field sqliteAlterApplier_def)
  then obtain s d where run: "buildAlterTableAddColumnSQL table f = Inr s" "eng_exec E s [] (pl_db p) = (None, d)"
      "exec_all E (mark_plan table f) d = (None, pl_db r)"
    by (rule ApplyAddField_runs)
  have "fst (eng_commit E d) = None"
    by (rule ended_plan [OF assms(1) _ run(3) assms(4)]) (use marker_statements in \<open>simp add: mark_plan_def\<close>)
  then show ?thesis
    using ended_exec [OF assms(1), of s "[]" "pl_db p"] read_statement_add_column [OF run(1)] run(2) by simp
next
  case (Drop_Field n opts)
  have "ApplyDropField E table n opts p = (Ok (), r)" using assms(3) by (simp add: Drop_Field sqliteAlterApplier_def)
  then obtain d where d: "eng_exec E (buildAlterTableDropColumnSQL table n) [] (pl_db p) = (None, d)"
      "pl_db r = snd (eng_exec E delete_marker_sql [V_Text table, V_Text n] d)"
    by (auto simp: ApplyDropField_def exec_then_ignore)
  have "fst (eng_commit E d) = None" by (rule ended_exec [OF assms(1) marker_statements(3)]) (use d(2) assms(4) in simp)
  then show ?thesis
    using ended_exec [OF assms(1), of "buildAlterTableDropColumnSQL table n" "[]" "pl_db p"] d(1) by (simp add: read_statement_column)
next
  case (Rename_Field old new opts)
  have "ApplyRenameField E table old new opts p = (Ok (), r)" using assms(3) by (simp add: Rename_Field sqliteAlterApplier_def)
  then obtain d where d: "eng_exec E (buildAlterTableRenameColumnSQL table old new) [] (pl_db p) = (None, d)"
      "pl_db r = snd (eng_exec E rename_marker_sql [V_Text new, V_Text table, V_Text old] d)"
    by (auto simp: ApplyRenameField_def exec_then_ignore)
  have "fst (eng_commit E d) = None" by (rule ended_exec [OF assms(1) marker_statements(4)]) (use d(2) assms(4) in simp)
  then show ?thesis
    using ended_exec [OF assms(1), of "buildAlterTableRenameColumnSQL table old new" "[]" "pl_db p"] d(1) by (simp add: read_statement_column)
next
  case (Drop_Index n opts)
  have "eng_exec E (buildDropIndexSQL n opts) [] (pl_db p) = (None, pl_db r)"
    using assms(3) by (auto simp: Drop_Index sqliteAlterApplier_def ApplyDropIndex_def conn_exec_def io_wrap_def split: prod.splits option.splits)
  then show ?thesis
    using ended_exec [OF assms(1), of "buildDropIndexSQL n opts" "[]" "pl_db p"] assms(4) by (simp add: read_statement_column)
qed (use assms(2) in simp_all)

text \<open>What the changes rely on.\<close>

definition alters_tables :: "'d engine \<Rightarrow> ('d \<Rightarrow> catalog) \<Rightarrow> bool" where
  "alters_tables E cat_of \<longleftrightarrow>
     executes E cat_of \<and> heeds E cat_of delete_marker_sql \<and> heeds E cat_of rename_marker_sql \<and> stays_ended E"

lemma run_calls_Cons:
  "alter_body E table (map run_call (c # cs)) p = (Ok (), r) \<longleftrightarrow>
     (\<exists>p1. run_call c (sqliteAlterApplier E table) p = (Ok (), p1) \<and> alter_body E table (map run_call cs) p1 = (Ok (), r))"
  by (auto simp: alter_body_def io_bind_def split: prod.splits outcome.splits)

lemma ended_calls:
  assumes "stays_ended E"
  shows "list_all by_columns cs \<Longrightarrow> alter_body E table (map run_call cs) p = (Ok (), r) \<Longrightarrow>
    fst (eng_commit E (pl_db r)) = None \<Longrightarrow> fst (eng_commit E (pl_db p)) = None"
proof (induction cs arbitrary: p)
  case (Cons c cs)
  then obtain p1 where "run_call c (sqliteAlterApplier E table) p = (Ok (), p1)" "alter_body E table (map run_call cs) p1 = (Ok (), r)"
    unfolding run_calls_Cons by blast
  then show ?case using Cons.IH [of p1] Cons.prems(1,3) ended_call [OF assms, of c table p p1] by simp
qed (simp add: alter_body_def io_return_def)

lemma altered_calls:
  assumes "alters_tables E cat_of"
  shows "list_all by_columns cs \<Longrightarrow> stands cat table (cat_of (pl_db p)) state \<Longrightarrow>
    apart table (fst state) \<Longrightarrow>
    alter_body E table (map run_call cs) p = (Ok (), r) \<Longrightarrow> fst (eng_commit E (pl_db r)) = None \<Longrightarrow>
    stands cat table (cat_of (pl_db r)) (fold altered cs state)"
proof (induction cs arbitrary: p state)
  case Nil
  then show ?case by (simp add: alter_body_def io_return_def)
next
  case (Cons c cs)
  obtain p1 where run: "run_call c (sqliteAlterApplier E table) p = (Ok (), p1)" "alter_body E table (map run_call cs) p1 = (Ok (), r)"
    using Cons.prems(4) unfolding run_calls_Cons by blast
  have parts: "by_columns c" "list_all by_columns cs" using Cons.prems(1) by simp_all
  have hyps: "executes E cat_of" "heeds E cat_of delete_marker_sql" "heeds E cat_of rename_marker_sql" "stays_ended E"
    using assms by (simp_all add: alters_tables_def)
  note step = altered_step [OF hyps(1-3) Cons.prems(2,3) parts(1) run(1) ended_calls [OF hyps(4) parts(2) run(2) Cons.prems(5)]]
  show ?case using Cons.IH [OF parts(2) step _ run(2) Cons.prems(5)] Cons.prems(3) by (simp add: apart_altered)
qed

section \<open>Change, then describe\<close>

lemma altered_names: "oe_name (fst (altered c state)) = oe_name (fst state)" "oe_kind (fst (altered c state)) = oe_kind (fst state)"
  by (cases "(c, state)" rule: altered.cases; simp add: add_column_def drop_column_def rename_column_def)+

lemma altered_fold_names:
  "oe_name (fst (fold altered cs state)) = oe_name (fst state)" "oe_kind (fst (fold altered cs state)) = oe_kind (fst state)"
  "apart table (fst (fold altered cs state)) = apart table (fst state)"
  by (induction cs arbitrary: state) (simp_all add: altered_names apart_altered)

text \<open>What DescribeCollection has of a table and the markers of its columns, and when it can describe them.\<close>

definition describable :: "object_entry \<times> string set \<Rightarrow> bool" where
  "describable state \<longleftrightarrow> list_all (\<lambda>ce. \<not> unreadable (snd state) ce) (visible (fst state)) \<and> first_hidden (fst state) = None"

definition described_as :: "catalog \<Rightarrow> string \<Rightarrow> object_entry \<times> string set \<Rightarrow> collection_def \<Rightarrow> bool" where
  "described_as cat table state d \<longleftrightarrow>
     map field_kind (cd_Fields d) = map (column_kind (snd state)) (visible (fst state)) \<and>
     cd_PrimaryKey d = map ce_name (key_columns (fst state)) \<and> cd_Indexes d = spec_indexes (fst state) \<and>
     cd_ForeignKeys d = map (spec_key cat table) (oe_keys (fst state))"

lemma stands_described:
  assumes "executes E cat_of" "pl_open p = []" "stands cat table (cat_of (pl_db p)) state" "wf_catalog cat"
    and "oe_name (fst state) = table" "oe_kind (fst state) = Table"
    and "apart table (fst state)"
  shows "((\<exists>d. fst (DescribeCollection E False table p) = Ok d) \<longleftrightarrow> describable state) \<and>
    (\<forall>d. fst (DescribeCollection E False table p) = Ok d \<longrightarrow> described_as cat table state d)"
proof -
  let ?cat = "cat_of (pl_db p)"
  obtain ob marks where state: "state = (ob, marks)" by fastforce
  obtain ob' where here: "altering ?cat table ob'" "textless ob' = textless ob" and marks: "spec_markers ?cat table = marks"
    and shapes: "shapes_agree (own_names table) cat ?cat"
    using assms(3) by (auto simp: stands_def state)
  note there = alteringD [OF here(1)] and parts = textless_parts [OF here(2)]
  have readable: "readable ?cat table ob' \<longleftrightarrow> describable state"
    using there(4) parts assms(5,6) by (simp add: readable_def marks state describable_def)
  have name: "oe_name ob = table" using assms(5) by (simp add: state)
  have keys: "map (spec_key ?cat table) (oe_keys ob) = map (spec_key cat table) (oe_keys ob)"
    using assms(7) by (intro map_cong refl spec_key_shapes [OF assms(4) there(1) shapes]) (auto simp: state apart_def list_all_iff)
  have "described_as cat table state (describe_object ?cat False ob')"
    using describe_like [OF here(2) name, of ?cat] keys by (simp add: described_as_def state marks)
  moreover have "fst (DescribeCollection E False table p) = Ok d \<longleftrightarrow> readable ?cat table ob' \<and> d = describe_object ?cat False ob'" for d
    unfolding describes_readable [OF assms(1) there(1) assms(2)] using there(4) by (auto simp: readable_def)
  ultimately show ?thesis using readable by simp
qed

text \<open>C11: AlterCollection makes its changes one after another, in the order given. After a successful one, whatever
  fields it added, dropped and renamed and whatever indexes it dropped, DescribeCollection returns the fields with their
  types, Time fields included, the key, the indexes and the foreign keys of the table that these changes, applied
  as functions from first to last, make of the one before; and it fails exactly when that table has a column of a type
  it does not know.\<close>

theorem AlterCollection_describe:
  assumes "alters_tables E cat_of" "cat = cat_of (pl_db p)" "wf_catalog cat" "markers_ok cat" "pl_open p = []"
    and "alterable cat table" "object_named cat table = Some ob" "oe_name ob = table" "oe_kind ob = Table" "apart table ob"
    and "list_all by_columns calls" "AlterCollection E table (map run_call calls) p = (Ok (), q)"
    and "state = fold altered calls (ob, spec_markers cat table)"
  shows "((\<exists>d. fst (DescribeCollection E False table q) = Ok d) \<longleftrightarrow> describable state) \<and>
    (\<forall>d. fst (DescribeCollection E False table q) = Ok d \<longrightarrow> described_as cat table state d)"
proof -
  have executes: "executes E cat_of" using assms(1) by (simp add: alters_tables_def)
  obtain d r where run: "cat_of d = cat" "alter_body E table (map run_call calls) (in_tx_pool p d) = (Ok (), r)"
      "fst (eng_commit E (pl_db r)) = None" "cat_of (pl_db q) = cat_of (pl_db r)" "pl_open q = []"
    by (rule AlterCollection_runs [OF executes assms(5,12)]) (rule that, simp_all add: assms(2))
  have "stands cat table (cat_of (pl_db (in_tx_pool p d))) (ob, spec_markers cat table)"
    using alteringI [OF assms(3,4,6,7)] by (auto simp: stands_def run(1) shapes_agree_def)
  from altered_calls [OF assms(1,11) this _ run(2,3)] assms(10)
  have "stands cat table (cat_of (pl_db q)) state" by (simp add: assms(13) run(4))
  then show ?thesis
    by (rule stands_described [OF executes run(5) _ assms(3)]) (simp_all add: assms(8-10,13) altered_fold_names)
qed

end
