(* ===== verification/Alter_Examples.thy ===== *)
theory Alter_Examples
  imports Alter_Sequence
begin

text \<open>
  The alterations of a collection run on an engine: the diary of Ddl_Effects, whose one column \<open>at\<close> is a Time,
  gets and loses a field and an index, its column is renamed under both spellings of its name, and two changes are made at once.
\<close>

section \<open>Running a statement on the diary\<close>

lemma step_rewritten:
  "catalog_exec q args cat = Rewritten cat' \<Longrightarrow> eng_exec ddl_engine q args (cat, sv) = (None, (cat', sv))"
  by (simp add: ddl_engine_def)

lemma visit_facts:
  "object_named diary ''visit'' = Some (one_column_table ''visit'')" "object_named diary timeMarkerTable = Some markers_made"
  "views diary = []" "\<not> sqlite_reserved ''visit''" "\<not> refers diary ''visit'' N" "alterable diary ''visit''"
  "map ce_name (oe_columns (one_column_table ''visit'')) = [''at'']"
  by (simp_all add: object_named_def diary_def views_def sqlite_reserved_def refers_def alterable_def diary_facts visit_columns)

lemma alter_folds:
  "foldASCII ''note'' = ''note''" "foldASCII ''NOTE'' = ''note''" "foldASCII ''when'' = ''when''" "foldASCII ''AT'' = ''at''"
  "foldASCII ''by_at'' = ''by_at''" "foldASCII ''BY_AT'' = ''by_at''"
  by code_simp+

lemma diary_described: "\<exists>d. fst (DescribeCollection ddl_engine False ''visit'' (one_connection (diary, diary))) = Ok d \<and>
    map field_kind (cd_Fields d) = [(''at'', Type_Time, None)]"
proof -
  have "readable diary ''visit'' (one_column_table ''visit'')"
    by (simp add: readable_def visit_facts one_column_sel diary_marks visit_columns unreadable_def first_hidden_def)
  moreover have "map field_kind (cd_Fields (describe_object diary False (one_column_table ''visit''))) = [(''at'', Type_Time, None)]"
    by (simp add: described_kinds one_column_sel diary_marks visit_columns column_kind_def spec_type_def)
  ultimately show ?thesis
    using describes_readable [OF ddl_engine_executes, of "one_connection (diary, diary)" "''visit''"] diary_ok(1)
    by (auto simp: diary_pool)
qed

section \<open>A field added and dropped\<close>

definition noted_diary :: catalog where
  "noted_diary = update_object ''visit'' (add_column (column_of (field_column (field ''note'' Type_Int)))) diary"

lemma note_text: "\<exists>s. buildAlterTableAddColumnSQL ''visit'' (field ''note'' Type_Int) = Inr s"
  by (simp add: buildAlterTableAddColumnSQL_def buildColumnDecl_def field_def)

lemma note_step: "exec_add_column ''visit'' (field_column (field ''note'' Type_Int)) diary = Rewritten noted_diary"
  by (simp add: exec_add_column_def on_column_table_def visit_facts one_column_sel field_column_def field_def spelled_def
      diary_folds alter_folds noted_diary_def)

lemma note_call:
  assumes "pl_db p = (diary, diary)"
  shows "run_call (Add_Field (field ''note'' Type_Int) no_options) (sqliteAlterApplier ddl_engine ''visit'') p =
    (Ok (), p\<lparr>pl_db := (noted_diary, diary)\<rparr>)"
proof -
  let ?f = "field ''note'' Type_Int"
  obtain s where s: "buildAlterTableAddColumnSQL ''visit'' ?f = Inr s" using note_text by blast
  have "catalog_exec s [] diary = Rewritten noted_diary" by (simp add: catalog_exec_alter(1) [OF s] note_step)
  from step_rewritten [OF this] have "exec_all ddl_engine ((s, []) # mark_plan ''visit'' ?f) (pl_db p) = (None, (noted_diary, diary))"
    by (simp add: mark_plan_def field_def assms)
  then have "ApplyAddField ddl_engine ''visit'' ?f no_options p = (Ok (), p\<lparr>pl_db := (noted_diary, diary)\<rparr>)"
    by (rule amounts_toD(1) [OF ApplyAddField_plan [OF s]])
  then show ?thesis by (simp add: sqliteAlterApplier_def)
qed

lemma note_runs:
  "\<exists>q. AlterCollection ddl_engine ''visit'' [run_call (Add_Field (field ''note'' Type_Int) no_options)]
     (one_connection (diary, diary)) = (Ok (), q)"
  using alter_runs [OF note_call, of "one_connection (diary, diary)"] by (auto simp: diary_pool)

theorem AddField_describe_witness:
  "\<exists>q d. AlterCollection ddl_engine ''visit'' [run_call (Add_Field (field ''note'' Type_Int) no_options)]
       (one_connection (diary, diary)) = (Ok (), q) \<and>
     fst (DescribeCollection ddl_engine False ''visit'' q) = Ok d \<and>
     map field_kind (cd_Fields d) = [(''at'', Type_Time, None), (''note'', Type_Int, None)]"
proof -
  let ?cat = "fst (pl_db (one_connection (diary, diary)))"
  obtain q where q: "AlterCollection ddl_engine ''visit'' [run_call (Add_Field (field ''note'' Type_Int) no_options)]
       (one_connection (diary, diary)) = (Ok (), q)"
    using note_runs by blast
  obtain d where d: "fst (DescribeCollection ddl_engine False ''visit'' (one_connection (diary, diary))) = Ok d"
      "map field_kind (cd_Fields d) = [(''at'', Type_Time, None)]"
    by (rule exE [OF diary_described], elim conjE) (rule that)
  have cat: "?cat = diary" by (simp only: diary_pool fst_conv)
  have facts: "wf_catalog ?cat" "markers_ok ?cat" "alterable ?cat ''visit''" "\<not> refers ?cat ''visit'' {timeMarkerTable, ''sqlite_sequence''}"
    "False \<longleftrightarrow> fd_Type (field ''note'' Type_Int) = Type_Time \<or> fd_Name (field ''note'' Type_Int) \<in> spec_markers ?cat ''visit''"
    unfolding cat by (simp_all add: diary_ok visit_facts diary_marks field_def)
  obtain d' fs where d': "fst (DescribeCollection ddl_engine False ''visit'' q) = Ok d'" "map field_kind fs = map field_kind (cd_Fields d)"
      "cd_Fields d' = fs @ [(field ''note'' Type_Int)\<lparr>fd_Type := if False then Type_Time else read_back (fd_Type (field ''note'' Type_Int)),
        fd_Precision := None, fd_AutoIncrement := False\<rparr>]"
    by (rule exE [OF AddField_describe [OF ddl_engine_executes facts(1,2) diary_pool(1) facts(3,4) d(1) q facts(5)]], elim exE conjE)
      (rule that)
  have "map field_kind (cd_Fields d') = [(''at'', Type_Time, None), (''note'', Type_Int, None)]"
    by (simp only: d'(3) map_append d'(2) d(2)) (simp add: field_kind_def field_def)
  then show ?thesis by (intro exI conjI) (rule q, rule d'(1))
qed

text \<open>The same field dropped again, under another spelling.\<close>

definition note_column :: column_entry where
  "note_column = column_of (field_column (field ''note'' Type_Int))"

definition noted_table :: object_entry where
  "noted_table = add_column note_column (one_column_table ''visit'')"

lemma note_column_sel:
  "ce_name note_column = ''note''" "ce_type note_column = ''INTEGER''" "ce_pk note_column = 0" "ce_hidden note_column = 0"
  by (simp_all add: note_column_def column_of_def field_column_def field_def declared_type_def)

lemma noted_table_sel:
  "oe_name noted_table = ''visit''" "oe_kind noted_table = Table" "oe_indexes noted_table = []" "oe_keys noted_table = []"
  "oe_columns noted_table = visible (one_column_table ''visit'') @ [note_column]"
  "visible noted_table = visible (one_column_table ''visit'') @ [note_column]" "first_hidden noted_table = None"
  by (simp_all add: noted_table_def add_column_def one_column_sel visible_def note_column_sel first_hidden_def find_last)
    (simp_all add: visit_columns)

lemma noted_facts:
  "wf_catalog noted_diary" "markers_ok noted_diary" "alterable noted_diary ''visit''" "spec_markers noted_diary ''visit'' = {''at''}"
  "object_named noted_diary ''visit'' = Some noted_table"
proof -
  let ?h = "add_column (column_of (field_column (field ''note'' Type_Int)))"
  let ?g = "\<lambda>ob. if foldASCII (oe_name ob) = foldASCII ''visit'' then ?h ob else ob"
  have keeps: "keeps_names ?g" by (rule keeps_update [OF keeps_column(1)]) (simp_all add: column_of_def int64_range_def)
  have noted: "noted_diary = diary\<lparr>cat_objects := map ?g (cat_objects diary)\<rparr>" by (simp only: noted_diary_def update_object_map)
  have named: "object_named noted_diary n = map_option ?g (object_named diary n)" for n
    unfolding noted by (rule object_named_map) (simp add: add_column_def)
  show "wf_catalog noted_diary" unfolding noted by (rule wf_map_keeps [OF keeps diary_ok(1)])
  show "object_named noted_diary ''visit'' = Some noted_table"
    by (simp add: named visit_facts one_column_sel noted_table_def note_column_def)
  show "markers_ok noted_diary"
    by (simp add: markers_ok_def named visit_facts markers_made_sel diary_folds)
  have "views noted_diary = views diary"
    unfolding noted by (rule views_map [OF keeps]) (auto simp: diary_def markers_made_sel one_column_sel)
  then show "alterable noted_diary ''visit''" by (simp add: alterable_def visit_facts diary_folds)
  have "marked noted_diary = marked diary" unfolding noted by (rule marked_map) (simp_all add: add_column_def)
  then have "spec_markers noted_diary ''visit'' = spec_markers diary ''visit''"
    by (simp add: spec_markers_def) (simp add: noted)
  then show "spec_markers noted_diary ''visit'' = {''at''}" by (simp add: diary_marks)
qed

lemma noted_described: "\<exists>d. fst (DescribeCollection ddl_engine False ''visit'' (one_connection (noted_diary, noted_diary))) = Ok d \<and>
    map field_kind (cd_Fields d) = [(''at'', Type_Time, None), (''note'', Type_Int, None)]"
proof -
  have "readable noted_diary ''visit'' noted_table"
    by (simp add: readable_def noted_facts noted_table_sel visit_columns note_column_sel unreadable_def recognized_def declared_types_read)
  moreover have "map field_kind (cd_Fields (describe_object noted_diary False noted_table)) = [(''at'', Type_Time, None), (''note'', Type_Int, None)]"
    by (simp add: described_kinds noted_facts noted_table_sel visit_columns note_column_sel column_kind_def spec_type_def declared_types_read)
  moreover have "pl_open (one_connection (noted_diary, noted_diary)) = []" "pl_db (one_connection (noted_diary, noted_diary)) = (noted_diary, noted_diary)"
    by (simp_all add: one_connection_def)
  ultimately show ?thesis
    using describes_readable [OF ddl_engine_executes, of "one_connection (noted_diary, noted_diary)" "''visit''"] noted_facts(1)
    by auto
qed

lemma drop_note_runs:
  "\<exists>q. AlterCollection ddl_engine ''visit'' [run_call (Drop_Field ''NOTE'' no_options)] (one_connection (noted_diary, noted_diary)) = (Ok (), q)"
proof -
  let ?p = "in_tx_pool (one_connection (noted_diary, noted_diary)) (noted_diary, noted_diary)"
  have "exec_drop_column ''visit'' ''NOTE'' noted_diary = Rewritten (update_object ''visit'' (drop_column ''NOTE'') noted_diary)"
    using noted_facts(3)
    by (simp add: exec_drop_column_def on_column_table_def noted_facts noted_table_sel visit_facts(4) alterable_def visit_columns
        spelled_def uses_column_def note_column_sel diary_folds alter_folds)
  then have "catalog_exec (buildAlterTableDropColumnSQL ''visit'' ''NOTE'') [] noted_diary =
      Rewritten (update_object ''visit'' (drop_column ''NOTE'') noted_diary)"
    by (simp add: catalog_exec_alter(2))
  from step_rewritten [OF this, of noted_diary]
  have "\<exists>r. run_call (Drop_Field ''NOTE'' no_options) (sqliteAlterApplier ddl_engine ''visit'') ?p = (Ok (), r)"
    by (simp add: sqliteAlterApplier_def ApplyDropField_def exec_then_ignore)
  then show ?thesis
    using alter_runs [of "Drop_Field ''NOTE'' no_options" "''visit''" "one_connection (noted_diary, noted_diary)"]
    by (auto simp: one_connection_def)
qed

theorem DropField_describe_witness:
  "\<exists>q d. AlterCollection ddl_engine ''visit'' [run_call (Drop_Field ''NOTE'' no_options)]
       (one_connection (noted_diary, noted_diary)) = (Ok (), q) \<and>
     fst (DescribeCollection ddl_engine False ''visit'' q) = Ok d \<and> map field_kind (cd_Fields d) = [(''at'', Type_Time, None)]"
proof -
  let ?p = "one_connection (noted_diary, noted_diary)"
  obtain q where q: "AlterCollection ddl_engine ''visit'' [run_call (Drop_Field ''NOTE'' no_options)] ?p = (Ok (), q)"
    using drop_note_runs by blast
  obtain d where d: "fst (DescribeCollection ddl_engine False ''visit'' ?p) = Ok d"
      "map field_kind (cd_Fields d) = [(''at'', Type_Time, None), (''note'', Type_Int, None)]"
    by (rule exE [OF noted_described], elim conjE) (rule that)
  have cat: "fst (pl_db ?p) = noted_diary" "pl_open ?p = []" by (simp_all add: one_connection_def)
  have facts: "wf_catalog (fst (pl_db ?p))" "markers_ok (fst (pl_db ?p))" "alterable (fst (pl_db ?p)) ''visit''"
    unfolding cat by (rule noted_facts)+
  obtain d' where d': "fst (DescribeCollection ddl_engine False ''visit'' q) = Ok d'"
      "map field_kind (cd_Fields d') = map field_kind (filter (\<lambda>f. foldASCII (fd_Name f) \<noteq> foldASCII ''NOTE'') (cd_Fields d))"
    by (rule exE [OF DropField_describe [OF ddl_engine_executes facts(1,2) cat(2) facts(3) d(1) q]], elim exE conjE) (rule that)
  have "map field_kind (filter (\<lambda>f. foldASCII (fd_Name f) \<noteq> foldASCII ''NOTE'') (cd_Fields d)) =
      filter (\<lambda>k. foldASCII (fst k) \<noteq> foldASCII ''NOTE'') (map field_kind (cd_Fields d))"
    by (simp add: filter_map comp_def field_kind_def)
  then have "map field_kind (cd_Fields d') = [(''at'', Type_Time, None)]"
    unfolding d' d(2) by (simp add: alter_folds diary_folds)
  then show ?thesis by (intro exI conjI) (rule q, rule d'(1))
qed

section \<open>The column renamed\<close>

lemma ddl_engine_heeds: "heeds ddl_engine fst q"
  by (simp add: heeds_def ddl_engine_def)

definition renamed_table :: "string \<Rightarrow> object_entry" where
  "renamed_table old = rename_column old ''when'' (one_column_table ''visit'')"

definition renamed_diary :: "string \<Rightarrow> (string \<times> string) list \<Rightarrow> catalog" where
  "renamed_diary old ms = \<lparr>cat_objects = [markers_made, renamed_table old], cat_keys_on = True, cat_markers = ms\<rparr>"

definition renamed_markers :: "string \<Rightarrow> (string \<times> string) list" where
  "renamed_markers old = [if old = ''at'' then (''visit'', ''when'') else (''visit'', ''at'')]"

lemma renamed_table_sel:
  "oe_name (renamed_table old) = ''visit''" "oe_kind (renamed_table old) = Table" "oe_indexes (renamed_table old) = []"
  "oe_keys (renamed_table old) = []" "first_hidden (renamed_table old) = None"
  "visible (renamed_table old) = map (renamed_column old ''when'') (visible (one_column_table ''visit''))"
  by (simp_all add: renamed_table_def rename_column_parts) (simp_all add: rename_column_def one_column_sel first_hidden_def visit_columns)

lemma renamed_diary_step:
  assumes "foldASCII old = ''at''"
  shows "exec_rename_column ''visit'' old ''when'' diary = Rewritten (renamed_diary old [(''visit'', ''at'')])"
proof -
  have "rename_in_catalog ''visit'' old ''when'' diary = renamed_diary old [(''visit'', ''at'')]"
    by (simp add: rename_in_catalog_map diary_def renamed_diary_def diary_facts rename_target_parts(2) renamed_table_sel flip: renamed_table_def)
  then show ?thesis
    by (simp add: exec_rename_column_def on_column_table_def visit_facts one_column_sel spelled_def assms diary_folds alter_folds)
qed

lemma rename_runs:
  assumes "foldASCII old = ''at''"
  shows "\<exists>q. AlterCollection ddl_engine ''visit'' [run_call (Rename_Field old ''when'' no_options)] (one_connection (diary, diary)) = (Ok (), q) \<and>
    pl_db q = (renamed_diary old (renamed_markers old), diary) \<and> pl_open q = []"
proof -
  let ?p = "in_tx_pool (one_connection (diary, diary)) (diary, diary)"
  have "catalog_exec (buildAlterTableRenameColumnSQL ''visit'' old ''when'') [] diary = Rewritten (renamed_diary old [(''visit'', ''at'')])"
    by (simp add: catalog_exec_alter(3) renamed_diary_step [OF assms])
  note first = step_rewritten [OF this, of diary]
  have "object_named (renamed_diary old ms) timeMarkerTable = Some markers_made" for ms
    by (simp add: object_named_def renamed_diary_def diary_facts)
  then have "catalog_exec rename_marker_sql [V_Text ''when'', V_Text ''visit'', V_Text old] (renamed_diary old [(''visit'', ''at'')]) =
      Changed (renamed_diary old (renamed_markers old))"
    by (simp add: catalog_exec_markers exec_remark_column_def markers_made_sel renamed_markers_def) (simp add: renamed_diary_def)
  from step_runs [OF this, of diary] first
  have "run_call (Rename_Field old ''when'' no_options) (sqliteAlterApplier ddl_engine ''visit'') ?p =
      (Ok (), ?p\<lparr>pl_db := (renamed_diary old (renamed_markers old), diary)\<rparr>)"
    by (simp add: sqliteAlterApplier_def ApplyRenameField_def exec_then_ignore)
  then show ?thesis
    using alter_runs [of "Rename_Field old ''when'' no_options" "''visit''" "one_connection (diary, diary)"] by (auto simp: diary_pool)
qed

theorem RenameField_describe_witness:
  "\<exists>q d. AlterCollection ddl_engine ''visit'' [run_call (Rename_Field ''at'' ''when'' no_options)]
       (one_connection (diary, diary)) = (Ok (), q) \<and>
     fst (DescribeCollection ddl_engine False ''visit'' q) = Ok d \<and> map field_kind (cd_Fields d) = [(''when'', Type_Time, None)]"
proof -
  let ?p = "one_connection (diary, diary)" and ?\<rho> = "renamed_name ''at'' ''when''"
  obtain q where q: "AlterCollection ddl_engine ''visit'' [run_call (Rename_Field ''at'' ''when'' no_options)] ?p = (Ok (), q)"
    using rename_runs [OF diary_folds(3)] by blast
  obtain d where d: "fst (DescribeCollection ddl_engine False ''visit'' ?p) = Ok d" "map field_kind (cd_Fields d) = [(''at'', Type_Time, None)]"
    by (rule exE [OF diary_described], elim conjE) (rule that)
  have cat: "fst (pl_db ?p) = diary" by (simp only: diary_pool fst_conv)
  obtain f where f: "cd_Fields d = [f]" "fd_Name f = ''at''" using d(2) by (auto simp: field_kind_def)
  have facts: "wf_catalog (fst (pl_db ?p))" "markers_ok (fst (pl_db ?p))" "alterable (fst (pl_db ?p)) ''visit''"
    "\<not> refers (fst (pl_db ?p)) ''visit'' {foldASCII ''visit''}" "distinct (map (\<lambda>f. foldASCII (fd_Name f)) (cd_Fields d))"
    "''at'' \<in> fd_Name ` set (cd_Fields d)" "''when'' \<notin> spec_markers (fst (pl_db ?p)) ''visit''"
    unfolding cat by (simp_all add: diary_ok visit_facts diary_marks f)
  obtain d' where d': "fst (DescribeCollection ddl_engine False ''visit'' q) = Ok d'"
      "map field_kind (cd_Fields d') = map (apfst ?\<rho>) (map field_kind (cd_Fields d))"
    by (rule exE [OF RenameField_describe [OF ddl_engine_executes facts(1,2) diary_pool(1) ddl_engine_heeds facts(3,4) d(1) facts(5-7) q refl]],
        elim conjE) (rule that)
  have "map field_kind (cd_Fields d') = [(''when'', Type_Time, None)]"
    by (simp add: d' d(2) renamed_name_def)
  then show ?thesis by (intro exI conjI) (rule q, rule d'(1))
qed

theorem RenameField_leaves_marker_witness:
  "\<exists>q d f. AlterCollection ddl_engine ''visit'' [run_call (Rename_Field ''AT'' ''when'' no_options)]
       (one_connection (diary, diary)) = (Ok (), q) \<and>
     fst (DescribeCollection ddl_engine False ''visit'' q) = Ok d \<and> f \<in> set (cd_Fields d) \<and> fd_Name f = ''when'' \<and>
     fd_Type f = Type_String \<and> ''at'' \<in> spec_markers (fst (pl_db q)) ''visit''"
proof -
  let ?p = "one_connection (diary, diary)" and ?cat = "renamed_diary ''AT'' (renamed_markers ''AT'')" and ?ob = "renamed_table ''AT''"
  let ?ce = "hd (visible (one_column_table ''visit''))"
  obtain q where q: "AlterCollection ddl_engine ''visit'' [run_call (Rename_Field ''AT'' ''when'' no_options)] ?p = (Ok (), q)"
      "fst (pl_db q) = ?cat" "pl_open q = []"
    using rename_runs [OF alter_folds(4)] by auto
  have "wf_object ?ob" using keeps_column(3) one_column_sel(6) by (simp add: keeps_names_def renamed_table_def)
  then have wf: "wf_catalog (fst (pl_db q))"
    by (simp add: q(2) renamed_diary_def wf_catalog_def all_indexes_def made_index_def diary_folds markers_made_sel renamed_table_sel)
  have columns: "visible ?ob = [renamed_column ''AT'' ''when'' ?ce]" "ce_type ?ce = ''TEXT''" "ce_name ?ce = ''at''" "?ce \<in> set (visible (one_column_table ''visit''))"
    by (simp_all add: renamed_table_sel visit_columns)
  have "marked ?cat" by (simp add: marked_def renamed_diary_def markers_made_sel)
  then have marks: "spec_markers ?cat ''visit'' = {''at''}" by (simp add: spec_markers_def) (auto simp: renamed_diary_def renamed_markers_def)
  have "readable ?cat ''visit'' ?ob"
    by (simp add: readable_def object_named_def renamed_diary_def renamed_table_sel(1,2,5) diary_folds markers_made_sel columns unreadable_def recognized_def
        declared_types_read)
  then have run: "fst (DescribeCollection ddl_engine False ''visit'' q) = Ok (describe_object ?cat False ?ob)"
    unfolding describes_readable [OF ddl_engine_executes wf q(3)] q(2) by blast
  let ?f = "describe_field {''at''} ?ob (renamed_column ''AT'' ''when'' ?ce)"
  have f: "?f \<in> set (cd_Fields (describe_object ?cat False ?ob))" "fd_Name ?f = ''when''"
    by (simp_all add: describe_object_def Let_def columns renamed_table_sel(1) marks) (simp add: describe_field_def renamed_name_def columns alter_folds diary_folds)
  have cat: "fst (pl_db ?p) = diary" by (simp only: diary_pool fst_conv)
  have facts: "wf_catalog (fst (pl_db ?p))" "markers_ok (fst (pl_db ?p))" "alterable (fst (pl_db ?p)) ''visit''"
    "\<not> refers (fst (pl_db ?p)) ''visit'' {foldASCII ''visit''}" "object_named (fst (pl_db ?p)) ''visit'' = Some (one_column_table ''visit'')"
    "distinct (map (\<lambda>ce. foldASCII (ce_name ce)) (visible (one_column_table ''visit'')))" "foldASCII (ce_name ?ce) = foldASCII ''AT''"
    "{''at''} = spec_markers (fst (pl_db ?p)) ''visit''" "ce_name ?ce \<in> {''at''}" "''AT'' \<notin> {''at''}" "''when'' \<notin> {''at''}"
    unfolding cat by (simp_all add: diary_ok visit_facts diary_marks visit_columns alter_folds diary_folds)
  have "fd_Type ?f = Type_String \<and> ce_name ?ce \<in> spec_markers (fst (pl_db q)) ''visit''"
    by (rule RenameField_leaves_marker [OF ddl_engine_executes facts(1,2) diary_pool(1) facts(3-6) columns(4,2) facts(7-11) q(1) run f])
  then show ?thesis using q(1) run f columns(3) by metis
qed

section \<open>An index added and dropped\<close>

definition by_at :: index_def where
  "by_at = \<lparr>ix_Name = ''by_at'', ix_Collection = [], ix_Fields = [''at''], ix_Unique = False\<rparr>"

lemma diary_indexable: "indexable diary (one_column_table ''visit'')"
proof -
  have "read_create_table (one_column_sql ''visit'') \<noteq> None"
    using read_built_table [OF one_column_text, of "''visit''"] by (simp add: one_column_def bare_collection_def)
  then show ?thesis by (simp add: indexable_def diary_ok one_column_sel visit_facts visit_columns) (simp add: diary_def)
qed

lemma by_at_free: "\<not> taken diary ''by_at''"
  by (simp add: taken_def diary_def all_indexes_def made_index_def diary_facts) (simp add: foldASCII_def ascii_lower_def timeMarkerTable_def)

lemma by_at_run:
  obtains s ix where "buildCreateIndexSQL (on_collection ''visit'' by_at) no_options = Inr s"
    "catalog_exec s [] diary = Changed (add_index ''visit'' ix diary)" "ie_name ix = ''by_at''" "ie_origin ix = ''c''"
proof -
  let ?i = "\<lparr>pi_Unique = False, pi_Name = ''by_at'', pi_Table = ''visit'', pi_Columns = [''at'']\<rparr>"
  obtain s where s: "buildCreateIndexSQL (on_collection ''visit'' by_at) no_options = Inr s"
    by (cases "buildCreateIndexSQL (on_collection ''visit'' by_at) no_options") (auto simp: buildCreateIndexSQL_def on_collection_def by_at_def)
  have "pi_Table ?i = oe_name (one_column_table ''visit'')" "set (pi_Columns ?i) \<subseteq> set (map ce_name (oe_columns (one_column_table ''visit'')))"
    by (simp_all add: one_column_sel visit_columns)
  moreover have "exec_index ?i s diary \<noteq> Refused"
    by (simp add: exec_index_def visit_facts one_column_sel sqlite_reserved_def Let_def by_at_free alter_folds diary_folds)
  ultimately obtain ix where ix: "exec_index ?i s diary = Changed (add_index ''visit'' ix diary)" "ie_name ix = ''by_at''" "ie_origin ix = ''c''"
    using exec_index_Changed [OF diary_indexable, of ?i s] by (auto simp: catalog_index_def one_column_sel)
  then have "catalog_exec s [] diary = Changed (add_index ''visit'' ix diary)"
    using catalog_exec_index [OF s] by (simp add: on_collection_def by_at_def)
  then show thesis using that s ix(2,3) by blast
qed

lemma by_at_runs:
  "\<exists>q r. AlterCollection ddl_engine ''visit'' [run_call (Add_Index by_at no_options)] (one_connection (diary, diary)) = (Ok (), q) \<and>
    AlterCollection ddl_engine ''log'' [run_call (Drop_Index ''BY_AT'' no_options)] q = (Ok (), r)"
proof -
  let ?p = "one_connection (diary, diary)"
  obtain s ix where s: "buildCreateIndexSQL (on_collection ''visit'' by_at) no_options = Inr s"
      "catalog_exec s [] diary = Changed (add_index ''visit'' ix diary)" "ie_name ix = ''by_at''" "ie_origin ix = ''c''"
    by (rule by_at_run)
  let ?cat = "add_index ''visit'' ix diary"
  have "run_call (Add_Index by_at no_options) (sqliteAlterApplier ddl_engine ''visit'') (in_tx_pool ?p (fst (pl_db ?p), fst (pl_db ?p))) =
      (Ok (), (in_tx_pool ?p (diary, diary))\<lparr>pl_db := (?cat, diary)\<rparr>)"
    using step_runs [OF s(2), of diary]
    by (simp add: sqliteAlterApplier_def ApplyAddIndex_def s(1) conn_exec_def io_wrap_def diary_pool)
  from alter_runs [OF this diary_pool(1)]
  obtain q where q: "AlterCollection ddl_engine ''visit'' [run_call (Add_Index by_at no_options)] ?p = (Ok (), q)"
      "pl_db q = (?cat, diary)" "pl_open q = []" by auto
  have "find (\<lambda>ix. foldASCII (ie_name ix) = ''by_at'') (all_indexes ?cat) = Some ix"
    using s(3) by_at_free by (simp add: all_indexes_def add_index_def diary_def taken_def diary_facts alter_folds made_index_def eq_commute)
  then have "catalog_exec (buildDropIndexSQL ''BY_AT'' no_options) [] ?cat = Changed (remove_index ''BY_AT'' ?cat)"
    by (simp add: catalog_exec_alter(4) exec_drop_index_def alter_folds s(4) sqlite_reserved_def)
  from step_runs [OF this, of ?cat]
  have "\<exists>r. run_call (Drop_Index ''BY_AT'' no_options) (sqliteAlterApplier ddl_engine ''log'') (in_tx_pool q (fst (pl_db q), fst (pl_db q))) = (Ok (), r)"
    by (simp add: sqliteAlterApplier_def ApplyDropIndex_def conn_exec_def io_wrap_def q(2))
  then show ?thesis using alter_runs [OF _ q(3)] q(1) by blast
qed

theorem index_round_trip_witness:
  "\<exists>q r d d'. AlterCollection ddl_engine ''visit'' [run_call (Add_Index by_at no_options)] (one_connection (diary, diary)) = (Ok (), q) \<and>
     AlterCollection ddl_engine ''log'' [run_call (Drop_Index ''BY_AT'' no_options)] q = (Ok (), r) \<and>
     fst (DescribeCollection ddl_engine False ''visit'' q) = Ok d' \<and>
     cd_Indexes d' = by_at\<lparr>ix_Collection := ''visit''\<rparr> # cd_Indexes d \<and>
     fst (DescribeCollection ddl_engine False ''visit'' r) = Ok d"
proof -
  let ?p = "one_connection (diary, diary)"
  obtain q r where run: "AlterCollection ddl_engine ''visit'' [run_call (Add_Index by_at no_options)] ?p = (Ok (), q)"
      "AlterCollection ddl_engine ''log'' [run_call (Drop_Index ''BY_AT'' no_options)] q = (Ok (), r)"
    by (rule exE [OF by_at_runs], elim exE conjE) (rule that)
  obtain d where d: "fst (DescribeCollection ddl_engine False ''visit'' ?p) = Ok d"
    by (rule exE [OF diary_described], elim conjE) (rule that)
  have facts: "indexable (fst (pl_db ?p)) (one_column_table ''visit'')" "oe_name (one_column_table ''visit'') = ''visit''"
    "ix_Collection by_at = [] \<or> ix_Collection by_at = ''visit''" "set (ix_Fields by_at) \<subseteq> ce_name ` set (oe_columns (one_column_table ''visit''))"
    "foldASCII ''BY_AT'' = foldASCII (ix_Name by_at)" "\<not> sqlite_reserved ''BY_AT''"
    by (simp_all add: diary_pool diary_indexable one_column_sel by_at_def visit_columns alter_folds sqlite_reserved_def)
  have both: "(\<forall>d. fst (DescribeCollection ddl_engine False ''visit'' ?p) = Ok d \<longrightarrow>
      (\<exists>d'. fst (DescribeCollection ddl_engine False ''visit'' q) = Ok d' \<and>
         d' = d\<lparr>cd_Indexes := by_at\<lparr>ix_Collection := ''visit''\<rparr> # cd_Indexes d, cd_SourceDefinition := cd_SourceDefinition d'\<rparr>)) \<and>
    (\<forall>lenient m. fst (DescribeCollection ddl_engine lenient m r) = fst (DescribeCollection ddl_engine lenient m ?p))"
    by (rule index_round_trip [OF ddl_engine_executes diary_pool(1) facts(1-4) run(1) facts(5,6) run(2)])
  obtain d' where d': "fst (DescribeCollection ddl_engine False ''visit'' q) = Ok d'"
      "d' = d\<lparr>cd_Indexes := by_at\<lparr>ix_Collection := ''visit''\<rparr> # cd_Indexes d, cd_SourceDefinition := cd_SourceDefinition d'\<rparr>"
    by (rule exE [OF mp [OF spec [OF conjunct1 [OF both]] d]], elim conjE) (rule that)
  have "cd_Indexes d' = by_at\<lparr>ix_Collection := ''visit''\<rparr> # cd_Indexes d" by (subst d'(2)) simp
  moreover have "fst (DescribeCollection ddl_engine False ''visit'' r) = Ok d" using both d by simp
  ultimately show ?thesis by (intro exI conjI) (rule run(1), rule run(2), rule d'(1))
qed

section \<open>Two changes at once\<close>

definition two_changes :: "alter_call list" where
  "two_changes = [Add_Field (field ''note'' Type_Int) no_options, Rename_Field ''at'' ''when'' no_options]"

lemma two_changes_run:
  "\<exists>q. AlterCollection ddl_engine ''visit'' (map run_call two_changes) (one_connection (diary, diary)) = (Ok (), q)"
proof -
  let ?p = "in_tx_pool (one_connection (diary, diary)) (diary, diary)"
  have "exec_rename_column ''visit'' ''at'' ''when'' noted_diary = Rewritten (rename_in_catalog ''visit'' ''at'' ''when'' noted_diary)"
    using noted_facts(3)
    by (simp add: exec_rename_column_def on_column_table_def noted_facts noted_table_sel visit_facts(4) alterable_def visit_columns
        spelled_def note_column_sel diary_folds alter_folds)
  then have "catalog_exec (buildAlterTableRenameColumnSQL ''visit'' ''at'' ''when'') [] noted_diary =
      Rewritten (rename_in_catalog ''visit'' ''at'' ''when'' noted_diary)"
    by (simp add: catalog_exec_alter(3))
  from step_rewritten [OF this, of diary]
  have "\<exists>r. run_call (Rename_Field ''at'' ''when'' no_options) (sqliteAlterApplier ddl_engine ''visit'') (?p\<lparr>pl_db := (noted_diary, diary)\<rparr>) = (Ok (), r)"
    by (simp add: sqliteAlterApplier_def ApplyRenameField_def exec_then_ignore)
  then obtain r where "alter_body ddl_engine ''visit'' (map run_call two_changes) ?p = (Ok (), r)"
    using note_call [of ?p] by (auto simp: two_changes_def alter_body_def io_bind_def io_return_def)
  then show ?thesis
    using alter_body_runs [of "''visit''" two_changes "one_connection (diary, diary)"] by (auto simp: diary_pool)
qed

lemma two_changes_made:
  "fold altered two_changes (one_column_table ''visit'', {''at''}) = (rename_column ''at'' ''when'' noted_table, {''when''})"
proof -
  have "fd_Type (field ''note'' Type_Int) = Type_Int" by (simp add: field_def)
  then show ?thesis by (simp add: two_changes_def noted_table_def note_column_def moved_marks_def)
qed

lemma ddl_engine_alters: "alters_tables ddl_engine fst"
  using ddl_engine_executes ddl_engine_heeds by (simp add: alters_tables_def stays_ended_def ddl_engine_def)

theorem AlterCollection_describe_witness:
  "\<exists>q d. AlterCollection ddl_engine ''visit'' (map run_call two_changes) (one_connection (diary, diary)) = (Ok (), q) \<and>
     fst (DescribeCollection ddl_engine False ''visit'' q) = Ok d \<and>
     map field_kind (cd_Fields d) = [(''when'', Type_Time, None), (''note'', Type_Int, None)]"
proof -
  let ?p = "one_connection (diary, diary)" and ?state = "(rename_column ''at'' ''when'' noted_table, {''when''})"
  obtain q where q: "AlterCollection ddl_engine ''visit'' (map run_call two_changes) ?p = (Ok (), q)"
    using two_changes_run by blast
  have facts: "diary = fst (pl_db ?p)" "oe_name (one_column_table ''visit'') = ''visit''" "oe_kind (one_column_table ''visit'') = Table"
    "apart ''visit'' (one_column_table ''visit'')" "list_all by_columns two_changes"
    by (simp_all add: diary_pool one_column_sel apart_def two_changes_def)
  have state: "?state = fold altered two_changes (one_column_table ''visit'', spec_markers diary ''visit'')"
    by (simp add: diary_marks two_changes_made)
  have columns: "visible (rename_column ''at'' ''when'' noted_table) = map (renamed_column ''at'' ''when'') (visible (one_column_table ''visit'') @ [note_column])"
    by (simp add: rename_column_parts noted_table_sel)
  have described: "((\<exists>d. fst (DescribeCollection ddl_engine False ''visit'' q) = Ok d) \<longleftrightarrow> describable ?state) \<and>
      (\<forall>d. fst (DescribeCollection ddl_engine False ''visit'' q) = Ok d \<longrightarrow> described_as diary ''visit'' ?state d)"
    by (rule AlterCollection_describe [OF ddl_engine_alters facts(1) diary_ok(1,2) diary_pool(1) visit_facts(6,1) facts(2-5) q state])
  have "describable ?state"
    by (simp add: describable_def columns rename_column_parts(5) noted_table_sel(7) visit_columns renamed_name_def note_column_sel unreadable_def
        recognized_def declared_types_read diary_folds alter_folds)
  then obtain d where d: "fst (DescribeCollection ddl_engine False ''visit'' q) = Ok d" "described_as diary ''visit'' ?state d"
    using described by blast
  have "map field_kind (cd_Fields d) = [(''when'', Type_Time, None), (''note'', Type_Int, None)]"
    using d(2) by (simp add: described_as_def columns visit_columns column_kind_def renamed_name_def note_column_sel spec_type_def
        declared_types_read diary_folds alter_folds)
  then show ?thesis by (intro exI conjI) (rule q, rule d(1))
qed

end
