(* ===== verification/Source_Checks.thy ===== *)
theory Source_Checks
  imports Reader_Runs
begin

text \<open>
  source_constraints.go: SQLite's own integrity and foreign key checks of the source, on one connection
  on which the enforcement of CHECK constraints is switched on for the time of the check.
\<close>

section \<open>The check\<close>

definition read_ignore_sql :: string where "read_ignore_sql = ''PRAGMA ignore_check_constraints''"
definition ignore_off_sql :: string where "ignore_off_sql = ''PRAGMA ignore_check_constraints=OFF''"
definition ignore_on_sql :: string where "ignore_on_sql = ''PRAGMA ignore_check_constraints=ON''"
definition integrity_sql :: string where "integrity_sql = ''PRAGMA integrity_check''"
definition fk_check_sql :: string where "fk_check_sql = ''PRAGMA foreign_key_check''"

definition integrity_step :: "bool \<Rightarrow> sqlval list \<Rightarrow> err + bool" where
  "integrity_step seenOK row =
     result_bind (result_wrap ''dalgo2sqlite: source integrity result: %w'' [] (scan_name row))
       (\<lambda>result. if result \<noteq> ''ok''
          then Inl (Newf ''dalgo2sqlite: source integrity violation: %s'' [Str result])
          else Inr True)"

text \<open>A sql.NullInt64 in the format %v.\<close>

definition null_int_text :: "int option \<Rightarrow> string" where
  "null_int_text r = (case r of None \<Rightarrow> ''{0 false}'' | Some i \<Rightarrow> ''{'' @ show_int i @ '' true}'')"

definition violation_error :: "sqlval list \<Rightarrow> err" where
  "violation_error row =
     (case scan_row 4 (scan_col scan_string (scan_col scan_null_int (scan_col scan_string (scan_col scan_int scan_nil)))) row
      of Inl e \<Rightarrow> Wrapf ''dalgo2sqlite: source foreign-key violation scan: %w'' [] e
       | Inr (table, rowID, parent, keyID, _) \<Rightarrow>
           Newf ''dalgo2sqlite: source foreign-key violation in %q rowid %v references %q constraint %d''
             [Str table, Str (null_int_text rowID), Str parent, Num keyID])"

definition check_rows :: "'d engine \<Rightarrow> ('d, unit) io" where
  "check_rows E =
     io_bind
       (conn_read E integrity_sql []
          (Some (''dalgo2sqlite: source integrity check: %w'', []))
          (Some (''dalgo2sqlite: source integrity rows: %w'', [])) integrity_step False)
     (\<lambda>seenOK. if \<not> seenOK then io_fail (Newf ''dalgo2sqlite: source integrity check returned no result'' [])
        else io_bind
          (io_context (Some (''dalgo2sqlite: source foreign-key check: %w'', [])) (conn_query E fk_check_sql []))
          (\<lambda>foreignKeys. io_finally
             (case rs_rows (snd foreignKeys) of
                row # _ \<Rightarrow> io_fail (violation_error row)
              | [] \<Rightarrow> io_wrap ''dalgo2sqlite: source foreign-key rows: %w'' [] (rows_err foreignKeys))
             (rows_close foreignKeys)))"

text \<open>
  The deferred function that restores the setting: its own error is the result only when there is none
  yet.
\<close>

definition restoring_checks :: "'d engine \<Rightarrow> ('d, unit) io \<Rightarrow> ('d, unit) io" where
  "restoring_checks E m = (\<lambda>p.
     case m p of
       (Blocked, q) \<Rightarrow> (Blocked, q)
     | (Fail e, q) \<Rightarrow> (Fail e, snd (conn_exec E ignore_on_sql [] q))
     | (Ok _, q) \<Rightarrow>
         (case conn_exec E ignore_on_sql [] q of
            (Fail e, q') \<Rightarrow> (Fail (Wrapf ''dalgo2sqlite: restore source CHECK setting: %w'' [] e), q')
          | r \<Rightarrow> r))"

definition CheckSourceConstraints :: "'d engine \<Rightarrow> ('d, unit) io" where
  "CheckSourceConstraints E =
     io_bind (io_wrap ''dalgo2sqlite: source constraint connection: %w'' [] db_conn) (\<lambda>conn. io_finally
       (io_bind
         (io_wrap ''dalgo2sqlite: source CHECK enforcement state: %w'' []
            (conn_query_row E read_ignore_sql [] (scan_row 1 (scan_col scan_int scan_nil))))
         (\<lambda>(ignoreChecks, _).
            if ignoreChecks \<noteq> 0
            then io_bind
              (io_wrap ''dalgo2sqlite: enable source CHECK validation: %w'' [] (conn_exec E ignore_off_sql []))
              (\<lambda>_. restoring_checks E (check_rows E))
            else check_rows E))
       (conn_close conn))"

section \<open>Use of the pool\<close>

lemma keeps_open_check_rows [keep_rules]: "keeps_open (check_rows E)"
  unfolding check_rows_def
proof (rule keeps_open_bind)
  show "keeps_open (conn_read E integrity_sql []
      (Some (''dalgo2sqlite: source integrity check: %w'', []))
      (Some (''dalgo2sqlite: source integrity rows: %w'', [])) integrity_step False)"
    by (rule keep_rules)
  show "keeps_open (if \<not> seenOK then io_fail (Newf ''dalgo2sqlite: source integrity check returned no result'' [])
     else io_bind (io_context (Some (''dalgo2sqlite: source foreign-key check: %w'', [])) (conn_query E fk_check_sql []))
       (\<lambda>foreignKeys. io_finally
          (case rs_rows (snd foreignKeys) of row # _ \<Rightarrow> io_fail (violation_error row)
           | [] \<Rightarrow> io_wrap ''dalgo2sqlite: source foreign-key rows: %w'' [] (rows_err foreignKeys))
          (rows_close foreignKeys)))" for seenOK
    by (auto intro!: keep_rules split: list.splits)
qed

lemma keeps_open_restoring [keep_rules]:
  assumes "keeps_open m"
  shows "keeps_open (restoring_checks E m)"
  unfolding keeps_open_def
proof (intro allI pool_tripleI)
  fix A and p :: "'a pool" assume p: "set (pl_open p) \<subseteq> A"
  have exec: "pool_triple A A (conn_exec E ignore_on_sql []) (\<lambda>_. A)"
    by (simp add: pool_triple_conn_exec)
  have "pool_triple A A m (\<lambda>_. A)"
    using assms by (simp add: keeps_open_def)
  then show "pool_post A (\<lambda>_. A) (restoring_checks E m p)"
    using p
  proof (cases rule: pool_tripleE)
    case (ok x q)
    from exec ok(2) show ?thesis
      by (cases rule: pool_tripleE) (auto simp: restoring_checks_def ok(1))
  next
    case (fail e q)
    from exec fail(2) show ?thesis
      by (cases rule: pool_tripleE) (auto simp: restoring_checks_def fail(1))
  qed
qed

lemma pool_safe_CheckSourceConstraints [pool_rules]: "pool_safe (CheckSourceConstraints E)"
  unfolding CheckSourceConstraints_def
  by (rule pool_safe_with_conn) (auto intro!: keep_rules split: prod.splits)

section \<open>The setting of the connection\<close>

text \<open>
  \<open>leaves S m\<close>: whatever the outcome of \<open>m\<close>, a database in \<open>S\<close> stays in \<open>S\<close>. Closing rows and connections
  does not touch the database.
\<close>

definition leaves :: "('d \<Rightarrow> bool) \<Rightarrow> ('d, 'a) io \<Rightarrow> bool" where
  "leaves S m \<longleftrightarrow> (\<forall>p. S (pl_db p) \<longrightarrow> S (pl_db (snd (m p))))"

named_theorems leave_rules \<open>rules for a property of the database that effects keep\<close>

lemma db_rows_close [simp]: "pl_db (rows_close h p) = pl_db p" "pl_db (conn_close c p) = pl_db p"
  by (simp_all add: rows_close_def conn_close_def split: option.splits)

lemma leaves_return [leave_rules]: "leaves S (io_return x)"
  and leaves_fail [leave_rules]: "leaves S (io_fail e)"
  and leaves_conn [leave_rules]: "leaves S db_conn"
  and leaves_each [leave_rules]: "leaves S (rows_each h step acc)"
  by (auto simp: leaves_def db_conn_def rows_each_def split: sum.splits)

lemma leaves_lift [leave_rules]: "leaves S (io_lift r)"
  by (cases r) (simp_all add: leaves_return leaves_fail)

lemma leaves_rows_err [leave_rules]: "leaves S (rows_err h)"
  by (auto simp: rows_err_def intro: leave_rules split: option.splits)

lemma leaves_bind [leave_rules]: "leaves S m \<Longrightarrow> (\<And>x. leaves S (f x)) \<Longrightarrow> leaves S (io_bind m f)"
  by (fastforce simp: leaves_def io_bind_def split: prod.split outcome.split)

lemma leaves_wrap [leave_rules]: "leaves S m \<Longrightarrow> leaves S (io_wrap f args m)"
  by (fastforce simp: leaves_def io_wrap_def split: prod.split outcome.split)

lemma leaves_context [leave_rules]: "leaves S m \<Longrightarrow> leaves S (io_context ctx m)"
  by (auto simp: io_context_def leaves_wrap split: option.splits)

lemma leaves_finally:
  assumes "leaves S m" "\<And>p. pl_db (cleanup p) = pl_db p"
  shows "leaves S (io_finally m cleanup)"
  using assms by (fastforce simp: leaves_def io_finally_def split: prod.split outcome.split)

lemma leaves_rows_finally [leave_rules]: "leaves S m \<Longrightarrow> leaves S (io_finally m (rows_close h))"
  and leaves_conn_finally [leave_rules]: "leaves S m' \<Longrightarrow> leaves S (io_finally m' (conn_close c))"
  by (auto intro: leaves_finally)

text \<open>
  What SQLite documents of the setting: queries do not change it, the pragma reads it, and a statement
  that sets it sets it when it succeeds and changes nothing when it fails.
\<close>

definition check_setting :: "'d engine \<Rightarrow> ('d \<Rightarrow> bool) \<Rightarrow> bool" where
  "check_setting E ignoring \<longleftrightarrow>
     (\<forall>q args d. ignoring (snd (eng_query E q args d)) = ignoring d) \<and>
     (\<forall>d rs. fst (eng_query E read_ignore_sql [] d) = Inr rs \<longrightarrow> rs_rows rs = [[V_Int (if ignoring d then 1 else 0)]]) \<and>
     (\<forall>d. ignoring (snd (eng_exec E ignore_off_sql [] d)) =
        (if fst (eng_exec E ignore_off_sql [] d) = None then False else ignoring d)) \<and>
     (\<forall>d. ignoring (snd (eng_exec E ignore_on_sql [] d)) =
        (if fst (eng_exec E ignore_on_sql [] d) = None then True else ignoring d))"

lemma leaves_setting_query [leave_rules]:
  "check_setting E ignoring \<Longrightarrow> leaves (\<lambda>d. ignoring d = b) (conn_query E q args)"
  unfolding check_setting_def leaves_def conn_query_def
  by (auto split: prod.split sum.split) (metis snd_conv)+

lemma leaves_setting_checks:
  assumes "check_setting E ignoring"
  shows "leaves (\<lambda>d. ignoring d = b) (check_rows E)"
  unfolding check_rows_def conn_read_def rows_drain_def
  by (rule leaves_bind) (auto intro!: leave_rules assms split: list.split)

lemma exec_on:
  "check_setting E ignoring \<Longrightarrow>
   (\<exists>e. fst (conn_exec E ignore_on_sql [] q) = Fail e \<and> fst (eng_exec E ignore_on_sql [] (pl_db q)) = Some e \<and>
      ignoring (pl_db (snd (conn_exec E ignore_on_sql [] q))) = ignoring (pl_db q)) \<or>
   fst (conn_exec E ignore_on_sql [] q) = Ok () \<and> ignoring (pl_db (snd (conn_exec E ignore_on_sql [] q)))"
  unfolding check_setting_def conn_exec_def
  by (cases "eng_exec E ignore_on_sql [] (pl_db q)"; cases "fst (eng_exec E ignore_on_sql [] (pl_db q))")
    (auto, (metis fst_conv option.distinct(1) snd_conv)+)

text \<open>The body of CheckSourceConstraints on its connection.\<close>

definition checks_on_conn :: "'d engine \<Rightarrow> ('d, unit) io" where
  "checks_on_conn E =
     io_bind
       (io_wrap ''dalgo2sqlite: source CHECK enforcement state: %w'' []
          (conn_query_row E read_ignore_sql [] (scan_row 1 (scan_col scan_int scan_nil))))
       (\<lambda>(ignoreChecks, _).
          if ignoreChecks \<noteq> 0
          then io_bind
            (io_wrap ''dalgo2sqlite: enable source CHECK validation: %w'' [] (conn_exec E ignore_off_sql []))
            (\<lambda>_. restoring_checks E (check_rows E))
          else check_rows E)"

lemma CheckSourceConstraints_on_conn:
  "CheckSourceConstraints E =
     io_bind (io_wrap ''dalgo2sqlite: source constraint connection: %w'' [] db_conn)
       (\<lambda>conn. io_finally (checks_on_conn E) (conn_close conn))"
  by (simp add: CheckSourceConstraints_def checks_on_conn_def)

lemma keeps_open_checks_on_conn: "keeps_open (checks_on_conn E)"
  by (auto simp: checks_on_conn_def intro!: keep_rules split: prod.splits)

lemma keeps_open_not_blocked: "keeps_open m \<Longrightarrow> fst (m p) \<noteq> Blocked"
  unfolding keeps_open_def
  by (drule spec [of _ "set (pl_open p)"], erule pool_tripleE [of _ _ _ _ p]) auto

lemma read_setting:
  assumes "check_setting E ignoring"
  defines "m \<equiv> conn_query_row E read_ignore_sql [] (scan_row 1 (scan_col scan_int scan_nil))"
  obtains (fails) e q where "m p = (Fail e, q)" "ignoring (pl_db q) = ignoring (pl_db p)"
    | (reads) q where "m p = (Ok (if ignoring (pl_db p) then 1 else 0, ()), q)" "ignoring (pl_db q) = ignoring (pl_db p)"
proof -
  obtain r d where r: "eng_query E read_ignore_sql [] (pl_db p) = (r, d)" by fastforce
  have d: "ignoring d = ignoring (pl_db p)"
    using assms(1) r unfolding check_setting_def by (metis snd_conv)
  show thesis
  proof (cases r)
    case (Inl e)
    then show thesis
      using fails [of e "p\<lparr>pl_db := d\<rparr>"] r d by (simp add: m_def conn_query_row_def conn_query_def io_bind_def)
  next
    case (Inr rs)
    then have rows: "rs_rows rs = [[V_Int (if ignoring (pl_db p) then 1 else 0)]]"
      using assms(1) r unfolding check_setting_def by (metis fst_conv)
    show thesis
    proof (cases "rs_close rs")
      case None
      then show thesis
        using reads [of "p\<lparr>pl_db := d\<rparr>"] r d Inr rows
        by (simp add: m_def conn_query_row_def conn_query_def io_bind_def first_row_def scan_row_def int64_range_def)
    next
      case (Some e)
      then show thesis
        using fails [of e "p\<lparr>pl_db := d\<rparr>"] r d Inr rows
        by (simp add: m_def conn_query_row_def conn_query_def io_bind_def first_row_def scan_row_def int64_range_def)
    qed
  qed
qed

text \<open>C17: CheckSourceConstraints restores the setting ignore_check_constraints on every path: the setting
  after it is the setting before it, whatever queries fail and whatever violation is found, unless the
  setting was on and the statement that restores it failed; and then the call reports an error.\<close>

theorem CheckSourceConstraints_restores:
  assumes "check_setting E ignoring"
  shows "ignoring (pl_db (snd (CheckSourceConstraints E p))) = ignoring (pl_db p) \<or>
    ignoring (pl_db p) \<and> (\<exists>e d e'. fst (CheckSourceConstraints E p) = Fail e \<and>
       fst (eng_exec E ignore_on_sql [] d) = Some e')"
proof -
  let ?kept = "\<lambda>r p q. ignoring (pl_db q) = ignoring (pl_db p) \<or>
    ignoring (pl_db p) \<and> (\<exists>e d e'. r = Fail e \<and> fst (eng_exec E ignore_on_sql [] d) = Some e')"
  have rows: "ignoring (pl_db (snd (check_rows E p))) = ignoring (pl_db p)" for p
    using leaves_setting_checks [OF assms, of "ignoring (pl_db p)"] by (simp add: leaves_def)
  have restore: "?kept r p q"
    if "restoring_checks E (check_rows E) p' = (r, q)" "ignoring (pl_db p)" "\<not> ignoring (pl_db p')" "r \<noteq> Blocked" for r p p' q
    using that exec_on [OF assms, of "snd (check_rows E p')"]
    by (cases "check_rows E p'"; cases "fst (check_rows E p')")
      (auto simp: restoring_checks_def split: prod.splits outcome.splits)
  have "?kept r p q" if run: "checks_on_conn E p = (r, q)" and blocked: "r \<noteq> Blocked" for r p q
    using assms
  proof (cases rule: read_setting [where p = p])
    case (fails e q')
    then show ?thesis using run by (simp add: checks_on_conn_def io_bind_def io_wrap_def)
  next
    case (reads q')
    show ?thesis
    proof (cases "ignoring (pl_db p)")
      case False
      then show ?thesis using run reads rows [of q'] by (simp add: checks_on_conn_def io_bind_def io_wrap_def)
    next
      case True
      obtain r' q'' where off: "conn_exec E ignore_off_sql [] q' = (r', q'')" by fastforce
      then have "(\<exists>e. r' = Fail e) \<and> ignoring (pl_db q'') = ignoring (pl_db q') \<or> r' = Ok () \<and> \<not> ignoring (pl_db q'')"
        using assms unfolding check_setting_def conn_exec_def
        by (cases "eng_exec E ignore_off_sql [] (pl_db q')"; cases "fst (eng_exec E ignore_off_sql [] (pl_db q'))")
          (auto, (metis fst_conv option.distinct(1) snd_conv)+)
      then show ?thesis
        using run reads True off blocked restore [of q'' r q p]
        by (auto simp: checks_on_conn_def io_bind_def io_wrap_def)
    qed
  qed
  note body = this
  show ?thesis
  proof (cases "fst (db_conn p)")
    case (Ok c)
    then obtain p1 where conn: "db_conn p = (Ok c, p1)" "pl_db p1 = pl_db p"
      by (auto simp: db_conn_def split: if_splits)
    obtain r q where run: "checks_on_conn E p1 = (r, q)" by fastforce
    with keeps_open_not_blocked [OF keeps_open_checks_on_conn, of E p1] have "r \<noteq> Blocked" by simp
    with body [OF run] conn run show ?thesis
      by (cases r) (simp_all add: CheckSourceConstraints_on_conn io_bind_def io_wrap_def io_finally_def)
  qed (auto simp: CheckSourceConstraints_on_conn io_bind_def io_wrap_def db_conn_def split: if_splits)
qed

text \<open>
  A connection that ignores CHECK constraints, and a table with a row that violates one: the integrity
  check reports it only while they are not ignored.
\<close>

definition violated_engine :: "bool engine" where
  "violated_engine =
     \<lparr>eng_query = (\<lambda>q args d.
        (Inr (all_rows
          (if q = read_ignore_sql then [[V_Int (if d then 1 else 0)]]
           else if q = integrity_sql then [[V_Text (if d then ''ok'' else ''CHECK constraint failed in t'')]]
           else [])), d)),
      eng_exec = (\<lambda>q args d. (None, if q = ignore_on_sql then True else if q = ignore_off_sql then False else d)),
      eng_begin = (\<lambda>d. (None, d)), eng_commit = (\<lambda>d. (None, d)), eng_rollback = (\<lambda>d. (None, d))\<rparr>"

lemma violated_engine_setting: "check_setting violated_engine id"
  by (simp add: check_setting_def violated_engine_def ignore_on_sql_def ignore_off_sql_def)

theorem CheckSourceConstraints_restores_witness:
  "fst (CheckSourceConstraints violated_engine (one_connection True)) =
     Fail (Newf ''dalgo2sqlite: source integrity violation: %s'' [Str ''CHECK constraint failed in t'']) \<and>
   pl_db (snd (CheckSourceConstraints violated_engine (one_connection True)))"
proof -
  have "fst (CheckSourceConstraints violated_engine (one_connection True)) =
     Fail (Newf ''dalgo2sqlite: source integrity violation: %s'' [Str ''CHECK constraint failed in t''])"
    by code_simp
  moreover have "fst (eng_exec violated_engine ignore_on_sql [] d) = None" for d
    by (simp add: violated_engine_def)
  ultimately show ?thesis
    using CheckSourceConstraints_restores [OF violated_engine_setting, of "one_connection True"]
    by (auto simp: one_connection_def)
qed

section \<open>The verdict\<close>

lemma integrity_fold:
  "(\<exists>e. rows_fold integrity_step seen irows = Inl e) \<and> (\<exists>row \<in> set irows. scan_name row \<noteq> Inr ''ok'') \<or>
   rows_fold integrity_step seen irows = Inr (seen \<or> irows \<noteq> []) \<and> (\<forall>row \<in> set irows. scan_name row = Inr ''ok'')"
proof (induction irows arbitrary: seen)
  case (Cons row irows)
  show ?case
  proof (cases "scan_name row = Inr ''ok''")
    case True
    then show ?thesis using Cons.IH [of True] by (auto simp: integrity_step_def)
  next
    case False
    then have "\<exists>e. integrity_step seen row = Inl e"
      by (cases "scan_name row") (auto simp: integrity_step_def)
    then show ?thesis using False by auto
  qed
qed simp

lemma runs_conn_read_fail:
  assumes "answers E d q args rows" "rows_fold step acc rows = Inl e"
  shows "runs d C (conn_read E q args cq ce step acc) (Fail e) C"
proof (rule runsI)
  fix p :: "'a pool" assume p: "pl_db p = d" "pl_open p = C"
  have "io_context cq (conn_query E q args) p = (Ok (None, all_rows rows), p)"
    using assms(1) p by (intro context_Ok) (simp add: conn_query_def answers_def)
  then show "\<exists>q'. conn_read E q args cq ce step acc p = (Fail e, q') \<and> pl_db q' = d \<and> pl_open q' = C"
    using assms(2) p
    by (simp add: conn_read_def rows_drain_def io_bind_def io_finally_def rows_each_def rows_close_def)
qed

lemma runs_check_rows:
  assumes "answers E d integrity_sql [] irows" "answers E d fk_check_sql [] frows"
  shows "\<exists>r. runs d C (check_rows E) r C \<and> r \<noteq> Blocked \<and>
    (r = Ok () \<longleftrightarrow> irows \<noteq> [] \<and> (\<forall>row \<in> set irows. scan_name row = Inr ''ok'') \<and> frows = [])"
proof -
  let ?fk = "\<lambda>foreignKeys. io_finally
    (case rs_rows (snd foreignKeys) of
       row # _ \<Rightarrow> io_fail (violation_error row)
     | [] \<Rightarrow> io_wrap ''dalgo2sqlite: source foreign-key rows: %w'' [] (rows_err foreignKeys))
    (rows_close foreignKeys)"
  let ?f = "case frows of [] \<Rightarrow> Ok () | row # _ \<Rightarrow> Fail (violation_error row)"
  have fk: "runs d C (io_bind (io_context ctx (conn_query E fk_check_sql [])) ?fk) ?f C" for ctx
  proof (rule runsI)
    fix p :: "'a pool" assume p: "pl_db p = d" "pl_open p = C"
    have "io_context ctx (conn_query E fk_check_sql []) p = (Ok (None, all_rows frows), p)"
      using assms(2) p by (intro context_Ok) (simp add: conn_query_def answers_def)
    then show "\<exists>q. io_bind (io_context ctx (conn_query E fk_check_sql [])) ?fk p = (?f, q) \<and> pl_db q = d \<and> pl_open q = C"
      using p by (cases frows) (auto simp: io_bind_def io_finally_def rows_close_def rows_err_def io_wrap_def)
  qed
  from integrity_fold [of False irows] show ?thesis
  proof (elim disjE conjE exE)
    fix e assume "rows_fold integrity_step False irows = Inl e" "\<exists>row \<in> set irows. scan_name row \<noteq> Inr ''ok''"
    then show ?thesis
      unfolding check_rows_def
      by (intro exI [of _ "Fail e"]) (auto intro!: runs_bind_fail runs_conn_read_fail [OF assms(1)])
  next
    assume fold: "rows_fold integrity_step False irows = Inr (False \<or> irows \<noteq> [])"
      and ok: "\<forall>row \<in> set irows. scan_name row = Inr ''ok''"
    show ?thesis
    proof (cases "irows = []")
      case True
      have "runs d C (check_rows E) (Fail (Newf ''dalgo2sqlite: source integrity check returned no result'' [])) C"
        unfolding check_rows_def
        by (rule runs_bind [OF runs_conn_read [OF assms(1) fold]]) (simp add: True runs_fail)
      then show ?thesis using True by auto
    next
      case False
      have "runs d C (check_rows E) ?f C"
        unfolding check_rows_def
        by (rule runs_bind [OF runs_conn_read [OF assms(1) fold]]) (simp add: False fk)
      then show ?thesis using False ok by (cases frows) auto
    qed
  qed
qed

text \<open>C29: CheckSourceConstraints accepts exactly the sources that SQLite accepts with CHECK enforcement on:
  it succeeds if and only if integrity_check reports at least one row and nothing but "ok", and
  foreign_key_check reports nothing, both asked while CHECK constraints are not ignored; it leaves the
  database as it was and gives the connection back.\<close>

theorem CheckSourceConstraints_verdict:
  assumes "answers E (pl_db p) read_ignore_sql [] [[V_Int (if ig then 1 else 0)]]"
    and "if ig then eng_exec E ignore_off_sql [] (pl_db p) = (None, checked) \<and>
        eng_exec E ignore_on_sql [] checked = (None, pl_db p)
      else checked = pl_db p"
    and "answers E checked integrity_sql [] irows" "answers E checked fk_check_sql [] frows"
    and "pl_open p = []"
  shows "\<exists>r q. CheckSourceConstraints E p = (r, q) \<and> pl_db q = pl_db p \<and> pl_open q = [] \<and> r \<noteq> Blocked \<and>
    (r = Ok () \<longleftrightarrow> irows \<noteq> [] \<and> (\<forall>row \<in> set irows. scan_name row = Inr ''ok'') \<and> frows = [])"
proof -
  let ?c = "pl_next p" and ?p = "p\<lparr>pl_open := [pl_next p], pl_next := Suc (pl_next p)\<rparr>"
  have conn: "db_conn p = (Ok ?c, ?p)" using assms(5) by (auto simp: db_conn_def)
  have read: "conn_query_row E read_ignore_sql [] (scan_row 1 (scan_col scan_int scan_nil)) ?p =
      (Ok (if ig then 1 else 0, ()), ?p)"
    using assms(1) by (simp add: conn_query_row_def conn_query_def answers_def io_bind_def scan_row_def int64_range_def)
  obtain r where r: "runs checked [?c] (check_rows E) r [?c]" "r \<noteq> Blocked"
    "r = Ok () \<longleftrightarrow> irows \<noteq> [] \<and> (\<forall>row \<in> set irows. scan_name row = Inr ''ok'') \<and> frows = []"
    using runs_check_rows [OF assms(3,4)] by blast
  obtain q where q: "check_rows E (?p\<lparr>pl_db := checked\<rparr>) = (r, q)" "pl_db q = checked" "pl_open q = [?c]"
    using runsD [OF r(1), of "?p\<lparr>pl_db := checked\<rparr>"] by auto
  have "\<exists>q'. checks_on_conn E ?p = (r, q') \<and> pl_db q' = pl_db p \<and> pl_open q' = [?c]"
  proof (cases ig)
    case True
    then show ?thesis
      using read assms(2) q r(2)
      by (cases r) (auto simp: checks_on_conn_def io_bind_def io_wrap_def restoring_checks_def conn_exec_def)
  next
    case False
    then show ?thesis
      using read assms(2) q by (simp add: checks_on_conn_def io_bind_def io_wrap_def)
  qed
  then show ?thesis
    using conn r(2,3) by (cases r) (auto simp: CheckSourceConstraints_on_conn io_bind_def io_wrap_def io_finally_def conn_close_def)
qed

theorem CheckSourceConstraints_verdict_witness:
  "\<exists>r q. CheckSourceConstraints violated_engine (one_connection True) = (r, q) \<and> pl_db q \<and> r \<noteq> Ok ()"
proof -
  have "scan_name [V_Text ''CHECK constraint failed in t''] \<noteq> Inr ''ok''" by simp
  moreover have "\<exists>r q. CheckSourceConstraints violated_engine (one_connection True) = (r, q) \<and>
      pl_db q = pl_db (one_connection True) \<and> pl_open q = [] \<and> r \<noteq> Blocked \<and>
      (r = Ok () \<longleftrightarrow> [[V_Text ''CHECK constraint failed in t'']] \<noteq> [] \<and>
        (\<forall>row \<in> set [[V_Text ''CHECK constraint failed in t'']]. scan_name row = Inr ''ok'') \<and> [] = ([] :: sqlval list list))"
    by (rule CheckSourceConstraints_verdict [where ig = True and checked = False])
      (simp_all add: answers_def violated_engine_def one_connection_def read_ignore_sql_def integrity_sql_def
        fk_check_sql_def ignore_on_sql_def ignore_off_sql_def)
  ultimately show ?thesis
    by (auto simp: one_connection_def)
qed

end
