(* ===== verification/Source_Rows.thy ===== *)
theory Source_Rows
  imports Schema_Reader Sql_Gen Reader_Runs
begin

text \<open>
  source_rows.go: the rows of a table with their storage classes, in key order or in the order of a
  rowid alias that no column shadows. A cursor holds the connection of its rows until they end or it is
  closed.
\<close>

section \<open>The cursor\<close>

record source_row =
  sr_Values :: "string \<rightharpoonup> sqlval"
  sr_StorageClasses :: "string \<rightharpoonup> string"

text \<open>The rows that Next has not delivered yet are the ones left in the result set.\<close>

record source_cursor =
  cu_rows :: rows
  cu_names :: "string list"
  cu_decimal :: "bool list"
  cu_boolean :: "bool list"

section \<open>The statement\<close>

definition row_columns_sql :: string where
  "row_columns_sql = ''SELECT name, type, pk FROM pragma_table_info(?) ORDER BY cid''"

record row_columns =
  rc_names :: "string list"
  rc_decimal :: "bool list"
  rc_boolean :: "bool list"
  rc_pk :: "pk_entry list"

definition row_column_step :: "string \<Rightarrow> row_columns \<Rightarrow> sqlval list \<Rightarrow> err + row_columns" where
  "row_column_step table rc row =
     result_bind
       (result_wrap ''dalgo2sqlite: source row column scan for %q: %w'' [Str table]
          (scan_row 3 (scan_col scan_string (scan_col scan_string (scan_col scan_int scan_nil))) row))
       (\<lambda>(name, declared, position, _). case dbschemaTypeFromSQLite declared of (t, _, recognized) \<Rightarrow>
          Inr \<lparr>rc_names = rc_names rc @ [name],
               rc_decimal = rc_decimal rc @ [recognized \<and> t = Type_Decimal],
               rc_boolean = rc_boolean rc @ [recognized \<and> t = Type_Bool],
               rc_pk = (if position > 0
                 then rc_pk rc @ [\<lparr>pk_colName = name, pk_pkOrder = position\<rparr>] else rc_pk rc)\<rparr>)"

definition no_columns :: row_columns where
  "no_columns = \<lparr>rc_names = [], rc_decimal = [], rc_boolean = [], rc_pk = []\<rparr>"

text \<open>
  A TEXT value is cast, so that the driver's conversion by declared type cannot rewrite it; after the
  values come their storage classes.
\<close>

definition value_expression :: "string \<Rightarrow> string" where
  "value_expression name =
     (let quoted = quoteIdentifier name
      in ''CASE WHEN typeof('' @ quoted @ '')='' @ sql_literal ''text'' @ '' THEN CAST('' @ quoted @
         '' AS TEXT) ELSE '' @ quoted @ '' END'')"

definition class_expression :: "string \<Rightarrow> string" where
  "class_expression name = ''typeof('' @ quoteIdentifier name @ '')''"

definition rowid_names :: "string list" where
  "rowid_names = [''_rowid_'', ''rowid'', ''oid'']"

text \<open>strings.EqualFold against these three names is ASCII folding: no other letter folds to theirs.\<close>

definition shadowed :: "string list \<Rightarrow> string \<Rightarrow> bool" where
  "shadowed names candidate = list_ex (\<lambda>name. go_equal_fold_ascii name candidate) names"

definition row_order :: "string \<Rightarrow> string list \<Rightarrow> pk_entry list \<Rightarrow> err + string" where
  "row_order table names pk =
     (if length pk > 0 then Inr (go_join '', '' (map (\<lambda>key. quoteIdentifier (pk_colName key)) pk))
      else case find (\<lambda>candidate. \<not> shadowed names candidate) rowid_names of
          Some candidate \<Rightarrow> Inr candidate
        | None \<Rightarrow> Inl (Newf ''dalgo2sqlite: keyless table %q shadows every hidden rowid alias'' [Str table]))"

definition row_statement :: "string \<Rightarrow> string list \<Rightarrow> string \<Rightarrow> string" where
  "row_statement table names order =
     ''SELECT '' @ go_join '', '' (map value_expression names @ map class_expression names) @
     '' FROM '' @ quoteIdentifier table @ '' ORDER BY '' @ order"

definition OpenSourceRows :: "'d engine \<Rightarrow> string option \<Rightarrow> ('d, source_cursor) io" where
  "OpenSourceRows E ref =
     (case ref of
        None \<Rightarrow> io_fail (Newf ''dalgo2sqlite: source collection name is empty'' [])
      | Some table \<Rightarrow>
          if table = [] then io_fail (Newf ''dalgo2sqlite: source collection name is empty'' [])
          else io_bind (rejectHiddenSourceColumns E ''OpenSourceRows'' table)
     (\<lambda>_. io_bind
       (db_read E row_columns_sql [V_Text table]
          (Some (''dalgo2sqlite: source row columns for %q: %w'', [Str table]))
          (Some (''dalgo2sqlite: source row column rows for %q: %w'', [Str table]))
          (row_column_step table) no_columns)
     (\<lambda>rc. if rc_names rc = [] then io_fail (Newf ''dalgo2sqlite: no source columns for %q'' [Str table])
        else io_bind (io_lift (row_order table (rc_names rc) (sortPKByOrder (rc_pk rc))))
     (\<lambda>order. io_bind
       (io_wrap ''dalgo2sqlite: source rows for %q: %w'' [Str table]
          (db_query E (row_statement table (rc_names rc) order) []))
     (\<lambda>result. io_return
        \<lparr>cu_rows = result, cu_names = rc_names rc, cu_decimal = rc_decimal rc, cu_boolean = rc_boolean rc\<rparr>)))))"

section \<open>Next and Close\<close>

text \<open>When the rows end, Next closes them; a later Close then has nothing to report.\<close>

text \<open>The two conversions of a value: a declared BOOLEAN, then a declared decimal.\<close>

definition boolean_value :: "string \<Rightarrow> string \<Rightarrow> sqlval \<Rightarrow> err + sqlval" where
  "boolean_value name class v =
     (if class = ''null'' then Inr V_Null
      else if class = ''integer''
      then (case v of
          V_Int integer \<Rightarrow>
            if integer \<noteq> 0 \<and> integer \<noteq> 1
            then Inl (Newf ''dalgo2sqlite: declared BOOLEAN %q must contain only INTEGER 0 or 1'' [Str name])
            else Inr (V_Bool (integer = 1))
        | _ \<Rightarrow> Inl (Newf ''dalgo2sqlite: declared BOOLEAN %q must contain only INTEGER 0 or 1'' [Str name]))
      else Inl (Newf ''dalgo2sqlite: declared BOOLEAN %q has unsupported SQLite storage class %q'' [Str name, Str class]))"

definition decimal_value :: "string \<Rightarrow> sqlval \<Rightarrow> err + sqlval" where
  "decimal_value name v =
     (case v of
        V_Int i \<Rightarrow> Inr (V_Text (show_int i))
      | V_Real x \<Rightarrow>
          (case x of
             F_Fin neg m e \<Rightarrow> Inr (V_Text (format_float_g x))
           | _ \<Rightarrow> Inl (Newf ''dalgo2sqlite: non-finite decimal %q'' [Str name]))
      | _ \<Rightarrow> Inr v)"

definition cell_value :: "string \<Rightarrow> bool \<Rightarrow> bool \<Rightarrow> sqlval \<Rightarrow> sqlval \<Rightarrow> err + sqlval \<times> string" where
  "cell_value name boolean decimal v c =
     (case c of
        V_Text class \<Rightarrow>
          result_bind (if boolean then boolean_value name class v else Inr v)
            (\<lambda>v. result_bind (if decimal then decimal_value name v else Inr v) (\<lambda>v. Inr (v, class)))
      | _ \<Rightarrow> Inl (Newf ''dalgo2sqlite: storage class for %q is %T'' [Str name, Type_of_value]))"

text \<open>The loop over the names: the i-th value and the class \<open>count\<close> cells later.\<close>

fun fill_row :: "source_cursor \<Rightarrow> sqlval list \<Rightarrow> nat \<Rightarrow> string list \<Rightarrow> source_row \<Rightarrow> err + source_row" where
  "fill_row cu cells i [] row = Inr row"
| "fill_row cu cells i (name # names) row =
     result_bind
       (cell_value name (cu_boolean cu ! i) (cu_decimal cu ! i) (cells ! i) (cells ! (length (cu_names cu) + i)))
       (\<lambda>(v, class). fill_row cu cells (Suc i) names
          \<lparr>sr_Values = (sr_Values row)(name \<mapsto> v), sr_StorageClasses = (sr_StorageClasses row)(name \<mapsto> class)\<rparr>)"

definition convert_row :: "source_cursor \<Rightarrow> sqlval list \<Rightarrow> err + source_row" where
  "convert_row cu row =
     (let count = length (cu_names cu)
      in if length row \<noteq> count * 2
         then Inl (Newf ''sql: expected %d destination arguments in Scan, not %d''
                [Num (int (length row)), Num (int (count * 2))])
         else fill_row cu row 0 (cu_names cu) \<lparr>sr_Values = Map.empty, sr_StorageClasses = Map.empty\<rparr>)"

definition cursor_Next ::
  "source_cursor \<Rightarrow> 'd pool \<Rightarrow> (err + source_row) \<times> source_cursor \<times> 'd pool" where
  "cursor_Next cu p =
     (case rs_rows (snd (cu_rows cu)) of
        [] \<Rightarrow> (Inl (case rs_err (snd (cu_rows cu)) of Some e \<Rightarrow> e | None \<Rightarrow> Err_EOF),
               cu\<lparr>cu_rows := (fst (cu_rows cu), (snd (cu_rows cu))\<lparr>rs_close := None\<rparr>)\<rparr>, rows_close (cu_rows cu) p)
      | row # rest \<Rightarrow> (convert_row cu row, cu\<lparr>cu_rows := (fst (cu_rows cu), (snd (cu_rows cu))\<lparr>rs_rows := rest\<rparr>)\<rparr>, p))"

text \<open>Closing the rows: they deliver nothing more and have no error.\<close>

definition cursor_Close :: "source_cursor \<Rightarrow> 'd pool \<Rightarrow> err option \<times> source_cursor \<times> 'd pool" where
  "cursor_Close cu p =
     (rs_close (snd (cu_rows cu)),
      cu\<lparr>cu_rows := (fst (cu_rows cu), (snd (cu_rows cu))\<lparr>rs_rows := [], rs_close := None,
           rs_err := (if rs_rows (snd (cu_rows cu)) = [] then rs_err (snd (cu_rows cu)) else None)\<rparr>)\<rparr>,
      rows_close (cu_rows cu) p)"

section \<open>The order of the rows\<close>

lemma shadowed_iff: "shadowed names candidate = (map ascii_lower candidate \<in> set (map (map ascii_lower) names))"
  by (induction names) (auto simp: shadowed_def go_equal_fold_ascii_def)

text \<open>The rows come in a reproducible order: by the key columns in key order when the table has a key,
  and otherwise by a rowid alias that no column of the table shadows in any letter case; a keyless table
  that shadows all three aliases is refused, and nothing else is.\<close>

theorem row_order_choice:
  "row_order table names (sortPKByOrder pk) =
     (if pk \<noteq> [] then Inr (go_join '', '' (map (\<lambda>key. quoteIdentifier (pk_colName key)) (sort_key pk_pkOrder pk)))
      else if \<not> shadowed names ''_rowid_'' then Inr ''_rowid_''
      else if \<not> shadowed names ''rowid'' then Inr ''rowid''
      else if \<not> shadowed names ''oid'' then Inr ''oid''
      else Inl (Newf ''dalgo2sqlite: keyless table %q shadows every hidden rowid alias'' [Str table])) \<and>
   shadowed names candidate = (map ascii_lower candidate \<in> set (map (map ascii_lower) names))"
proof -
  have "sortPKByOrder pk = [] \<longleftrightarrow> pk = []"
    by (metis length_0_conv length_sort sortPKByOrder_sort_key)
  then show ?thesis
    by (simp add: row_order_def rowid_names_def sortPKByOrder_sort_key shadowed_iff)
qed

section \<open>Rows\<close>

text \<open>A cursor as OpenSourceRows makes it: a flag of each kind per column, and no name twice.\<close>

definition wf_cursor :: "source_cursor \<Rightarrow> bool" where
  "wf_cursor cu \<longleftrightarrow> length (cu_decimal cu) = length (cu_names cu) \<and> length (cu_boolean cu) = length (cu_names cu) \<and>
     distinct (cu_names cu)"

lemma fill_row_spec:
  assumes "fill_row cu cells i names row = Inr r" "distinct names"
  shows "(j < length names \<longrightarrow> (\<exists>v class.
      cell_value (names ! j) (cu_boolean cu ! (i + j)) (cu_decimal cu ! (i + j)) (cells ! (i + j))
        (cells ! (length (cu_names cu) + (i + j))) = Inr (v, class) \<and>
      sr_Values r (names ! j) = Some v \<and> sr_StorageClasses r (names ! j) = Some class)) \<and>
    (name \<notin> set names \<longrightarrow> sr_Values r name = sr_Values row name \<and> sr_StorageClasses r name = sr_StorageClasses row name)"
  using assms
proof (induction names arbitrary: i j row name)
  case (Cons n names)
  obtain v cl where cell: "cell_value n (cu_boolean cu ! i) (cu_decimal cu ! i) (cells ! i)
      (cells ! (length (cu_names cu) + i)) = Inr (v, cl)"
    and rest: "fill_row cu cells (Suc i) names
      \<lparr>sr_Values = (sr_Values row)(n \<mapsto> v), sr_StorageClasses = (sr_StorageClasses row)(n \<mapsto> cl)\<rparr> = Inr r"
    using Cons.prems(1) by (auto simp: result_bind_Inr_iff)
  have later: "(k < length names \<longrightarrow> (\<exists>v class.
      cell_value (names ! k) (cu_boolean cu ! (Suc i + k)) (cu_decimal cu ! (Suc i + k)) (cells ! (Suc i + k))
        (cells ! (length (cu_names cu) + (Suc i + k))) = Inr (v, class) \<and>
      sr_Values r (names ! k) = Some v \<and> sr_StorageClasses r (names ! k) = Some class)) \<and>
    (m \<notin> set names \<longrightarrow> sr_Values r m = ((sr_Values row)(n \<mapsto> v)) m \<and>
      sr_StorageClasses r m = ((sr_StorageClasses row)(n \<mapsto> cl)) m)" for k m
    using Cons.IH [OF rest, of k m] Cons.prems(2) unfolding distinct.simps source_row.simps by blast
  show ?case
  proof (cases j)
    case 0
    have "n \<notin> set names" using Cons.prems(2) by simp
    then show ?thesis using later [of 0 n] later [of 0 name] cell 0 by auto
  next
    case (Suc k)
    then show ?thesis using later [of k name] by auto
  qed
qed simp

text \<open>The value of a column, by its declared type, from the stored value and its storage class.\<close>

definition portable_value :: "bool \<Rightarrow> bool \<Rightarrow> string \<Rightarrow> sqlval \<Rightarrow> sqlval \<Rightarrow> bool" where
  "portable_value boolean decimal class stored v \<longleftrightarrow>
     (if boolean
      then class = ''null'' \<and> v = V_Null \<or>
        class = ''integer'' \<and> (stored = V_Int 0 \<and> v = V_Bool False \<or> stored = V_Int 1 \<and> v = V_Bool True)
      else if decimal
      then (case stored of
          V_Int i \<Rightarrow> v = V_Text (show_int i)
        | V_Real (F_Fin neg m e) \<Rightarrow> v = V_Text (format_float_g (F_Fin neg m e))
        | V_Real x \<Rightarrow> False
        | w \<Rightarrow> v = w)
      else v = stored)"

lemma cell_value_portable:
  assumes "cell_value name boolean decimal stored c = Inr (v, class)"
  shows "c = V_Text class" "portable_value boolean decimal class stored v"
proof -
  show c: "c = V_Text class"
    using assms by (cases c) (auto simp: cell_value_def result_bind_Inr_iff)
  have decimal: "decimal_value name w = Inr v \<Longrightarrow>
      (case w of V_Int i \<Rightarrow> v = V_Text (show_int i)
        | V_Real (F_Fin neg m e) \<Rightarrow> v = V_Text (format_float_g (F_Fin neg m e))
        | V_Real x \<Rightarrow> False | w \<Rightarrow> v = w)" for w
    by (cases w; cases "case w of V_Real x \<Rightarrow> x | _ \<Rightarrow> F_NaN") (auto simp: decimal_value_def)
  show "portable_value boolean decimal class stored v"
  proof (cases boolean)
    case True
    then obtain w where w: "boolean_value name class stored = Inr w" "(if decimal then decimal_value name w else Inr w) = Inr v"
      using assms by (auto simp: c cell_value_def result_bind_Inr_iff)
    then have "w = V_Null \<or> (\<exists>b. w = V_Bool b)"
      by (auto simp: boolean_value_def split: if_splits sqlval.splits)
    then have "w = v" using w(2) by (auto simp: decimal_value_def split: if_splits)
    then show ?thesis
      using w(1) True by (auto simp: portable_value_def boolean_value_def split: if_splits sqlval.splits)
  next
    case False
    then show ?thesis
      using assms decimal [of stored] by (auto simp: c cell_value_def result_bind_Inr_iff portable_value_def split: if_splits)
  qed
qed

text \<open>C24: A row that the cursor delivers has a value and a storage class for every column, the storage class
  is the one SQLite reported, and the value has the portable type of the column: a declared BOOLEAN is
  null, false or true, a declared decimal is never a number but its decimal text, and any other column has the
  stored value.\<close>

theorem convert_row_typed:
  assumes "wf_cursor cu" "convert_row cu row = Inr r" "i < length (cu_names cu)"
  shows "\<exists>class v. row ! (length (cu_names cu) + i) = V_Text class \<and>
    sr_StorageClasses r (cu_names cu ! i) = Some class \<and> sr_Values r (cu_names cu ! i) = Some v \<and>
    portable_value (cu_boolean cu ! i) (cu_decimal cu ! i) class (row ! i) v"
proof -
  have "fill_row cu row 0 (cu_names cu) \<lparr>sr_Values = Map.empty, sr_StorageClasses = Map.empty\<rparr> = Inr r"
    and "distinct (cu_names cu)"
    using assms(1,2) by (auto simp: convert_row_def Let_def wf_cursor_def split: if_splits)
  from fill_row_spec [OF this, of i "[]"] assms(3) obtain v cl where
    "cell_value (cu_names cu ! i) (cu_boolean cu ! i) (cu_decimal cu ! i) (row ! i)
      (row ! (length (cu_names cu) + i)) = Inr (v, cl)"
    "sr_Values r (cu_names cu ! i) = Some v" "sr_StorageClasses r (cu_names cu ! i) = Some cl"
    by auto
  with cell_value_portable [OF this(1)] show ?thesis by blast
qed

text \<open>An INTEGER 1 in a BOOLEAN column, a REAL 0.5 in a decimal one, and a TEXT.\<close>

definition sample_cursor :: source_cursor where
  "sample_cursor = \<lparr>cu_rows = (Some 0, all_rows []), cu_names = [''b'', ''d'', ''t''],
     cu_decimal = [False, True, False], cu_boolean = [True, False, False]\<rparr>"

theorem convert_row_typed_witness:
  "\<exists>r. convert_row sample_cursor [V_Int 1, V_Real (F_Fin False (2 ^ 52) (-53)), V_Text ''x'',
      V_Text ''integer'', V_Text ''real'', V_Text ''text''] = Inr r \<and>
    sr_Values r ''b'' = Some (V_Bool True) \<and> sr_Values r ''d'' = Some (V_Text ''0.5'') \<and>
    sr_StorageClasses r ''d'' = Some ''real''"
proof -
  have half: "format_float_g (F_Fin False 4503599627370496 (-53)) = ''0.5''" by code_simp
  let ?row = "[V_Int 1, V_Real (F_Fin False (2 ^ 52) (-53)), V_Text ''x'', V_Text ''integer'', V_Text ''real'', V_Text ''text'']"
  obtain r where r: "convert_row sample_cursor ?row = Inr r"
    by (simp add: convert_row_def sample_cursor_def cell_value_def boolean_value_def decimal_value_def)
  have "wf_cursor sample_cursor" by (simp add: wf_cursor_def sample_cursor_def)
  from convert_row_typed [OF this r, of 0] convert_row_typed [OF this r, of 1] r show ?thesis
    by (auto simp: sample_cursor_def portable_value_def half simp del: format_float_g.simps)
qed

section \<open>Reading to the end\<close>

text \<open>The caller's loop: Next, \<open>n\<close> times.\<close>

fun next_times :: "nat \<Rightarrow> source_cursor \<Rightarrow> 'd pool \<Rightarrow> (err + source_row) list \<times> source_cursor \<times> 'd pool" where
  "next_times 0 cu p = ([], cu, p)"
| "next_times (Suc n) cu p =
     (case cursor_Next cu p of (r, cu, p) \<Rightarrow>
        (case next_times n cu p of (rs, cu, p) \<Rightarrow> (r # rs, cu, p)))"

lemma convert_row_rows [simp]: "convert_row (cu\<lparr>cu_rows := h\<rparr>) row = convert_row cu row"
proof -
  have "fill_row (cu\<lparr>cu_rows := h\<rparr>) row i names r = fill_row cu row i names r" for i names r
    by (induction cu row i names r rule: fill_row.induct) (auto simp: result_bind_def split: sum.splits)
  then show ?thesis by (simp add: convert_row_def Let_def)
qed

lemma next_times_rows:
  "rs_rows (snd (cu_rows cu)) = rows \<Longrightarrow>
   \<exists>cu'. next_times (length rows) cu p = (map (convert_row cu) rows, cu', p) \<and>
     cu_rows cu' = (fst (cu_rows cu), (snd (cu_rows cu))\<lparr>rs_rows := []\<rparr>)"
proof (induction rows arbitrary: cu)
  case Nil
  then show ?case by (cases "cu_rows cu") (auto simp: rowset.defs intro!: prod_eqI)
next
  case (Cons row rows)
  let ?cu = "cu\<lparr>cu_rows := (fst (cu_rows cu), (snd (cu_rows cu))\<lparr>rs_rows := rows\<rparr>)\<rparr>"
  have "cursor_Next cu p = (convert_row cu row, ?cu, p)"
    using Cons.prems by (simp add: cursor_Next_def)
  then show ?case using Cons.IH [of ?cu] by auto
qed

lemma next_times_to_end:
  "fst (next_times (length (rs_rows (snd (cu_rows cu))) + Suc n) cu p) =
     map (convert_row cu) (rs_rows (snd (cu_rows cu))) @
     replicate (Suc n) (Inl (case rs_err (snd (cu_rows cu)) of Some e \<Rightarrow> e | None \<Rightarrow> Err_EOF)) \<and>
   pl_open (snd (snd (next_times (length (rs_rows (snd (cu_rows cu))) + Suc n) cu p))) =
     (case fst (cu_rows cu) of None \<Rightarrow> pl_open p | Some c \<Rightarrow> removeAll c (pl_open p))"
proof -
  let ?e = "\<lambda>cu. Inl (case rs_err (snd (cu_rows cu)) of Some e \<Rightarrow> e | None \<Rightarrow> Err_EOF)"
  let ?free = "\<lambda>cu p. (case fst (cu_rows cu) of None \<Rightarrow> pl_open p | Some c \<Rightarrow> removeAll c (pl_open p))"
  have append: "next_times (m + k) cu p = (case next_times m cu p of (rs, cu, p) \<Rightarrow>
      case next_times k cu p of (rs', cu, p) \<Rightarrow> (rs @ rs', cu, p))" for m k and cu :: source_cursor and p :: "'a pool"
    by (induction m arbitrary: cu p) (auto split: prod.splits)
  have ended: "fst (next_times (Suc n) cu p) = replicate (Suc n) (?e cu) \<and>
      pl_open (snd (snd (next_times (Suc n) cu p))) = ?free cu p"
    if "rs_rows (snd (cu_rows cu)) = []" for n and cu :: source_cursor and p :: "'a pool"
    using that
  proof (induction n arbitrary: cu p)
    case 0
    then show ?case
      by (auto simp: cursor_Next_def rows_close_def conn_close_def split: option.splits)
  next
    case (Suc n)
    let ?cu = "cu\<lparr>cu_rows := (fst (cu_rows cu), (snd (cu_rows cu))\<lparr>rs_close := None\<rparr>)\<rparr>"
    have step: "cursor_Next cu p = (?e cu, ?cu, rows_close (cu_rows cu) p)"
      using Suc.prems by (simp add: cursor_Next_def)
    have "next_times (Suc (Suc n)) cu p = (?e cu # fst (next_times (Suc n) ?cu (rows_close (cu_rows cu) p)),
        snd (next_times (Suc n) ?cu (rows_close (cu_rows cu) p)))"
      by (subst next_times.simps(2)) (simp only: step prod.case split: prod.split, simp)
    then show ?case
      using Suc.IH [of ?cu "rows_close (cu_rows cu) p"] Suc.prems
      by (auto simp: rows_close_def conn_close_def split: option.splits)
  qed
  obtain cu' where cu': "next_times (length (rs_rows (snd (cu_rows cu)))) cu p =
      (map (convert_row cu) (rs_rows (snd (cu_rows cu))), cu', p)"
      "cu_rows cu' = (fst (cu_rows cu), (snd (cu_rows cu))\<lparr>rs_rows := []\<rparr>)"
    using next_times_rows [of cu _ p] by auto
  then show ?thesis
    using ended [of cu' n p] unfolding append cu'(1) prod.case
    by (cases "next_times (Suc n) cu' p") (simp add: cu'(2) del: next_times.simps)
qed

text \<open>C40: Reading a cursor ends: it delivers the rows of the result set once each, in order, converted or
  refused one by one, and the call after the last row reports the error that ended the rows, or EOF, and
  gives the connection back; so does every later call.\<close>

theorem next_times_ends:
  "fst (next_times (length (rs_rows (snd (cu_rows cu))) + Suc n) cu p) =
     map (convert_row cu) (rs_rows (snd (cu_rows cu))) @
     replicate (Suc n) (Inl (case rs_err (snd (cu_rows cu)) of Some e \<Rightarrow> e | None \<Rightarrow> Err_EOF)) \<and>
   pl_open (snd (snd (next_times (length (rs_rows (snd (cu_rows cu))) + Suc n) cu p))) =
     (case fst (cu_rows cu) of None \<Rightarrow> pl_open p | Some c \<Rightarrow> removeAll c (pl_open p))"
  by (rule next_times_to_end)

section \<open>Opening\<close>

lemma pool_triple_OpenSourceRows: "pool_triple {} {} (OpenSourceRows E ref) (\<lambda>cu. held (cu_rows cu))"
proof -
  have safe: "pool_safe m \<Longrightarrow> (\<And>x. pool_triple {} {} (f x) B) \<Longrightarrow> pool_triple {} {} (io_bind m f) B"
    for m :: "('a, 'b) io" and f and B :: "source_cursor \<Rightarrow> nat set"
    unfolding pool_safe_def by (rule pool_triple_bind)
  have query: "pool_triple {} {} (io_bind (io_wrap f args (db_query E q []))
      (\<lambda>result. io_return (mk result))) (\<lambda>cu. held (cu_rows cu))"
    if "\<And>h. cu_rows (mk h) = h" for f args q and mk :: "rows \<Rightarrow> source_cursor"
    by (rule pool_triple_bind [OF pool_triple_wrap [OF pool_triple_query]], rule pool_triple_return) (simp add: that)
  show ?thesis
    unfolding OpenSourceRows_def
    by (auto intro!: pool_triple_fail safe pool_safe_rejectHidden pool_safe_db_read pool_safe_lift query
        split: option.split simp: pool_triple_fail)
qed

definition row_flags :: "(string \<times> string \<times> int) list \<Rightarrow> db_type \<Rightarrow> bool list" where
  "row_flags cols ty = map (\<lambda>(_, declared, _).
     case dbschemaTypeFromSQLite declared of (t, _, recognized) \<Rightarrow> recognized \<and> t = ty) cols"

definition row_key :: "(string \<times> string \<times> int) list \<Rightarrow> pk_entry list" where
  "row_key cols = map (\<lambda>(name, _, position). \<lparr>pk_colName = name, pk_pkOrder = position\<rparr>)
     (filter (\<lambda>(_, _, position). position > 0) cols)"

lemma row_columns_fold:
  "list_all (\<lambda>(_, _, k). int64_range k) cols \<Longrightarrow>
   rows_fold (row_column_step table) rc (map (\<lambda>(n, t, k). [V_Text n, V_Text t, V_Int k]) cols) =
     Inr \<lparr>rc_names = rc_names rc @ map fst cols, rc_decimal = rc_decimal rc @ row_flags cols Type_Decimal,
          rc_boolean = rc_boolean rc @ row_flags cols Type_Bool, rc_pk = rc_pk rc @ row_key cols\<rparr>"
proof (induction cols arbitrary: rc)
  case (Cons col cols)
  then show ?case
    by (auto simp: row_column_step_def scan_row_def row_flags_def row_key_def split: prod.split)
qed (simp add: row_flags_def row_key_def)

lemma runs_no_hidden:
  assumes "answers E d hidden_columns_sql [V_Text table] []"
  shows "runs d [] (rejectHiddenSourceColumns E op table) (Ok ()) []"
proof (rule runsI)
  fix p :: "'a pool" assume p: "pl_db p = d" "pl_open p = []"
  then obtain p' where "db_query E hidden_columns_sql [V_Text table] p = (Ok (Some (pl_next p), all_rows []), p')"
      "pl_db p' = d" "pl_open p' = [pl_next p]"
    using db_query_run [of E p hidden_columns_sql "[V_Text table]" "[]"] assms by auto
  then show "\<exists>q. rejectHiddenSourceColumns E op table p = (Ok (), q) \<and> pl_db q = d \<and> pl_open q = []"
    by (simp add: rejectHiddenSourceColumns_def io_bind_def io_wrap_def io_finally_def rows_err_def rows_close_def
        conn_close_def)
qed

text \<open>C19: OpenSourceRows and its cursor read a table completely: on a table without hidden columns the
  statement selects every column in catalog order, the cursor holds one connection, reading it delivers
  every row of the statement in order, each converted by the declared types of its columns, then EOF, and
  then no connection is in use.\<close>

theorem OpenSourceRows_reads_table:
  assumes "table \<noteq> []" "cols \<noteq> []" "list_all (\<lambda>(_, _, k). int64_range k) cols"
    and "answers E (pl_db p) hidden_columns_sql [V_Text table] []"
    and "answers E (pl_db p) row_columns_sql [V_Text table] (map (\<lambda>(n, t, k). [V_Text n, V_Text t, V_Int k]) cols)"
    and "row_order table (map fst cols) (sortPKByOrder (row_key cols)) = Inr order"
    and "answers E (pl_db p) (row_statement table (map fst cols) order) [] rows"
    and "pl_open p = []"
  shows "\<exists>cu q c. OpenSourceRows E (Some table) p = (Ok cu, q) \<and> pl_open q = [c] \<and> cu_names cu = map fst cols \<and>
    cu_decimal cu = row_flags cols Type_Decimal \<and> cu_boolean cu = row_flags cols Type_Bool \<and>
    fst (next_times (length rows + 1) cu q) = map (convert_row cu) rows @ [Inl Err_EOF] \<and>
    pl_open (snd (snd (next_times (length rows + 1) cu q))) = []"
proof -
  let ?d = "pl_db p"
  let ?rc = "\<lparr>rc_names = map fst cols, rc_decimal = row_flags cols Type_Decimal,
    rc_boolean = row_flags cols Type_Bool, rc_pk = row_key cols\<rparr>"
  have fold: "rows_fold (row_column_step table) no_columns (map (\<lambda>(n, t, k). [V_Text n, V_Text t, V_Int k]) cols) = Inr ?rc"
    using row_columns_fold [OF assms(3), of table no_columns] by (simp add: no_columns_def)
  obtain q1 where q1: "rejectHiddenSourceColumns E ''OpenSourceRows'' table p = (Ok (), q1)" "pl_db q1 = ?d" "pl_open q1 = []"
    using runsD [OF runs_no_hidden [OF assms(4)] refl assms(8)] by blast
  obtain q2 where q2: "db_read E row_columns_sql [V_Text table]
      (Some (''dalgo2sqlite: source row columns for %q: %w'', [Str table]))
      (Some (''dalgo2sqlite: source row column rows for %q: %w'', [Str table]))
      (row_column_step table) no_columns q1 = (Ok ?rc, q2)" "pl_db q2 = ?d" "pl_open q2 = []"
    using runsD [OF runs_db_read [OF assms(5) fold] q1(2,3)] by blast
  obtain q3 where q3: "db_query E (row_statement table (map fst cols) order) [] q2 = (Ok (Some (pl_next q2), all_rows rows), q3)"
      "pl_open q3 = [pl_next q2]"
    using db_query_run [of E q2 _ "[]" rows] assms(7) q2 by auto
  let ?cu = "\<lparr>cu_rows = (Some (pl_next q2), all_rows rows), cu_names = map fst cols,
    cu_decimal = row_flags cols Type_Decimal, cu_boolean = row_flags cols Type_Bool\<rparr>"
  have "OpenSourceRows E (Some table) p = (Ok ?cu, q3)"
    using assms(1,2,6) q1(1) q2(1) q3(1) by (simp add: OpenSourceRows_def io_bind_def io_wrap_def)
  then show ?thesis
    using next_times_to_end [of ?cu 0 q3] q3(2) by auto
qed

text \<open>A table of two rows whose second column is a BOOLEAN.\<close>

definition flags_columns :: "(string \<times> string \<times> int) list" where
  "flags_columns = [(''id'', ''INTEGER'', 1), (''ok'', ''BOOLEAN'', 0)]"

definition flags_rows :: "sqlval list list" where
  "flags_rows =
     [[V_Int 1, V_Int 0, V_Text ''integer'', V_Text ''integer''], [V_Int 2, V_Null, V_Text ''integer'', V_Text ''null'']]"

definition flags_engine :: "unit engine" where
  "flags_engine =
     \<lparr>eng_query = (\<lambda>q args d.
        (Inr (all_rows
          (if q = hidden_columns_sql then []
           else if q = row_columns_sql then map (\<lambda>(n, t, k). [V_Text n, V_Text t, V_Int k]) flags_columns
           else flags_rows)), d)),
      eng_exec = (\<lambda>q args d. (None, d)),
      eng_begin = (\<lambda>d. (None, d)), eng_commit = (\<lambda>d. (None, d)), eng_rollback = (\<lambda>d. (None, d))\<rparr>"

theorem OpenSourceRows_reads_table_witness:
  "\<exists>cu q. OpenSourceRows flags_engine (Some ''flags'') (one_connection ()) = (Ok cu, q) \<and>
     cu_boolean cu = [False, True] \<and> length (fst (next_times 3 cu q)) = 3"
proof -
  let ?order = "quoteIdentifier ''id''"
  let ?stmt = "row_statement ''flags'' (map fst flags_columns) ?order"
  have texts: "?stmt \<noteq> hidden_columns_sql" "?stmt \<noteq> row_columns_sql" "row_columns_sql \<noteq> hidden_columns_sql"
    by (simp_all add: row_statement_def flags_columns_def value_expression_def hidden_columns_sql_def row_columns_sql_def Let_def)
  have flags: "row_flags flags_columns Type_Bool = [False, True]"
    by code_simp
  have key: "row_order ''flags'' (map fst flags_columns) (sortPKByOrder (row_key flags_columns)) = Inr ?order"
    by (simp add: row_order_def row_key_def flags_columns_def sortPKByOrder_sort_key)
  have three: "length flags_rows + 1 = 3" by (simp add: flags_rows_def)
  obtain cu q where "OpenSourceRows flags_engine (Some ''flags'') (one_connection ()) = (Ok cu, q)"
      "cu_boolean cu = [False, True]"
      "fst (next_times (length flags_rows + 1) cu q) = map (convert_row cu) flags_rows @ [Inl Err_EOF]"
    using OpenSourceRows_reads_table [of "''flags''" flags_columns flags_engine "one_connection ()" ?order flags_rows]
      texts flags key
    by (auto simp: answers_def flags_engine_def one_connection_def flags_columns_def int64_range_def)
  then show ?thesis
    unfolding three by (intro exI [of _ cu] exI [of _ q]) (simp add: flags_rows_def del: next_times.simps)
qed

end
