(* ===== verification/Decimal_Text.thy ===== *)
theory Decimal_Text
  imports Source_Rows Complex_Main
begin

text \<open>
  The decimal text of a REAL (source_rows.go): the comment there promises the shortest decimal that
  round-trips to the stored binary64 value. Here the text is read back as a real number and shown to be
  nearest to the value it came from, and no decimal with fewer digits is.
\<close>

section \<open>The values as real numbers\<close>

definition magnitude :: "int \<Rightarrow> int \<Rightarrow> real" where
  "magnitude m e = real_of_int m * 2 powi e"

lemma powi_split: "(x :: real) \<noteq> 0 \<Longrightarrow> x powi k = x ^ nat k / x ^ nat (- k)"
  by (cases "0 \<le> k") (simp_all add: power_int_def field_simps)

lemma scaled_sides_real:
  "scaled_sides t e c k = (a, b) \<Longrightarrow> \<exists>f > 0. real_of_int a = magnitude t e * f \<and> real_of_int b = c * 10 powi k * f"
  by (rule exI [of _ "2 ^ nat (- e) * 10 ^ nat (- k)"])
    (auto simp: scaled_sides_def magnitude_def powi_split)

lemma scaled_le_real: "scaled_le t e c k \<longleftrightarrow> magnitude t e \<le> c * 10 powi k"
proof -
  obtain a b where ab: "scaled_sides t e c k = (a, b)" by (cases "scaled_sides t e c k")
  from scaled_sides_real [OF ab] obtain f where "f > 0" "real_of_int a = magnitude t e * f" "real_of_int b = c * 10 powi k * f"
    by blast
  moreover have "a \<le> b \<longleftrightarrow> real_of_int a \<le> real_of_int b" by simp
  ultimately show ?thesis by (simp add: scaled_le_def ab)
qed

lemma scaled_less_real: "scaled_less t e c k \<longleftrightarrow> magnitude t e < c * 10 powi k"
proof -
  obtain a b where ab: "scaled_sides t e c k = (a, b)" by (cases "scaled_sides t e c k")
  from scaled_sides_real [OF ab] obtain f where "f > 0" "real_of_int a = magnitude t e * f" "real_of_int b = c * 10 powi k * f"
    by blast
  moreover have "a < b \<longleftrightarrow> real_of_int a < real_of_int b" by simp
  ultimately show ?thesis by (simp add: scaled_less_def ab)
qed

lemma scaled_floor_real: "scaled_floor t e k = \<lfloor>magnitude t e / 10 powi k\<rfloor>"
proof -
  have "magnitude t e / 10 powi k = real_of_int (t * 2 ^ nat e * 10 ^ nat (- k)) / real_of_int (10 ^ nat k * 2 ^ nat (- e))"
    by (simp add: magnitude_def powi_split)
  then show ?thesis
    by (simp only: floor_divide_of_int_eq scaled_floor_def)
qed

section \<open>The rounding interval\<close>

definition reads_as :: "real \<Rightarrow> int \<Rightarrow> int \<Rightarrow> bool" where
  "reads_as r m e \<longleftrightarrow>
     (if even m
      then magnitude (lower_end m e) (e - 2) \<le> r \<and> r \<le> magnitude (upper_end m) (e - 2)
      else magnitude (lower_end m e) (e - 2) < r \<and> r < magnitude (upper_end m) (e - 2))"

lemma in_interval_reads_as: "in_interval m e c k \<longleftrightarrow> reads_as (c * 10 powi k) m e"
  by (auto simp: in_interval_def reads_as_def scaled_le_real scaled_less_real)

lemma reads_as_convex: "reads_as a m e \<Longrightarrow> reads_as b m e \<Longrightarrow> a \<le> r \<Longrightarrow> r \<le> b \<Longrightarrow> reads_as r m e"
  by (auto simp: reads_as_def split: if_splits)

text \<open>The quarters of the unit in the last place between a value and the ends of its interval.\<close>

definition below :: "int \<Rightarrow> int \<Rightarrow> real" where
  "below m e = (if m > 2 ^ 52 \<or> e = -1074 then 2 else 1) * 2 powi (e - 2)"

lemma quarter: "(2 :: real) powi e = 4 * 2 powi (e - 2)"
  using power_int_add [of "2 :: real" "e - 2" 2] by simp

lemma interval_ends:
  "magnitude (lower_end m e) (e - 2) = magnitude m e - below m e"
  "magnitude (upper_end m) (e - 2) = magnitude m e + 2 * 2 powi (e - 2)"
  by (simp_all add: magnitude_def below_def lower_end_def upper_end_def quarter [of e] algebra_simps)

lemma reads_as_ends:
  "magnitude m e - below m e < r \<Longrightarrow> r < magnitude m e + 2 * 2 powi (e - 2) \<Longrightarrow> reads_as r m e"
  by (simp add: reads_as_def interval_ends)

lemma reads_as_itself: "reads_as (magnitude m e) m e"
  by (rule reads_as_ends) (simp_all add: below_def)

text \<open>
  The numbers that rounding chooses from: the binary64 values and, as the standard has it, the next power
  of two above the largest, which stands for infinity.
\<close>

definition candidate :: "int \<Rightarrow> int \<Rightarrow> bool" where
  "candidate m e \<longleftrightarrow> float64_ok (F_Fin False m e) \<or> m = 2 ^ 52 \<and> e = 972"

lemma candidate_ok: "float64_ok (F_Fin s m e) \<Longrightarrow> candidate m e"
  by (simp add: candidate_def)

lemma float64_above:
  assumes "float64_ok (F_Fin s m e)" "candidate m' e'" "magnitude m e < magnitude m' e'"
  shows "magnitude m e + 2 powi e \<le> magnitude m' e'"
proof (cases "e \<le> e'")
  case True
  define n where "n = m' * 2 ^ nat (e' - e)"
  have "(2 :: real) powi e' = 2 ^ nat (e' - e) * 2 powi e"
    using True power_int_add [of "2 :: real" "e' - e" e] by (simp add: power_int_def)
  then have n: "magnitude m' e' = magnitude n e"
    by (simp add: magnitude_def n_def)
  with assms(3) have "m < n" by (simp add: magnitude_def)
  then have "real_of_int m + 1 \<le> real_of_int n" by linarith
  then have "(real_of_int m + 1) * 2 powi e \<le> real_of_int n * 2 powi e"
    by (rule mult_right_mono) simp
  then show ?thesis unfolding n by (simp add: magnitude_def algebra_simps)
next
  case False
  then have m: "2 ^ 52 \<le> m" and m': "m' < 2 ^ 53" "0 \<le> m'" using assms(1,2) by (auto simp: candidate_def)
  have "(2 :: real) powi e' \<le> 2 powi (e - 1)" using False by (intro power_int_increasing) auto
  then have "magnitude m' e' \<le> 2 ^ 53 * 2 powi (e - 1)"
    unfolding magnitude_def using m' by (intro mult_mono) (auto simp: le_less)
  also have "\<dots> = 2 ^ 52 * 2 powi e" using power_int_add [of "2 :: real" "e - 1" 1] by simp
  also have "\<dots> \<le> magnitude m e" unfolding magnitude_def using m by (intro mult_right_mono) auto
  finally show ?thesis using assms(3) by simp
qed

lemma float64_below:
  assumes "float64_ok (F_Fin s m e)" "candidate m' e'" "magnitude m' e' < magnitude m e"
  shows "magnitude m' e' \<le> magnitude m e - 2 * below m e"
proof (cases "e \<le> e'")
  case True
  define n where "n = m' * 2 ^ nat (e' - e)"
  have "(2 :: real) powi e' = 2 ^ nat (e' - e) * 2 powi e"
    using True power_int_add [of "2 :: real" "e' - e" e] by (simp add: power_int_def)
  then have n: "magnitude m' e' = magnitude n e"
    by (simp add: magnitude_def n_def)
  with assms(3) have "n < m" by (simp add: magnitude_def)
  then have "real_of_int n \<le> real_of_int m - 1" by linarith
  then have "real_of_int n * 2 powi e \<le> (real_of_int m - 1) * 2 powi e"
    by (rule mult_right_mono) simp
  moreover have "2 * below m e \<le> 2 powi e" by (simp add: below_def quarter [of e])
  ultimately show ?thesis unfolding n by (simp add: magnitude_def algebra_simps)
next
  case False
  then have m: "2 ^ 52 \<le> m" "e \<noteq> -1074" and m': "m' \<le> 2 ^ 53 - 1" "0 \<le> m'"
    using assms(1,2) by (auto simp: candidate_def)
  have half: "(2 :: real) powi e = 2 * 2 powi (e - 1)" "(2 :: real) powi (e - 1) = 2 * 2 powi (e - 2)"
    using power_int_add [of "2 :: real" "e - 1" 1] power_int_add [of "2 :: real" "e - 2" 1] by simp_all
  have "(2 :: real) powi e' \<le> 2 powi (e - 1)" using False by (intro power_int_increasing) auto
  moreover have "real_of_int m' \<le> 2 ^ 53 - 1" using m'(1) by simp
  ultimately have "magnitude m' e' \<le> (2 ^ 53 - 1) * 2 powi (e - 1)"
    unfolding magnitude_def using m'(2) by (intro mult_mono) auto
  then have y: "magnitude m' e' \<le> 2 ^ 52 * 2 powi e - 2 powi (e - 1)"
    by (simp add: half(1) algebra_simps)
  have unit: "0 < (2 :: real) powi (e - 1)" by simp
  show ?thesis
  proof (cases "m > 2 ^ 52")
    case True
    then have "(2 ^ 52 + 1) * 2 powi e \<le> magnitude m e"
      unfolding magnitude_def by (intro mult_right_mono) auto
    moreover have "2 * below m e = 2 powi e" using True half by (simp add: below_def)
    ultimately show ?thesis using y unit by (simp only:) (simp only: distrib_right mult_1_left; linarith)
  next
    case False
    with m have "magnitude m e = 2 ^ 52 * 2 powi e" by (simp add: magnitude_def)
    then show ?thesis using y False m half by (simp add: below_def)
  qed
qed

definition float_value :: "bool \<Rightarrow> int \<Rightarrow> int \<Rightarrow> real" where
  "float_value neg m e = (if neg then - magnitude m e else magnitude m e)"

definition nearest_value :: "real \<Rightarrow> bool \<Rightarrow> int \<Rightarrow> int \<Rightarrow> bool" where
  "nearest_value r neg m e \<longleftrightarrow>
     (\<forall>neg' m' e'. candidate m' e' \<and> float_value neg' m' e' \<noteq> float_value neg m e \<longrightarrow>
        \<bar>r - float_value neg m e\<bar> < \<bar>r - float_value neg' m' e'\<bar> \<or>
        \<bar>r - float_value neg m e\<bar> = \<bar>r - float_value neg' m' e'\<bar> \<and> even m)"

lemma candidate_nonneg: "candidate m e \<Longrightarrow> 0 \<le> magnitude m e"
  by (auto simp: magnitude_def candidate_def)

lemma other_values:
  assumes "float64_ok (F_Fin s m e)" "candidate m' e'" "float_value s' m' e' \<noteq> magnitude m e"
  shows "float_value s' m' e' \<le> magnitude m e - 2 * below m e \<or> magnitude m e + 2 powi e \<le> float_value s' m' e'"
proof (cases "magnitude m e < float_value s' m' e'")
  case True
  then have "\<not> s'" using candidate_nonneg [OF candidate_ok [OF assms(1)]] candidate_nonneg [OF assms(2)] by (auto simp: float_value_def)
  then show ?thesis using float64_above [OF assms(1,2)] True by (simp add: float_value_def)
next
  case False
  then have less: "float_value s' m' e' < magnitude m e" using assms(3) by simp
  have zero: "float64_ok (F_Fin False 0 (-1074))" "candidate 0 (-1074)" by (simp_all add: candidate_def)
  have "float_value s' m' e' \<le> magnitude m e - 2 * below m e"
  proof (cases "0 < magnitude m e")
    case True
    have "float_value s' m' e' \<le> 0 \<or> \<not> s'" using candidate_nonneg [OF assms(2)] by (simp add: float_value_def)
    then show ?thesis
      using float64_below [OF assms(1) zero(2)] float64_below [OF assms(1,2)] True less
      by (auto simp: magnitude_def float_value_def)
  next
    case False
    then have x: "magnitude m e = 0" "m = 0" "e = -1074" using candidate_nonneg [OF candidate_ok [OF assms(1)]] assms(1) by (auto simp: magnitude_def)
    then have "s'" "0 < magnitude m' e'" using less candidate_nonneg [OF assms(2)] by (auto simp: float_value_def split: if_splits)
    then show ?thesis
      using float64_above [OF zero(1) assms(2)] x by (simp add: float_value_def magnitude_def below_def quarter [of "-1074"])
  qed
  then show ?thesis ..
qed

lemma reads_as_nearest:
  assumes "float64_ok (F_Fin neg m e)" "reads_as r m e"
  shows "nearest_value (if neg then - r else r) neg m e"
proof -
  define u where "u = (2 :: real) powi (e - 2)"
  have u: "0 < u" "2 powi e = 4 * u" "0 < below m e" by (simp_all add: u_def below_def quarter [of e])
  have ends: "magnitude m e - below m e \<le> r" "r \<le> magnitude m e + 2 * u"
    "odd m \<Longrightarrow> magnitude m e - below m e < r \<and> r < magnitude m e + 2 * u"
    using assms(2) by (auto simp: reads_as_def interval_ends u_def split: if_splits)
  have near: "\<bar>r - magnitude m e\<bar> < \<bar>r - w\<bar> \<or> \<bar>r - magnitude m e\<bar> = \<bar>r - w\<bar> \<and> even m"
    if "w \<le> magnitude m e - 2 * below m e \<or> magnitude m e + 2 powi e \<le> w" for w
    using that ends u by (cases "even m") (auto simp: abs_if)
  have other: "\<bar>r - magnitude m e\<bar> < \<bar>r - float_value s' m' e'\<bar> \<or>
      \<bar>r - magnitude m e\<bar> = \<bar>r - float_value s' m' e'\<bar> \<and> even m"
    if "candidate m' e'" "float_value s' m' e' \<noteq> magnitude m e" for s' m' e'
    by (rule near [OF other_values [OF assms(1) that]])
  show ?thesis
    unfolding nearest_value_def
  proof (intro allI impI, elim conjE)
    fix s' m' e' assume "candidate m' e'" and neq: "float_value s' m' e' \<noteq> float_value neg m e"
    then show "\<bar>(if neg then - r else r) - float_value neg m e\<bar> < \<bar>(if neg then - r else r) - float_value s' m' e'\<bar> \<or>
        \<bar>(if neg then - r else r) - float_value neg m e\<bar> = \<bar>(if neg then - r else r) - float_value s' m' e'\<bar> \<and> even m"
      using other [of m' e' s'] other [of m' e' "\<not> s'"]
      by (cases neg; cases s') (auto simp: float_value_def abs_minus_commute)
  qed
qed

text \<open>The neighbours are candidates, so a number outside the interval is nearer to one of them.\<close>

lemma neighbour_above:
  assumes "float64_ok (F_Fin s m e)"
  shows "\<exists>m' e'. candidate m' e' \<and> magnitude m' e' = magnitude m e + 4 * 2 powi (e - 2)"
proof (cases "m + 1 < 2 ^ 53")
  case True
  then have "candidate (m + 1) e" using assms by (auto simp: candidate_def)
  moreover have "magnitude (m + 1) e = magnitude m e + 4 * 2 powi (e - 2)"
    by (simp add: magnitude_def quarter [of e] algebra_simps)
  ultimately show ?thesis by blast
next
  case False
  then have m: "m = 2 ^ 53 - 1" "-1074 \<le> e" "e \<le> 971" using assms by auto
  then have "candidate (2 ^ 52) (e + 1)" by (auto simp: candidate_def)
  moreover have "magnitude (2 ^ 52) (e + 1) = magnitude m e + 4 * 2 powi (e - 2)"
    using power_int_add [of "2 :: real" e 1] by (simp add: magnitude_def m(1) quarter [of e])
  ultimately show ?thesis by blast
qed

lemma neighbour_below:
  assumes "float64_ok (F_Fin s m e)"
  shows "\<exists>s' m' e'. candidate m' e' \<and> float_value s' m' e' = magnitude m e - 2 * below m e"
proof (cases "m > 2 ^ 52 \<or> e = -1074")
  case True
  then have b: "2 * below m e = 4 * 2 powi (e - 2)" by (simp add: below_def)
  show ?thesis
  proof (cases "m = 0")
    case True
    then have "float_value True 1 (-1074) = magnitude m e - 2 * below m e" "candidate 1 (-1074)"
      using assms by (auto simp: candidate_def float_value_def magnitude_def b quarter [of "-1074"] below_def)
    then show ?thesis by blast
  next
    case False
    then have "candidate (m - 1) e" using assms True by (auto simp: candidate_def)
    moreover have "float_value False (m - 1) e = magnitude m e - 2 * below m e"
      unfolding b by (simp add: float_value_def magnitude_def quarter [of e] algebra_simps)
    ultimately show ?thesis by blast
  qed
next
  case False
  then have m: "m = 2 ^ 52" "-1074 < e" "e \<le> 971" using assms by auto
  then have "candidate (2 ^ 53 - 1) (e - 1)" by (auto simp: candidate_def)
  moreover have "float_value False (2 ^ 53 - 1) (e - 1) = magnitude m e - 2 * below m e"
    using power_int_add [of "2 :: real" "e - 2" 1] False
    by (simp add: float_value_def magnitude_def m(1) quarter [of e] below_def)
  ultimately show ?thesis by blast
qed

lemma nearest_value_iff:
  assumes "float64_ok (F_Fin neg m e)"
  shows "nearest_value r neg m e \<longleftrightarrow> reads_as (if neg then - r else r) m e"
proof
  define t where "t = (if neg then - r else r)"
  have r: "r = (if neg then - t else t)" by (simp add: t_def)
  show "reads_as t m e \<Longrightarrow> nearest_value r neg m e"
    unfolding r by (rule reads_as_nearest [OF assms])
  assume near: "nearest_value r neg m e"
  have versus: "\<bar>t - magnitude m e\<bar> < \<bar>t - float_value s' m' e'\<bar> \<or>
      \<bar>t - magnitude m e\<bar> = \<bar>t - float_value s' m' e'\<bar> \<and> even m"
    if "candidate m' e'" "float_value s' m' e' \<noteq> magnitude m e" for s' m' e'
  proof -
    have "float_value (s' \<noteq> neg) m' e' \<noteq> float_value neg m e" using that(2) by (auto simp: float_value_def)
    then have "\<bar>r - float_value neg m e\<bar> < \<bar>r - float_value (s' \<noteq> neg) m' e'\<bar> \<or>
        \<bar>r - float_value neg m e\<bar> = \<bar>r - float_value (s' \<noteq> neg) m' e'\<bar> \<and> even m"
      using near that(1) unfolding nearest_value_def by blast
    moreover have "\<bar>r - float_value neg m e\<bar> = \<bar>t - magnitude m e\<bar>"
      "\<bar>r - float_value (s' \<noteq> neg) m' e'\<bar> = \<bar>t - float_value s' m' e'\<bar>"
      unfolding r by (cases neg; cases s'; simp add: float_value_def)+
    ultimately show ?thesis by simp
  qed
  define u where "u = (2 :: real) powi (e - 2)"
  have u: "0 < u" "0 < below m e" by (simp_all add: u_def below_def)
  obtain m1 e1 where "candidate m1 e1" "magnitude m1 e1 = magnitude m e + 4 * u"
    using neighbour_above [OF assms] unfolding u_def by blast
  then have up: "t \<le> magnitude m e + 2 * u" "odd m \<Longrightarrow> t < magnitude m e + 2 * u"
    using versus [of m1 e1 False] u by (auto simp: float_value_def abs_if split: if_splits)
  obtain s2 m2 e2 where "candidate m2 e2" "float_value s2 m2 e2 = magnitude m e - 2 * below m e"
    using neighbour_below [OF assms] by blast
  then have down: "magnitude m e - below m e \<le> t" "odd m \<Longrightarrow> magnitude m e - below m e < t"
    using versus [of m2 e2 s2] u by (auto simp: abs_if split: if_splits)
  show "reads_as t m e"
    using up down by (simp add: reads_as_def interval_ends u_def)
qed

section \<open>The number of digits before the point\<close>

lemma show_nat_length: "0 < n \<Longrightarrow> 10 ^ (length (show_nat n) - 1) \<le> n \<and> n < 10 ^ length (show_nat n)"
proof (induction n rule: show_nat.induct)
  case (1 n)
  show ?case
  proof (cases "n < 10")
    case True
    then show ?thesis using 1 by (simp add: show_nat.simps [of n])
  next
    case False
    then have IH: "10 ^ (length (show_nat (n div 10)) - 1) \<le> n div 10" "n div 10 < 10 ^ length (show_nat (n div 10))"
      using 1 by auto
    obtain l where l: "length (show_nat (n div 10)) = Suc l"
      by (cases "length (show_nat (n div 10))") auto
    have "p \<le> n div 10 \<Longrightarrow> n div 10 < 10 * p \<Longrightarrow> 10 * p \<le> n \<and> n < 10 * (10 * p)" for p
      using div_mult_mod_eq [of n 10] mod_less_divisor [of 10 n] by linarith
    then have "10 ^ Suc l \<le> n \<and> n < 10 ^ Suc (Suc l)" using IH unfolding l by simp
    moreover have "length (show_nat n) = Suc (Suc l)" using False l by (simp add: show_nat.simps [of n])
    ultimately show ?thesis by simp
  qed
qed

lemma ten_powi_Suc: "(10 :: real) powi (k + 1) = 10 * 10 powi k"
  by (simp add: power_int_add)

lemma leading_zeros_bound:
  "magnitude m e < 10 powi (- j) \<Longrightarrow> 10 powi (- (j + int fuel)) \<le> magnitude m e \<Longrightarrow>
   10 powi (- 1 - leading_zeros fuel m e j) \<le> magnitude m e \<and> magnitude m e < 10 powi (- leading_zeros fuel m e j)"
proof (induction fuel arbitrary: j)
  case (Suc fuel)
  have step: "1 \<le> scaled_floor m e (- (j + 1)) \<longleftrightarrow> 10 powi (- (j + 1)) \<le> magnitude m e"
    by (simp only: scaled_floor_real le_floor_iff of_int_1) (simp add: le_divide_eq)
  show ?case
  proof (cases "1 \<le> scaled_floor m e (- (j + 1))")
    case True
    then have "leading_zeros (Suc fuel) m e j = j" by simp
    moreover have "- 1 - j = - (j + 1)" by simp
    ultimately show ?thesis using True Suc.prems(1) step by metis
  next
    case False
    then have "magnitude m e < 10 powi (- (j + 1))" using step by (simp add: not_le)
    from Suc.IH [OF this] Suc.prems False show ?thesis by (simp add: algebra_simps)
  qed
qed simp

lemma decimal_point_bounds:
  assumes "float64_ok (F_Fin s m e)" "0 < m"
  shows "10 powi (decimal_point m e - 1) \<le> magnitude m e" "magnitude m e < 10 powi decimal_point m e"
proof -
  have tiny: "10 powi (- 400) \<le> magnitude m e"
  proof -
    have "(2 :: real) ^ 1074 \<le> 10 ^ 400" by simp
    then have "(10 :: real) powi (- 400) \<le> 2 powi (- 1074)"
      by (simp add: power_int_minus field_simps)
    also have "\<dots> \<le> 2 powi e" using assms(1) by (intro power_int_increasing) auto
    also have "\<dots> \<le> magnitude m e" using assms(2) by (simp add: magnitude_def)
    finally show ?thesis .
  qed
  have "10 powi (decimal_point m e - 1) \<le> magnitude m e \<and> magnitude m e < 10 powi decimal_point m e"
  proof (cases "1 \<le> scaled_floor m e 0")
    case True
    define n where "n = nat (scaled_floor m e 0)"
    have floor: "real n \<le> magnitude m e" "magnitude m e < real n + 1" "0 < n"
      using True unfolding n_def scaled_floor_real by simp_all
    obtain l where l: "length (show_nat n) = Suc l" by (cases "length (show_nat n)") auto
    have dp: "decimal_point m e = int (Suc l)" using True l by (simp add: decimal_point_def Let_def n_def)
    have "10 ^ l \<le> n" "n + 1 \<le> 10 ^ Suc l" using show_nat_length [OF floor(3)] l by auto
    then have "(10 :: real) ^ l \<le> real n" "real n + 1 \<le> 10 ^ Suc l"
      by (simp_all only: of_nat_le_iff [symmetric, where 'a = real] of_nat_power of_nat_numeral of_nat_add of_nat_1)
    moreover have "(10 :: real) powi (decimal_point m e - 1) = 10 ^ l" "(10 :: real) powi decimal_point m e = 10 ^ Suc l"
      unfolding dp using power_int_of_nat [of "10 :: real" "Suc l"] by (simp_all only:) simp
    ultimately show ?thesis using floor by linarith
  next
    case False
    then have "magnitude m e < 10 powi (- 0)" by (simp add: scaled_floor_real le_floor_iff)
    from leading_zeros_bound [OF this, of 400] tiny
    have "10 powi (- 1 - leading_zeros 400 m e 0) \<le> magnitude m e \<and> magnitude m e < 10 powi (- leading_zeros 400 m e 0)"
      by simp
    moreover have "decimal_point m e = - leading_zeros 400 m e 0" using False by (simp add: decimal_point_def Let_def)
    moreover have "- x - 1 = - 1 - x" for x :: int by simp
    ultimately show ?thesis by (simp only:)
  qed
  then show "10 powi (decimal_point m e - 1) \<le> magnitude m e" "magnitude m e < 10 powi decimal_point m e" by auto
qed

section \<open>The search for the shortest decimal\<close>

lemma floor_brackets:
  "scaled_floor m e k * 10 powi k \<le> magnitude m e" "magnitude m e < (scaled_floor m e k + 1) * 10 powi k"
proof -
  have pos: "(0 :: real) < 10 powi k" by simp
  have "real_of_int (scaled_floor m e k) \<le> magnitude m e / 10 powi k"
    "magnitude m e / 10 powi k < real_of_int (scaled_floor m e k) + 1"
    unfolding scaled_floor_real by linarith+
  with pos show "scaled_floor m e k * 10 powi k \<le> magnitude m e" "magnitude m e < (scaled_floor m e k + 1) * 10 powi k"
    by (simp_all add: le_divide_eq divide_less_eq)
qed

lemma decimal_at_Some:
  "decimal_at m e k = Some c \<Longrightarrow> reads_as (c * 10 powi k) m e \<and> (c = scaled_floor m e k \<or> c = scaled_floor m e k + 1)"
  by (auto simp: decimal_at_def Let_def in_interval_reads_as split: if_splits)

lemma decimal_at_None:
  assumes "decimal_at m e k = None"
  shows "\<not> reads_as (real_of_int c * 10 powi k) m e"
proof
  assume c: "reads_as (real_of_int c * 10 powi k) m e"
  have none: "\<not> reads_as (scaled_floor m e k * 10 powi k) m e" "\<not> reads_as ((scaled_floor m e k + 1) * 10 powi k) m e"
    using assms by (auto simp: decimal_at_def Let_def in_interval_reads_as split: if_splits)
  show False
  proof (cases "c \<le> scaled_floor m e k")
    case True
    then have "real_of_int c * 10 powi k \<le> scaled_floor m e k * 10 powi k" by simp
    then show False
      using reads_as_convex [OF c reads_as_itself _ floor_brackets(1)] none(1) by simp
  next
    case False
    then have "real_of_int (scaled_floor m e k + 1) \<le> real_of_int c" by linarith
    then have "(scaled_floor m e k + 1) * 10 powi k \<le> real_of_int c * 10 powi k" by (rule mult_right_mono) simp
    then show False
      using reads_as_convex [OF reads_as_itself c less_imp_le [OF floor_brackets(2)]] none(2) by simp
  qed
qed

text \<open>A step of \<open>10 ^ k\<close> that is shorter than the interval meets it.\<close>

lemma decimal_at_found:
  assumes "10 powi k < below m e + 2 * 2 powi (e - 2)"
  shows "decimal_at m e k \<noteq> None"
proof
  assume none: "decimal_at m e k = None"
  let ?lo = "scaled_floor m e k * 10 powi k" and ?hi = "(scaled_floor m e k + 1) * 10 powi k"
  have hi: "?hi = ?lo + 10 powi k" by (simp add: algebra_simps)
  have pos: "0 < below m e" "0 < (2 :: real) powi (e - 2)" by (simp_all add: below_def)
  have "\<not> reads_as ?lo m e" "\<not> reads_as ?hi m e"
    using decimal_at_None [OF none, of "scaled_floor m e k"] decimal_at_None [OF none, of "scaled_floor m e k + 1"] by simp_all
  then have "?lo \<le> magnitude m e - below m e" "magnitude m e + 2 * 2 powi (e - 2) \<le> ?hi"
    using reads_as_ends [of m e ?lo] reads_as_ends [of m e ?hi] floor_brackets [of m e k] pos by linarith+
  then show False using assms hi by linarith
qed

lemma seventeen_digits:
  assumes "float64_ok (F_Fin s m e)" "0 < m"
  shows "decimal_at m e (decimal_point m e - 17) \<noteq> None"
proof (rule decimal_at_found)
  define u where "u = (2 :: real) powi (e - 2)"
  define t where "t = (10 :: real) powi (decimal_point m e - 17)"
  have pos: "0 < u" "0 < t" by (simp_all add: u_def t_def)
  have "(10 :: real) powi (decimal_point m e - 1) = 10 ^ 16 * t"
    using power_int_add [of "10 :: real" 16 "decimal_point m e - 17"] by (simp add: t_def)
  then have v: "10 ^ 16 * t \<le> real_of_int m * (4 * u)"
    using decimal_point_bounds(1) [OF assms] quarter [of e] by (simp add: magnitude_def u_def)
  show "10 powi (decimal_point m e - 17) < below m e + 2 * 2 powi (e - 2)"
  proof (cases "m > 2 ^ 52 \<or> e = -1074")
    case True
    have "real_of_int m \<le> 2 ^ 53" using assms(1) by auto
    then have "real_of_int m * (4 * u) \<le> 2 ^ 53 * (4 * u)" using pos by (intro mult_right_mono) auto
    then have "10 ^ 16 * t \<le> 2 ^ 53 * (4 * u)" using v by linarith
    then have "t < 4 * u" using pos by simp
    then show ?thesis using True by (simp add: below_def u_def t_def)
  next
    case False
    then have "m = 2 ^ 52" using assms(1) by auto
    then have "10 ^ 16 * t \<le> 2 ^ 52 * (4 * u)" using v by simp
    then have "t < 3 * u" using pos by simp
    then show ?thesis using False by (simp add: below_def u_def t_def)
  qed
qed

lemma shortest_from_found:
  "decimal_at m e (k - int fuel) \<noteq> None \<Longrightarrow> \<exists>c k'. shortest_from (Suc fuel) m e k = (c, k') \<and>
     k - int fuel \<le> k' \<and> k' \<le> k \<and> decimal_at m e k' = Some c \<and> (\<forall>i. k' < i \<and> i \<le> k \<longrightarrow> decimal_at m e i = None)"
proof (induction fuel arbitrary: k)
  case 0
  then show ?case by auto
next
  case (Suc fuel)
  show ?case
  proof (cases "decimal_at m e k")
    case None
    have "decimal_at m e (k - 1 - int fuel) \<noteq> None" using Suc.prems by (simp add: algebra_simps)
    from Suc.IH [OF this] obtain c k' where run: "shortest_from (Suc fuel) m e (k - 1) = (c, k')"
        "k - 1 - int fuel \<le> k'" "k' \<le> k - 1" "decimal_at m e k' = Some c"
        "\<forall>i. k' < i \<and> i \<le> k - 1 \<longrightarrow> decimal_at m e i = None" by blast
    have "decimal_at m e i = None" if "k' < i" "i \<le> k" for i
      using run(5) None that by (cases "i = k") auto
    then show ?thesis using run None by (intro exI [of _ c] exI [of _ k']) simp
  qed auto
qed

section \<open>Reading a decimal text\<close>

definition exponent_value :: "string \<Rightarrow> int" where
  "exponent_value s =
     (case s of [] \<Rightarrow> 0 | c # ds \<Rightarrow> if c = CHR ''-'' then - int (digits_value ds) else int (digits_value ds))"

definition decimal_body :: "string \<Rightarrow> real" where
  "decimal_body s =
     (let mant = takeWhile (\<lambda>c. c \<noteq> CHR ''e'') s; whole = takeWhile (\<lambda>c. c \<noteq> CHR ''.'') mant;
          frac = drop (Suc (length whole)) mant
      in real (digits_value (whole @ frac)) *
           10 powi (exponent_value (drop (Suc (length mant)) s) - int (length frac)))"

definition read_decimal :: "string \<Rightarrow> real" where
  "read_decimal s =
     (case s of [] \<Rightarrow> 0 | c # t \<Rightarrow> if c = CHR ''-'' then - decimal_body t else decimal_body s)"

lemma digits_value_append: "digits_value (a @ b) = digits_value a * 10 ^ length b + digits_value b"
proof (induction b rule: rev_induct)
  case (snoc c b)
  then show ?case by (simp only: append_assoc [symmetric] digits_value_snoc) (simp add: algebra_simps)
qed (simp add: digits_value_def)

lemma digits_value_zeros [simp]: "digits_value (replicate n CHR ''0'') = 0" "digits_value [] = 0"
  by (induction n) (simp_all add: digits_value_def digit_value_def)

lemma digits_value_zero_Cons [simp]: "digits_value (CHR ''0'' # s) = digits_value s"
  using digits_value_append [of "[CHR ''0'']" s] digits_value_zeros(1) [of 1] by simp

lemma exponent_value_text: "exponent_text x = CHR ''e'' # t \<Longrightarrow> exponent_value t = x"
  by (auto simp: exponent_text_def exponent_value_def Let_def split: if_splits)

lemma takeWhile_neq: "c \<notin> set a \<Longrightarrow> takeWhile (\<lambda>x. x \<noteq> c) (a @ c # b) = a" "c \<notin> set a \<Longrightarrow> takeWhile (\<lambda>x. x \<noteq> c) a = a"
  by (induction a) auto

lemma digits_no_mark:
  assumes "list_all is_digit ds"
  shows "CHR ''e'' \<notin> set ds" "CHR ''.'' \<notin> set ds" "CHR ''-'' \<notin> set ds"
  using assms by (auto simp: list_all_iff is_digit_def less_eq_char_def dest!: bspec)

lemma decimal_body_text:
  assumes "list_all is_digit w" "list_all is_digit f" "tail = [] \<and> x = 0 \<or> tail = exponent_text x"
  shows "decimal_body (w @ (if f = [] then [] else ''.'' @ f) @ tail) =
    real (digits_value (w @ f)) * 10 powi (x - int (length f))"
proof -
  define mant where "mant = w @ (if f = [] then [] else ''.'' @ f)"
  have no: "CHR ''e'' \<notin> set mant" using digits_no_mark(1) assms(1,2) by (auto simp: mant_def)
  have "takeWhile (\<lambda>c. c \<noteq> CHR ''.'') mant = w"
    using takeWhile_neq(1) [OF digits_no_mark(2) [OF assms(1)], of f] takeWhile_neq(2) [OF digits_no_mark(2) [OF assms(1)]]
    by (simp add: mant_def)
  moreover have "drop (Suc (length w)) mant = f" by (simp add: mant_def)
  moreover have "takeWhile (\<lambda>c. c \<noteq> CHR ''e'') (mant @ tail) = mant \<and> exponent_value (drop (Suc (length mant)) (mant @ tail)) = x"
  proof (cases "tail = []")
    case True
    then have "x = 0" using assms(3) by (auto simp: exponent_text_def Let_def)
    then show ?thesis using True takeWhile_neq(2) [OF no] by (simp add: exponent_value_def)
  next
    case False
    then obtain t where t: "tail = CHR ''e'' # t" "exponent_text x = CHR ''e'' # t"
      using assms(3) by (auto simp: exponent_text_def Let_def)
    then show ?thesis using takeWhile_neq(1) [OF no] exponent_value_text [OF t(2)] by simp
  qed
  ultimately have "decimal_body (mant @ tail) = real (digits_value (w @ f)) * 10 powi (x - int (length f))"
    by (simp only: decimal_body_def Let_def)
  then show ?thesis by (simp add: mant_def)
qed

lemma powi_shift: "(10 :: real) powi (k + int n) = 10 ^ n * 10 powi k"
  by (simp add: power_int_add)

lemma decimal_layouts:
  assumes "list_all is_digit ds"
  shows "ds \<noteq> [] \<Longrightarrow> decimal_body (format_e ds dp) = real (digits_value ds) * 10 powi (dp - int (length ds))"
    and "decimal_body (format_f ds dp) = real (digits_value ds) * 10 powi (dp - int (length ds))"
proof -
  have parts: "list_all is_digit (take n ds)" "list_all is_digit (drop n ds)" for n
    using assms by (auto simp: list_all_iff dest: in_set_takeD in_set_dropD)
  have zeros: "list_all is_digit (replicate n CHR ''0'')" for n by (simp add: list_all_iff is_digit_def less_eq_char_def)
  show "decimal_body (format_e ds dp) = real (digits_value ds) * 10 powi (dp - int (length ds))" if "ds \<noteq> []"
  proof -
    from that obtain d f where ds: "ds = d # f" by (cases ds) auto
    have "list_all is_digit [d]" "list_all is_digit f" using assms ds by simp_all
    from decimal_body_text [OF this, of "exponent_text (dp - 1)" "dp - 1"] show ?thesis
      by (cases "f = []") (simp_all add: format_e_def ds diff_diff_eq)
  qed
  show "decimal_body (format_f ds dp) = real (digits_value ds) * 10 powi (dp - int (length ds))"
  proof (cases "dp > 0")
    case True
    show ?thesis
    proof (cases "length ds \<le> nat dp")
      case le: True
      define n where "n = nat dp - length ds"
      have dp: "dp = int (length ds) + int n" using True le by (simp add: n_def)
      have "list_all is_digit (ds @ replicate n CHR ''0'')" using assms zeros by simp
      from decimal_body_text [OF this, of "[]" "[]" 0] show ?thesis
        using True le by (simp add: format_f_def digits_value_append dp nat_int_add)
    next
      case False
      then have "length (drop (nat dp) ds) = length ds - nat dp" "drop (nat dp) ds \<noteq> []" by simp_all
      then show ?thesis
        using decimal_body_text [OF parts [of "nat dp"], of "[]" 0] True False by (simp add: format_f_def of_nat_diff)
    qed
  next
    case False
    define n where "n = nat (- dp)"
    have dp: "dp = - int n" using False by (simp add: n_def)
    have digits: "list_all is_digit ''0''" "list_all is_digit (replicate n CHR ''0'' @ ds)"
      using zeros [of 1] zeros [of n] assms by simp_all
    show ?thesis
    proof (cases "ds = []")
      case True
      then show ?thesis
        using decimal_body_text [OF digits(1), of "[]" "[]" 0] False by (simp add: format_f_def)
    next
      case ne: False
      then show ?thesis
        using decimal_body_text [OF digits, of "[]" 0] False
        by (simp add: format_f_def digits_value_append dp)
    qed
  qed
qed

section \<open>Decimal cells\<close>

lemma strip_zeros_split: "\<exists>n. s = strip_zeros s @ replicate n CHR ''0''"
proof -
  let ?t = "takeWhile (\<lambda>c. c = CHR ''0'') (rev s)"
  have "rev s = ?t @ dropWhile (\<lambda>c. c = CHR ''0'') (rev s)" by simp
  then have "s = strip_zeros s @ rev ?t" unfolding strip_zeros.simps by (metis rev_append rev_rev_ident)
  moreover have "rev ?t = replicate (length ?t) CHR ''0''"
    by (intro replicate_eqI) (auto dest: set_takeWhileD)
  ultimately show ?thesis by metis
qed

lemma strip_zeros_length: "length (strip_zeros s) \<le> length s"
  using strip_zeros_split [of s] by (metis length_append le_add1)

lemma strip_zeros_snoc: "strip_zeros (s @ ''0'') = strip_zeros s"
  by simp

lemma show_nat_ten_power: "strip_zeros (show_nat (10 ^ n)) = ''1''"
proof (induction n)
  case 0
  have "show_nat 1 = ''1''" by code_simp
  then show ?case by simp
next
  case (Suc n)
  have "char_of (48 :: nat) = CHR ''0''" by code_simp
  then have "show_nat (10 ^ Suc n) = show_nat (10 ^ n) @ ''0''" by (simp add: show_nat.simps [of "10 * 10 ^ n"])
  then show ?case using Suc strip_zeros_snoc by metis
qed

lemma show_nat_length_le: "0 < n \<Longrightarrow> n < 10 ^ k \<Longrightarrow> length (show_nat n) \<le> k"
proof (rule ccontr)
  assume n: "0 < n" "n < 10 ^ k" "\<not> length (show_nat n) \<le> k"
  then have "(10 :: nat) ^ k \<le> 10 ^ (length (show_nat n) - 1)" by (intro power_increasing) auto
  then show False using show_nat_length [OF n(1)] n(2) by linarith
qed

lemma stripped_length:
  assumes "0 < c" "c \<le> 10 ^ n" "0 < n"
  shows "length (strip_zeros (show_nat c)) \<le> n"
proof (cases "c = 10 ^ n")
  case True
  then show ?thesis using show_nat_ten_power [of n] assms(3) by simp
next
  case False
  then show ?thesis
    using show_nat_length_le [of c n] strip_zeros_length [of "show_nat c"] assms by linarith
qed

text \<open>What the search returns: a decimal in the interval, and none with fewer digits is.\<close>

lemma shortest_search:
  assumes "float64_ok (F_Fin s m e)" "0 < m"
  obtains c n where "shortest_from 17 m e (decimal_point m e - 1) = (c, decimal_point m e - int n)"
    "0 < n" "0 < c" "c \<le> 10 ^ n" "reads_as (c * 10 powi (decimal_point m e - int n)) m e"
    "\<And>i d. decimal_point m e - int n < i \<Longrightarrow> i < decimal_point m e \<Longrightarrow> \<not> reads_as (real_of_int d * 10 powi i) m e"
proof -
  let ?p = "decimal_point m e"
  have "decimal_at m e (?p - 1 - int 16) \<noteq> None" using seventeen_digits [OF assms] by simp
  from shortest_from_found [OF this] obtain c k where run: "shortest_from 17 m e (?p - 1) = (c, k)" "k \<le> ?p - 1"
      "decimal_at m e k = Some c" "\<forall>i. k < i \<and> i \<le> ?p - 1 \<longrightarrow> decimal_at m e i = None"
    by (auto simp: numeral_eq_Suc)
  define n where "n = nat (?p - k)"
  have n: "k = ?p - int n" "0 < n" using run(2) by (auto simp: n_def)
  note c = decimal_at_Some [OF run(3)]
  have pos: "(0 :: real) < 10 powi k" by simp
  have "(10 :: real) powi (k + int n) = 10 ^ n * 10 powi k" by (rule powi_shift)
  then have v: "10 powi k \<le> magnitude m e" "magnitude m e < 10 ^ n * 10 powi k"
    using decimal_point_bounds [OF assms] power_int_increasing [of k "?p - 1" "10 :: real"] n run(2) by auto
  have "1 \<le> scaled_floor m e k" using v(1) pos by (simp add: scaled_floor_real le_floor_iff le_divide_eq)
  moreover have "scaled_floor m e k < 10 ^ n"
  proof -
    have "scaled_floor m e k * 10 powi k < 10 ^ n * 10 powi k" using floor_brackets(1) [of m e k] v(2) by linarith
    then have "real_of_int (scaled_floor m e k) < real_of_int (10 ^ n)" using pos by simp
    then show ?thesis by (simp only: of_int_less_iff)
  qed
  ultimately have "0 < c" "c \<le> 10 ^ n" using c by auto
  moreover have "\<not> reads_as (real_of_int d * 10 powi i) m e" if "k < i" "i < ?p" for i d
    using decimal_at_None run(4) that by auto
  ultimately show ?thesis using that [of c n] run(1) n c by auto
qed

lemma fewest_digits:
  assumes "float64_ok (F_Fin s m e)" "0 < m" "reads_as (real_of_int d * 10 powi i) m e"
    and none: "\<And>i d. decimal_point m e - int n < i \<Longrightarrow> i < decimal_point m e \<Longrightarrow> \<not> reads_as (real_of_int d * 10 powi i) m e"
  shows "n \<le> max 1 (length (show_nat (nat d)))"
proof (rule ccontr)
  let ?p = "decimal_point m e"
  assume "\<not> n \<le> max 1 (length (show_nat (nat d)))"
  then have n: "length (show_nat (nat d)) < n" "1 < n" by auto
  note none = none [of "?p - 1"]
  show False
  proof (cases "?p - int n < i")
    case True
    show False
    proof (cases "i < ?p")
      case True
      then show False using assms(3) assms(4) [OF \<open>?p - int n < i\<close>] by blast
    next
      case False
      define j where "j = nat (i - (?p - 1))"
      have "i = ?p - 1 + int j" using False by (simp add: j_def)
      then have shift: "real_of_int d * 10 powi i = real_of_int (d * 10 ^ j) * 10 powi (?p - 1)"
        by (simp only: powi_shift) simp
      from assms(3) show False unfolding shift using none [of "d * 10 ^ j"] n(2) by simp
    qed
  next
    case False
    have d: "real_of_int d < 10 ^ (n - 1)"
    proof (cases "0 < d")
      case True
      have "nat d < 10 ^ length (show_nat (nat d))" using show_nat_length [of "nat d"] True by simp
      also have "\<dots> \<le> 10 ^ (n - 1)" using n by (intro power_increasing) auto
      finally have "real (nat d) < real (10 ^ (n - 1))" by (simp only: of_nat_less_iff)
      then show ?thesis using True by simp
    next
      case False
      then have "real_of_int d \<le> 0" by simp
      also have "(0 :: real) < 10 ^ (n - 1)" by simp
      finally show ?thesis .
    qed
    have "(10 :: real) powi i \<le> 10 powi (?p - int n)" using False by (intro power_int_increasing) auto
    then have "real_of_int d * 10 powi i \<le> 10 ^ (n - 1) * 10 powi (?p - int n)"
      using d by (intro mult_mono) auto
    also have "\<dots> = 10 powi (?p - 1)"
      using powi_shift [of "?p - int n" "n - 1"] n(2) by (simp add: of_nat_diff algebra_simps)
    finally have "real_of_int d * 10 powi i \<le> 1 * 10 powi (?p - 1)" by simp
    moreover have "1 * 10 powi (?p - 1) \<le> magnitude m e" using decimal_point_bounds(1) [OF assms(1,2)] by simp
    ultimately have "reads_as (1 * 10 powi (?p - 1)) m e"
      using reads_as_convex [OF assms(3) reads_as_itself] by blast
    then show False using none [of 1] n(2) by simp
  qed
qed

lemma read_decimal_signed:
  assumes "body \<noteq> []" "hd body \<noteq> CHR ''-''"
  shows "read_decimal ((if neg then ''-'' else []) @ body) = (if neg then - decimal_body body else decimal_body body)"
  using assms by (cases body) (auto simp: read_decimal_def)

lemma layout_head:
  assumes "list_all is_digit ds"
  shows "ds \<noteq> [] \<Longrightarrow> format_e ds dp \<noteq> [] \<and> hd (format_e ds dp) \<noteq> CHR ''-''"
    and "format_f ds dp \<noteq> [] \<and> hd (format_f ds dp) \<noteq> CHR ''-''"
proof -
  have hd: "c \<noteq> CHR ''-''" if "ds = c # cs" for c cs
    using digits_no_mark(3) [OF assms] that by auto
  show "ds \<noteq> [] \<Longrightarrow> format_e ds dp \<noteq> [] \<and> hd (format_e ds dp) \<noteq> CHR ''-''"
    using hd by (cases ds) (auto simp: format_e_def)
  show "format_f ds dp \<noteq> [] \<and> hd (format_f ds dp) \<noteq> CHR ''-''"
  proof (cases ds)
    case (Cons c cs)
    then show ?thesis using hd by (cases "nat dp") (auto simp: format_f_def)
  qed (cases "nat dp"; simp add: format_f_def)
qed

lemma read_format:
  assumes "shortest_digits m e = (ds, dp)" "list_all is_digit ds" "ds = [] \<Longrightarrow> dp = 0"
  shows "read_decimal (format_float_g (F_Fin neg m e)) =
    (if neg then - 1 else 1) * real (digits_value ds) * 10 powi (dp - int (length ds))"
proof -
  define body where "body = (let x = (if ds = [] then 0 else dp) - 1 in if x < -4 \<or> 6 \<le> x then format_e ds dp else format_f ds dp)"
  have shown: "format_float_g (F_Fin neg m e) = (if neg then ''-'' else []) @ body"
    by (simp add: assms(1) body_def Let_def)
  have "body \<noteq> [] \<and> hd body \<noteq> CHR ''-'' \<and> decimal_body body = real (digits_value ds) * 10 powi (dp - int (length ds))"
  proof (cases "ds = []")
    case True
    then show ?thesis using layout_head(2) [OF assms(2)] decimal_layouts(2) [OF assms(2)] by (simp add: body_def)
  next
    case False
    then show ?thesis
      using layout_head [OF assms(2)] decimal_layouts [OF assms(2)] by (simp add: body_def Let_def)
  qed
  then show ?thesis unfolding shown by (simp add: read_decimal_signed)
qed

text \<open>The digits of a value: its decimal with the fewest digits.\<close>

definition shortest_for :: "string \<Rightarrow> int \<Rightarrow> int \<Rightarrow> int \<Rightarrow> bool" where
  "shortest_for ds dp m e \<longleftrightarrow>
     list_all is_digit ds \<and> reads_as (real (digits_value ds) * 10 powi (dp - int (length ds))) m e \<and>
     (\<forall>d i. reads_as (real_of_int d * 10 powi i) m e \<longrightarrow> length ds \<le> length (show_nat (nat d)))"

lemma shortest_digits_correct:
  assumes "float64_ok (F_Fin s m e)" "0 < m" "shortest_digits m e = (ds, dp)"
  shows "shortest_for ds dp m e" "ds \<noteq> []"
proof -
  obtain c n where search: "shortest_from 17 m e (decimal_point m e - 1) = (c, decimal_point m e - int n)"
    "0 < n" "0 < c" "c \<le> 10 ^ n" "reads_as (c * 10 powi (decimal_point m e - int n)) m e"
    "\<And>i d. decimal_point m e - int n < i \<Longrightarrow> i < decimal_point m e \<Longrightarrow> \<not> reads_as (real_of_int d * 10 powi i) m e"
    by (rule shortest_search [OF assms(1,2)]) (rule that)
  define k where "k = decimal_point m e - int n"
  have ds: "ds = strip_zeros (show_nat (nat c))" "dp = int (length (show_nat (nat c))) + k"
    using assms(2,3) search(1) by (auto simp: shortest_digits_def Let_def k_def)
  obtain z where z: "show_nat (nat c) = ds @ replicate z CHR ''0''"
    using strip_zeros_split [of "show_nat (nat c)"] ds(1) by blast
  have digits: "list_all is_digit ds" using show_nat_digits [of "nat c"] z by simp
  have "nat c = digits_value ds * 10 ^ z"
    using digits_value_show_nat [of "nat c"] unfolding z by (simp add: digits_value_append)
  then have "real_of_int c = real (digits_value ds) * 10 ^ z"
    using search(3) by (metis of_nat_mult of_nat_power of_nat_numeral of_nat_nat less_imp_le)
  moreover have "dp - int (length ds) = k + int z" using ds(2) z by simp
  ultimately have "real_of_int c * 10 powi k = real (digits_value ds) * 10 powi (dp - int (length ds))"
    by (simp add: powi_shift)
  then have reads: "reads_as (real (digits_value ds) * 10 powi (dp - int (length ds))) m e"
    using search(5) by (simp add: k_def)
  have "length ds \<le> n"
    using stripped_length [of "nat c" n] search(2-4) ds(1) by (simp add: nat_le_iff)
  then have "length ds \<le> length (show_nat (nat d))" if "reads_as (real_of_int d * 10 powi i) m e" for d i
  proof -
    have "1 \<le> length (show_nat (nat d))" by (cases "show_nat (nat d)") auto
    then show ?thesis using fewest_digits [OF assms(1,2) that search(6)] \<open>length ds \<le> n\<close> by simp
  qed
  with digits reads show "shortest_for ds dp m e" by (simp add: shortest_for_def)
  show "ds \<noteq> []"
  proof
    assume "ds = []"
    then have "nat c = 0" using \<open>nat c = digits_value ds * 10 ^ z\<close> by simp
    then show False using search(3) by simp
  qed
qed



end
