(* ===== verification/Database_Dal.thy ===== *)
theory Database_Dal
  imports Database
begin

text \<open>
  database_dal.go: the operations of dal.DB and the direct writes, delegated to package dalgo2sql. Its
  database is the parameter \<open>dal_db\<close>, whose operations act on a state \<open>'s\<close>; the writer that dal.As finds
  behind it, if any, is the parameter \<open>write_db\<close>.
\<close>

section \<open>The interfaces\<close>

text \<open>writeDB: \<open>'r\<close> is a record, \<open>'k\<close> a key, \<open>'o\<close> the insert options, \<open>'u\<close> updates with preconditions.\<close>

record ('s, 'r, 'k, 'o, 'u) write_db =
  wd_Set :: "'r \<Rightarrow> 's \<Rightarrow> err option \<times> 's"
  wd_SetMulti :: "'r list \<Rightarrow> 's \<Rightarrow> err option \<times> 's"
  wd_Insert :: "'r \<Rightarrow> 'o \<Rightarrow> 's \<Rightarrow> err option \<times> 's"
  wd_Upsert :: "'r \<Rightarrow> 's \<Rightarrow> err option \<times> 's"
  wd_Delete :: "'k \<Rightarrow> 's \<Rightarrow> err option \<times> 's"
  wd_DeleteMulti :: "'k list \<Rightarrow> 's \<Rightarrow> err option \<times> 's"
  wd_Update :: "'k \<Rightarrow> 'u \<Rightarrow> 's \<Rightarrow> err option \<times> 's"
  wd_UpdateMulti :: "'k list \<Rightarrow> 'u \<Rightarrow> 's \<Rightarrow> err option \<times> 's"

text \<open>
  dal.DB and dal.As: \<open>'f\<close> is a transaction worker with its options, \<open>'q\<close> a query with its options, \<open>'v\<close> a
  reader of results.
\<close>

record ('s, 'r, 'k, 'o, 'u, 'f, 'q, 'v) dal_db =
  dd_ID :: string
  dd_Schema :: string
  dd_RunReadonlyTransaction :: "'f \<Rightarrow> 's \<Rightarrow> err option \<times> 's"
  dd_RunReadwriteTransaction :: "'f \<Rightarrow> 's \<Rightarrow> err option \<times> 's"
  dd_Get :: "'r \<Rightarrow> 's \<Rightarrow> err option \<times> 's"
  dd_GetMulti :: "'r list \<Rightarrow> 's \<Rightarrow> err option \<times> 's"
  dd_Exists :: "'k \<Rightarrow> 's \<Rightarrow> (err + bool) \<times> 's"
  dd_ExecuteQueryToRecordsReader :: "'q \<Rightarrow> 's \<Rightarrow> (err + 'v) \<times> 's"
  dd_ExecuteQueryToRecordsetReader :: "'q \<Rightarrow> 's \<Rightarrow> (err + 'v) \<times> 's"
  dd_As_writeDB :: "('s, 'r, 'k, 'o, 'u) write_db option"

type_synonym ('s, 'r, 'k, 'o, 'u, 'f, 'q, 'v) dal_database =
  "(('s, 'r, 'k, 'o, 'u, 'f, 'q, 'v) dal_db, nat) database"

text \<open>A method of the embedded interface; called on a nil interface it panics.\<close>

definition nil_panic :: err where
  "nil_panic = Newf ''runtime error: invalid memory address or nil pointer dereference'' []"

definition delegate ::
  "('db, 'h) database \<Rightarrow> ('db \<Rightarrow> 's \<Rightarrow> err option \<times> 's) \<Rightarrow> 's \<Rightarrow> err option \<times> 's" where
  "delegate d f s = (case da_DB d of None \<Rightarrow> (Some nil_panic, s) | Some db \<Rightarrow> f db s)"

definition delegate_value ::
  "('db, 'h) database \<Rightarrow> ('db \<Rightarrow> 's \<Rightarrow> (err + 'a) \<times> 's) \<Rightarrow> 's \<Rightarrow> (err + 'a) \<times> 's" where
  "delegate_value d f s = (case da_DB d of None \<Rightarrow> (Inl nil_panic, s) | Some db \<Rightarrow> f db s)"

section \<open>Delegation of dal.DB\<close>

definition Database_RunReadonlyTransaction where
  "Database_RunReadonlyTransaction d f = delegate d (\<lambda>db. dd_RunReadonlyTransaction db f)"

definition Database_RunReadwriteTransaction where
  "Database_RunReadwriteTransaction d f = delegate d (\<lambda>db. dd_RunReadwriteTransaction db f)"

definition Database_Get where
  "Database_Get d record' = delegate d (\<lambda>db. dd_Get db record')"

definition Database_GetMulti where
  "Database_GetMulti d records = delegate d (\<lambda>db. dd_GetMulti db records)"

definition Database_Exists where
  "Database_Exists d key = delegate_value d (\<lambda>db. dd_Exists db key)"

definition Database_ExecuteQueryToRecordsReader where
  "Database_ExecuteQueryToRecordsReader d query = delegate_value d (\<lambda>db. dd_ExecuteQueryToRecordsReader db query)"

definition Database_ExecuteQueryToRecordsetReader where
  "Database_ExecuteQueryToRecordsetReader d query = delegate_value d (\<lambda>db. dd_ExecuteQueryToRecordsetReader db query)"

definition Database_ID where "Database_ID d = map_option dd_ID (da_DB d)"
definition Database_Schema where "Database_Schema d = map_option dd_Schema (da_DB d)"

section \<open>Direct writes\<close>

text \<open>dal.As on the embedded dal.DB; there is no writer behind a nil one.\<close>

definition backendWriter where
  "backendWriter d = (case da_DB d of None \<Rightarrow> None | Some db \<Rightarrow> dd_As_writeDB db)"

definition with_writer where
  "with_writer d f s = (case backendWriter d of None \<Rightarrow> (Some Err_Not_Implemented_Yet, s) | Some w \<Rightarrow> f w s)"

definition Database_Set where "Database_Set d record' = with_writer d (\<lambda>w. wd_Set w record')"
definition Database_SetMulti where "Database_SetMulti d records = with_writer d (\<lambda>w. wd_SetMulti w records)"
definition Database_Insert where "Database_Insert d record' opts = with_writer d (\<lambda>w. wd_Insert w record' opts)"
definition Database_Upsert where "Database_Upsert d record' = with_writer d (\<lambda>w. wd_Upsert w record')"
definition Database_Delete where "Database_Delete d key = with_writer d (\<lambda>w. wd_Delete w key)"
definition Database_DeleteMulti where "Database_DeleteMulti d keys = with_writer d (\<lambda>w. wd_DeleteMulti w keys)"
definition Database_Update where "Database_Update d key updates = with_writer d (\<lambda>w. wd_Update w key updates)"
definition Database_UpdateMulti where "Database_UpdateMulti d keys updates = with_writer d (\<lambda>w. wd_UpdateMulti w keys updates)"

definition Database_UpdateRecord where
  "Database_UpdateRecord d record' updates s = (Some Err_Not_Implemented_Yet, s)"

section \<open>Sequences of writes\<close>

datatype ('r, 'k, 'o, 'u) write_call =
    Call_Set 'r | Call_SetMulti "'r list" | Call_Insert 'r 'o | Call_Upsert 'r | Call_Delete 'k
  | Call_DeleteMulti "'k list" | Call_Update 'k 'u | Call_UpdateMulti "'k list" 'u | Call_UpdateRecord 'r 'u

fun write_on where
  "write_on d (Call_Set r) = Database_Set d r"
| "write_on d (Call_SetMulti rs) = Database_SetMulti d rs"
| "write_on d (Call_Insert r opts) = Database_Insert d r opts"
| "write_on d (Call_Upsert r) = Database_Upsert d r"
| "write_on d (Call_Delete k) = Database_Delete d k"
| "write_on d (Call_DeleteMulti ks) = Database_DeleteMulti d ks"
| "write_on d (Call_Update k u) = Database_Update d k u"
| "write_on d (Call_UpdateMulti ks u) = Database_UpdateMulti d ks u"
| "write_on d (Call_UpdateRecord r u) = Database_UpdateRecord d r u"

fun backend_write where
  "backend_write w (Call_Set r) s = wd_Set w r s"
| "backend_write w (Call_SetMulti rs) s = wd_SetMulti w rs s"
| "backend_write w (Call_Insert r opts) s = wd_Insert w r opts s"
| "backend_write w (Call_Upsert r) s = wd_Upsert w r s"
| "backend_write w (Call_Delete k) s = wd_Delete w k s"
| "backend_write w (Call_DeleteMulti ks) s = wd_DeleteMulti w ks s"
| "backend_write w (Call_Update k u) s = wd_Update w k u s"
| "backend_write w (Call_UpdateMulti ks u) s = wd_UpdateMulti w ks u s"
| "backend_write w (Call_UpdateRecord r u) s = (Some Err_Not_Implemented_Yet, s)"

fun run_writes where
  "run_writes f [] s = ([], s)"
| "run_writes f (c # cs) s = (case f c s of (r, s') \<Rightarrow> case run_writes f cs s' of (rs, s'') \<Rightarrow> (r # rs, s''))"

lemma write_on_backend:
  "write_on d c s = (case backendWriter d of None \<Rightarrow> (Some Err_Not_Implemented_Yet, s) | Some w \<Rightarrow> backend_write w c s)"
  by (cases c)
    (simp_all add: Database_Set_def Database_SetMulti_def Database_Insert_def Database_Upsert_def Database_Delete_def
      Database_DeleteMulti_def Database_Update_def Database_UpdateMulti_def Database_UpdateRecord_def with_writer_def
      split: option.split)

text \<open>The direct writes of a Database are those of the backend behind its dal.DB, call by call, in any
  sequence, except UpdateRecord, which is never implemented; and a Database whose dal.DB has no such
  backend answers every write with "not implemented yet" and changes nothing.\<close>

theorem direct_writes:
  "run_writes (write_on d) calls s =
     (case backendWriter d of
        None \<Rightarrow> (replicate (length calls) (Some Err_Not_Implemented_Yet), s)
      | Some w \<Rightarrow> run_writes (backend_write w) calls s)"
  by (induction calls arbitrary: s) (auto simp: write_on_backend split: option.splits prod.splits)

end
