(* ===== verification/Borrowed_Reader.thy ===== *)
theory Borrowed_Reader
  imports Schema_Constraints Database
begin

text \<open>
  schema_reader_borrowed.go: a schema reader over a handle that the caller opened and keeps, and the
  interface of schema readers as a locale, which both the Database and the borrowed reader implement.
\<close>

section \<open>The interface\<close>

record 'd schema_reader =
  rd_ListCollections :: "('d, string list) io"
  rd_DescribeCollection :: "string \<Rightarrow> ('d, collection_def) io"
  rd_ListIndexes :: "string \<Rightarrow> ('d, index_def list) io"
  rd_ListConstraints :: "string \<Rightarrow> ('d, constraint_def list) io"
  rd_ListReferrers :: "string \<Rightarrow> ('d, referrer list) io"

text \<open>A program that reads a schema: calls, and the reply to each. A failed call ends nothing.\<close>

datatype reader_call =
    Ask_Collections | Ask_Describe string | Ask_Indexes string | Ask_Constraints string | Ask_Referrers string

datatype reply =
    Collections "string list" | Described collection_def | Indexes "index_def list"
  | Constraints "constraint_def list" | Referrers "referrer list"

definition io_reply :: "('a \<Rightarrow> reply) \<Rightarrow> ('d, 'a) io \<Rightarrow> ('d, reply) io" where
  "io_reply f m = io_bind m (\<lambda>x. io_return (f x))"

fun reader_ask :: "'d schema_reader \<Rightarrow> reader_call \<Rightarrow> ('d, reply) io" where
  "reader_ask rd Ask_Collections = io_reply Collections (rd_ListCollections rd)"
| "reader_ask rd (Ask_Describe n) = io_reply Described (rd_DescribeCollection rd n)"
| "reader_ask rd (Ask_Indexes n) = io_reply Indexes (rd_ListIndexes rd n)"
| "reader_ask rd (Ask_Constraints n) = io_reply Constraints (rd_ListConstraints rd n)"
| "reader_ask rd (Ask_Referrers n) = io_reply Referrers (rd_ListReferrers rd n)"

fun reader_run :: "'d schema_reader \<Rightarrow> reader_call list \<Rightarrow> 'd pool \<Rightarrow> reply outcome list \<times> 'd pool" where
  "reader_run rd [] p = ([], p)"
| "reader_run rd (c # cs) p =
     (case reader_ask rd c p of (r, q) \<Rightarrow> case reader_run rd cs q of (rs, q') \<Rightarrow> (r # rs, q'))"

text \<open>The law: every operation works with one connection and gives back what it takes.\<close>

locale reader_contract =
  fixes rd :: "'d schema_reader"
  assumes collections: "pool_safe (rd_ListCollections rd)"
    and describe: "pool_safe (rd_DescribeCollection rd n)"
    and indexes: "pool_safe (rd_ListIndexes rd n)"
    and constraints: "pool_safe (rd_ListConstraints rd n)"
    and referrers: "pool_safe (rd_ListReferrers rd n)"
begin

lemma ask_safe: "pool_safe (reader_ask rd c)"
  by (cases c) (auto simp: io_reply_def intro!: pool_safe_bind pool_safe_return collections describe indexes constraints referrers)

lemma never_stuck:
  "pl_open p = [] \<Longrightarrow> Blocked \<notin> set (fst (reader_run rd cs p)) \<and> pl_open (snd (reader_run rd cs p)) = []"
proof (induction cs arbitrary: p)
  case (Cons c cs)
  obtain r q where ask: "reader_ask rd c p = (r, q)" by fastforce
  then have "r \<noteq> Blocked" "pl_open q = []"
    using pool_safe_run [OF ask_safe [of c] Cons.prems] by simp_all
  with Cons.IH [of q] ask show ?case by (cases "reader_run rd cs q") simp
qed simp

end

section \<open>Implementations\<close>

text \<open>
  The five methods of Database. A Database without a handle is not made by this package; its methods
  would panic.
\<close>

definition nil_handle :: err where
  "nil_handle = Newf ''runtime error: invalid memory address or nil pointer dereference'' []"

definition on_handle :: "('db, 'd engine) database \<Rightarrow> ('d engine \<Rightarrow> ('d, 'a) io) \<Rightarrow> ('d, 'a) io" where
  "on_handle d f = (case da_sqlDB d of None \<Rightarrow> io_fail nil_handle | Some E \<Rightarrow> f E)"

definition database_reader :: "('db, 'd engine) database \<Rightarrow> 'd schema_reader" where
  "database_reader d =
     \<lparr>rd_ListCollections = on_handle d (\<lambda>E. ListCollections E (da_lenient d)),
      rd_DescribeCollection = (\<lambda>ref. on_handle d (\<lambda>E. DescribeCollection E (da_lenient d) ref)),
      rd_ListIndexes = (\<lambda>ref. on_handle d (\<lambda>E. ListIndexes E (da_lenient d) ref)),
      rd_ListConstraints = (\<lambda>ref. on_handle d (\<lambda>E. ListConstraints E ref)),
      rd_ListReferrers = (\<lambda>ref. on_handle d (\<lambda>E. ListReferrers E (da_lenient d) ref))\<rparr>"

text \<open>borrowedSchemaReader holds a Database without a dal.DB and hands on the five methods.\<close>

record 'd borrowedSchemaReader =
  br_db :: "(unit, 'd engine) database"

definition borrowed_ListCollections :: "'d borrowedSchemaReader \<Rightarrow> ('d, string list) io" where
  "borrowed_ListCollections r = rd_ListCollections (database_reader (br_db r))"

definition borrowed_DescribeCollection :: "'d borrowedSchemaReader \<Rightarrow> string \<Rightarrow> ('d, collection_def) io" where
  "borrowed_DescribeCollection r = rd_DescribeCollection (database_reader (br_db r))"

definition borrowed_ListIndexes :: "'d borrowedSchemaReader \<Rightarrow> string \<Rightarrow> ('d, index_def list) io" where
  "borrowed_ListIndexes r = rd_ListIndexes (database_reader (br_db r))"

definition borrowed_ListConstraints :: "'d borrowedSchemaReader \<Rightarrow> string \<Rightarrow> ('d, constraint_def list) io" where
  "borrowed_ListConstraints r = rd_ListConstraints (database_reader (br_db r))"

definition borrowed_ListReferrers :: "'d borrowedSchemaReader \<Rightarrow> string \<Rightarrow> ('d, referrer list) io" where
  "borrowed_ListReferrers r = rd_ListReferrers (database_reader (br_db r))"

definition borrowed_reader :: "'d borrowedSchemaReader \<Rightarrow> 'd schema_reader" where
  "borrowed_reader r =
     \<lparr>rd_ListCollections = borrowed_ListCollections r, rd_DescribeCollection = borrowed_DescribeCollection r,
      rd_ListIndexes = borrowed_ListIndexes r, rd_ListConstraints = borrowed_ListConstraints r,
      rd_ListReferrers = borrowed_ListReferrers r\<rparr>"

definition newSchemaReader :: "'d engine option \<Rightarrow> bool \<Rightarrow> err + 'd borrowedSchemaReader" where
  "newSchemaReader sqlDB lenient =
     (case sqlDB of
        None \<Rightarrow> Inl Err_Nil_Sql_DB
      | Some E \<Rightarrow> Inr \<lparr>br_db = \<lparr>da_DB = None, da_sqlDB = Some E, da_dbPath = [], da_lenient = lenient\<rparr>\<rparr>)"

definition NewSchemaReader :: "'d engine option \<Rightarrow> err + 'd borrowedSchemaReader" where
  "NewSchemaReader sqlDB = newSchemaReader sqlDB False"

definition NewLenientSchemaReader :: "'d engine option \<Rightarrow> err + 'd borrowedSchemaReader" where
  "NewLenientSchemaReader sqlDB = newSchemaReader sqlDB True"

lemma pool_safe_on_handle: "(\<And>E. pool_safe (f E)) \<Longrightarrow> pool_safe (on_handle d f)"
  by (auto simp: on_handle_def intro: pool_safe_fail split: option.split)

interpretation native: reader_contract "database_reader d" for d :: "('db, 'd engine) database"
  by unfold_locales (auto simp: database_reader_def DescribeCollection_def intro!: pool_safe_on_handle pool_rules)

interpretation borrowed: reader_contract "borrowed_reader r" for r :: "'d borrowedSchemaReader"
  by unfold_locales
    (simp_all add: borrowed_reader_def borrowed_ListCollections_def borrowed_DescribeCollection_def
      borrowed_ListIndexes_def borrowed_ListConstraints_def borrowed_ListReferrers_def
      native.collections native.describe native.indexes native.constraints native.referrers)

lemma borrowed_is_database: "borrowed_reader r = database_reader (br_db r)"
  by (simp add: borrowed_reader_def borrowed_ListCollections_def borrowed_DescribeCollection_def
      borrowed_ListIndexes_def borrowed_ListConstraints_def borrowed_ListReferrers_def database_reader_def)

text \<open>C21: A borrowed schema reader never gets stuck and leaks no connection: whatever sequence of its five
  operations a program calls on a pool with no connection in use, and whatever SQLite answers, no call
  waits for a connection, even if the pool is limited to one, and afterwards none is in use. The same
  holds of the schema readers of a Database.\<close>

theorem borrowed_reader_never_stuck:
  assumes "newSchemaReader (Some E) lenient = Inr r" "pl_open p = []"
  shows "Blocked \<notin> set (fst (reader_run (borrowed_reader r) calls p)) \<and>
    pl_open (snd (reader_run (borrowed_reader r) calls p)) = [] \<and>
    Blocked \<notin> set (fst (reader_run (database_reader d) calls p)) \<and>
    pl_open (snd (reader_run (database_reader d) calls p)) = []"
  using borrowed.never_stuck [OF assms(2)] native.never_stuck [OF assms(2)] by blast

text \<open>A borrowed reader needs a handle and is the Database over it: without a handle it is refused; with
  one, every sequence of calls is answered exactly as by a strict or lenient Database on that handle.\<close>

theorem borrowed_reader_same_answers:
  "NewSchemaReader None = Inl Err_Nil_Sql_DB \<and> NewLenientSchemaReader None = Inl Err_Nil_Sql_DB \<and>
   (\<exists>r. newSchemaReader (Some E) lenient = Inr r \<and>
      reader_run (borrowed_reader r) calls p =
        reader_run (database_reader \<lparr>da_DB = db, da_sqlDB = Some E, da_dbPath = path, da_lenient = lenient\<rparr>) calls p)"
  by (simp add: NewSchemaReader_def NewLenientSchemaReader_def newSchemaReader_def borrowed_is_database
      database_reader_def on_handle_def)

text \<open>An engine that refuses everything, on a pool of one connection.\<close>

definition broken_engine :: "unit engine" where
  "broken_engine = \<lparr>eng_query = (\<lambda>q args d. (Inl (Sqlite_Error 11), d)), eng_exec = (\<lambda>q args d. (Some (Sqlite_Error 11), d)),
     eng_begin = (\<lambda>d. (None, d)), eng_commit = (\<lambda>d. (None, d)), eng_rollback = (\<lambda>d. (None, d))\<rparr>"

theorem borrowed_reader_never_stuck_witness:
  "\<exists>r. newSchemaReader (Some broken_engine) True = Inr r \<and>
     Blocked \<notin> set (fst (reader_run (borrowed_reader r) [Ask_Describe ''t'', Ask_Collections] (one_connection ()))) \<and>
     pl_open (snd (reader_run (borrowed_reader r) [Ask_Describe ''t'', Ask_Collections] (one_connection ()))) = []"
proof -
  obtain r where r: "newSchemaReader (Some broken_engine) True = Inr r"
    by (simp add: newSchemaReader_def)
  moreover have "pl_open (one_connection ()) = []" by (simp add: one_connection_def)
  ultimately show ?thesis using borrowed_reader_never_stuck [OF r] by blast
qed

end
