(* ===== verification/Table_Read.thy ===== *)
theory Table_Read
  imports Sql_Store "HOL-Library.Word"
begin

text \<open>
  table_read.go: a read of one table over a private read-only connection. The span opens a handle, a
  connection and a transaction that is always rolled back, checks the file and the table, bounds the
  size of a cell, and closes everything, in this order, when any step fails.
\<close>

section \<open>Arguments\<close>

text \<open>The regular expression \<open>^[A-Za-z_][A-Za-z0-9_]{0,127}$\<close>.\<close>

definition name_start :: "char \<Rightarrow> bool" where
  "name_start c \<longleftrightarrow> (CHR ''A'' \<le> c \<and> c \<le> CHR ''Z'') \<or> (CHR ''a'' \<le> c \<and> c \<le> CHR ''z'') \<or> c = CHR ''_''"

definition tableReadName :: "string \<Rightarrow> bool" where
  "tableReadName s =
     (case s of [] \<Rightarrow> False
      | c # rest \<Rightarrow> name_start c \<and> list_all (\<lambda>c. name_start c \<or> is_digit c) rest \<and> length rest \<le> 127)"

text \<open>Package path/filepath on Unix: absolute paths, and Clean as the lexical processing it documents.\<close>

definition is_abs :: "string \<Rightarrow> bool" where
  "is_abs p = (case p of [] \<Rightarrow> False | c # _ \<Rightarrow> c = CHR ''/'')"

fun split_slash :: "string \<Rightarrow> string list" where
  "split_slash [] = [[]]"
| "split_slash (c # s) =
     (if c = CHR ''/'' then [] # split_slash s
      else case split_slash s of [] \<Rightarrow> [[c]] | seg # segs \<Rightarrow> (c # seg) # segs)"

text \<open>The segments kept so far, last first.\<close>

definition clean_step :: "bool \<Rightarrow> string list \<Rightarrow> string \<Rightarrow> string list" where
  "clean_step rooted kept seg =
     (if seg = [] \<or> seg = ''.'' then kept
      else if seg = ''..''
      then (case kept of
          [] \<Rightarrow> if rooted then [] else [seg]
        | parent # rest \<Rightarrow> if parent = ''..'' then seg # kept else rest)
      else seg # kept)"

definition path_clean :: "string \<Rightarrow> string" where
  "path_clean p =
     (let body = go_join ''/'' (rev (foldl (clean_step (is_abs p)) [] (split_slash p)))
      in if is_abs p then CHR ''/'' # body else if body = [] then ''.'' else body)"

record limits =
  lim_MaxBytes :: "32 word"
  lim_MaxColumns :: "32 word"

definition admitted :: "bool \<Rightarrow> string \<Rightarrow> string \<Rightarrow> string \<Rightarrow> limits \<Rightarrow> bool" where
  "admitted has_ctx filename namespace table lim \<longleftrightarrow>
     has_ctx \<and> is_abs filename \<and> path_clean filename = filename \<and> namespace = ''main'' \<and>
     tableReadName table \<and> \<not> take 7 (map ascii_lower table) = ''sqlite_'' \<and>
     \<not> (lim_MaxBytes lim = 0 \<or> lim_MaxBytes lim > 256 * 1024 \<or> lim_MaxColumns lim = 0 \<or> lim_MaxColumns lim > 128)"

section \<open>The URI\<close>

text \<open>
  url.URL.String for a scheme, a path and a raw query: what package url escapes in a path.
\<close>

definition path_safe :: "char \<Rightarrow> bool" where
  "path_safe c \<longleftrightarrow> (CHR ''a'' \<le> c \<and> c \<le> CHR ''z'') \<or> (CHR ''A'' \<le> c \<and> c \<le> CHR ''Z'') \<or> is_digit c \<or>
     c \<in> set ''-_.~$&+,/:;=@''"

definition hex_digit :: "nat \<Rightarrow> char" where
  "hex_digit n = ''0123456789ABCDEF'' ! n"

definition url_escape_char :: "char \<Rightarrow> string" where
  "url_escape_char c =
     (if path_safe c then [c] else [CHR ''%'', hex_digit (of_char c div 16), hex_digit (of_char c mod 16)])"

definition url_escape :: "string \<Rightarrow> string" where
  "url_escape s = concat (map url_escape_char s)"

definition table_read_uri :: "string \<Rightarrow> string" where
  "table_read_uri filename = ''file://'' @ url_escape filename @ ''?mode=ro''"

section \<open>Native calls\<close>

text \<open>
  The driver and SQLite: \<open>'d\<close> is the state of everything outside, the caller's context included, whose
  error \<open>nv_ctx_err\<close> reads. \<open>nv_open\<close>, \<open>nv_limit\<close> and \<open>nv_session\<close> are the three dependencies the code takes as
  parameters; a session \<open>None\<close> is nil.
\<close>

datatype limit_id = LIMIT_LENGTH | LIMIT_COLUMN

record ('d, 's) native =
  nv_ctx_err :: "'d \<Rightarrow> err option"
  nv_open :: "string \<Rightarrow> string \<Rightarrow> 'd \<Rightarrow> err option \<times> 'd"
  nv_limit :: "limit_id \<Rightarrow> int \<Rightarrow> 'd \<Rightarrow> (err + int) \<times> 'd"
  nv_session :: "'d \<Rightarrow> (err + 's option) \<times> 'd"
  nv_conn :: "'d \<Rightarrow> err option \<times> 'd"
  nv_engine :: "'d engine"
  nv_close_conn :: "'d \<Rightarrow> err option \<times> 'd"
  nv_close_db :: "'d \<Rightarrow> err option \<times> 'd"

record table_read_facts =
  tf_Filename :: string
  tf_Namespace :: string
  tf_Table :: string
  tf_Columns :: "string list"
  tf_MaxBytes :: "32 word"
  tf_MaxColumns :: "32 word"
  tf_MaxCellBytes :: "32 word"
  tf_Encoding :: string

text \<open>
  TableReadSpan with the state outside. \<open>sp_db\<close>, \<open>sp_conn\<close> and \<open>sp_tx\<close>: the field is set; \<open>sp_open_db\<close> and so
  on: what it refers to has been opened and not closed. \<open>sp_life\<close> is the error of the lifetime context once
  its cancel function was called; before, it has the error of the caller's context.
\<close>

record ('d, 's) span =
  sp_native :: 'd
  sp_life :: "err option"
  sp_db :: bool
  sp_conn :: bool
  sp_tx :: bool
  sp_open_db :: bool
  sp_open_conn :: bool
  sp_open_tx :: bool
  sp_session :: "'s option"
  sp_facts :: table_read_facts
  sp_closed :: bool

definition no_facts :: table_read_facts where
  "no_facts = \<lparr>tf_Filename = [], tf_Namespace = [], tf_Table = [], tf_Columns = [], tf_MaxBytes = 0,
     tf_MaxColumns = 0, tf_MaxCellBytes = 0, tf_Encoding = []\<rparr>"

definition new_span :: "'d \<Rightarrow> ('d, 's) span" where
  "new_span d = \<lparr>sp_native = d, sp_life = None, sp_db = False, sp_conn = False, sp_tx = False, sp_open_db = False,
     sp_open_conn = False, sp_open_tx = False, sp_session = None, sp_facts = no_facts, sp_closed = False\<rparr>"

definition life_err :: "('d, 's) native \<Rightarrow> ('d, 's) span \<Rightarrow> err option" where
  "life_err N s = (case sp_life s of Some e \<Rightarrow> Some e | None \<Rightarrow> nv_ctx_err N (sp_native s))"

text \<open>The cancel function: the first error of the context stays.\<close>

definition cancel_life :: "('d, 's) native \<Rightarrow> ('d, 's) span \<Rightarrow> ('d, 's) span" where
  "cancel_life N s = s\<lparr>sp_life := Some (case life_err N s of Some e \<Rightarrow> e | None \<Rightarrow> Err_Canceled)\<rparr>"

type_synonym ('d, 's, 'a) step = "('d, 's) span \<Rightarrow> (err + 'a) \<times> ('d, 's) span"

definition st_return :: "'a \<Rightarrow> ('d, 's, 'a) step" where
  "st_return x = (\<lambda>s. (Inr x, s))"

definition st_fail :: "err \<Rightarrow> ('d, 's, 'a) step" where
  "st_fail e = (\<lambda>s. (Inl e, s))"

definition st_bind :: "('d, 's, 'a) step \<Rightarrow> ('a \<Rightarrow> ('d, 's, 'b) step) \<Rightarrow> ('d, 's, 'b) step" where
  "st_bind m f = (\<lambda>s. case m s of (Inl e, t) \<Rightarrow> (Inl e, t) | (Inr x, t) \<Rightarrow> f x t)"

definition st_check :: "bool \<Rightarrow> err \<Rightarrow> ('d, 's, unit) step" where
  "st_check ok e = (if ok then st_return () else st_fail e)"

definition st_native :: "('d \<Rightarrow> err option \<times> 'd) \<Rightarrow> ('d, 's, unit) step" where
  "st_native f = (\<lambda>s. case f (sp_native s) of
      (Some e, d) \<Rightarrow> (Inl e, s\<lparr>sp_native := d\<rparr>) | (None, d) \<Rightarrow> (Inr (), s\<lparr>sp_native := d\<rparr>))"

definition st_ask :: "('d \<Rightarrow> (err + 'a) \<times> 'd) \<Rightarrow> ('d, 's, 'a) step" where
  "st_ask f = (\<lambda>s. case f (sp_native s) of (r, d) \<Rightarrow> (r, s\<lparr>sp_native := d\<rparr>))"

definition st_update :: "(('d, 's) span \<Rightarrow> ('d, 's) span) \<Rightarrow> ('d, 's, unit) step" where
  "st_update f = (\<lambda>s. (Inr (), f s))"

definition st_live :: "('d, 's) native \<Rightarrow> ('d, 's, unit) step" where
  "st_live N = (\<lambda>s. case life_err N s of Some e \<Rightarrow> (Inl e, s) | None \<Rightarrow> (Inr (), s))"

section \<open>Close, Session and Facts\<close>

definition span_rollback :: "('d, 's) native \<Rightarrow> ('d, 's) span \<Rightarrow> err option \<times> ('d, 's) span" where
  "span_rollback N s = (case eng_rollback (nv_engine N) (sp_native s) of
     (e, d) \<Rightarrow> (e, s\<lparr>sp_native := d, sp_open_tx := False\<rparr>))"

definition span_close_conn :: "('d, 's) native \<Rightarrow> ('d, 's) span \<Rightarrow> err option \<times> ('d, 's) span" where
  "span_close_conn N s = (case nv_close_conn N (sp_native s) of
     (e, d) \<Rightarrow> (e, s\<lparr>sp_native := d, sp_open_conn := False\<rparr>))"

definition span_close_db :: "('d, 's) native \<Rightarrow> ('d, 's) span \<Rightarrow> err option \<times> ('d, 's) span" where
  "span_close_db N s = (case nv_close_db N (sp_native s) of
     (e, d) \<Rightarrow> (e, s\<lparr>sp_native := d, sp_open_db := False\<rparr>))"

definition when_set ::
  "bool \<Rightarrow> (('d, 's) span \<Rightarrow> err option \<times> ('d, 's) span) \<Rightarrow> ('d, 's) span \<Rightarrow> err option \<times> ('d, 's) span" where
  "when_set field f s = (if field then f s else (None, s))"

text \<open>Close swaps the closed flag first; only the first caller goes on.\<close>

definition span_Close :: "('d, 's) native \<Rightarrow> ('d, 's) span \<Rightarrow> err option \<times> ('d, 's) span" where
  "span_Close N s =
     (if sp_closed s then (None, s)
      else case when_set (sp_tx s) (span_rollback N) (cancel_life N (s\<lparr>sp_closed := True\<rparr>)) of (e1, s1) \<Rightarrow>
        (case when_set (sp_conn s) (span_close_conn N) s1 of (e2, s2) \<Rightarrow>
        (case when_set (sp_db s) (span_close_db N) s2 of (e3, s3) \<Rightarrow>
          (errors_join
             [case e1 of Some e \<Rightarrow> if errors_is e Err_Tx_Done then None else Some e | None \<Rightarrow> None, e2, e3], s3))))"

text \<open>A nil span closes without an error; a Session or Facts of one is refused.\<close>

definition TableReadSpan_Close ::
  "('d, 's) native \<Rightarrow> ('d, 's) span option \<Rightarrow> err option \<times> ('d, 's) span option" where
  "TableReadSpan_Close N s = (case s of None \<Rightarrow> (None, None) | Some s \<Rightarrow> map_prod id Some (span_Close N s))"

definition TableReadSpan_Session :: "('d, 's) native \<Rightarrow> ('d, 's) span option \<Rightarrow> 's option" where
  "TableReadSpan_Session N s =
     (case s of None \<Rightarrow> None
      | Some s \<Rightarrow> if sp_closed s \<or> life_err N s \<noteq> None then None else sp_session s)"

text \<open>\<open>call_ctx\<close> is the context of the call: absent (nil), or with its error.\<close>

definition TableReadSpan_Facts ::
  "('d, 's) native \<Rightarrow> ('d, 's) span option \<Rightarrow> err option option \<Rightarrow> err + table_read_facts" where
  "TableReadSpan_Facts N s call_ctx =
     (case (s, call_ctx) of
        (Some s, Some ctx_err) \<Rightarrow>
          (case ctx_err of Some e \<Rightarrow> Inl e
           | None \<Rightarrow> (case life_err N s of Some e \<Rightarrow> Inl e
              | None \<Rightarrow> if sp_closed s then Inl Err_Table_Read_Profile else Inr (sp_facts s)))
      | _ \<Rightarrow> Inl Err_Table_Read_Profile)"

section \<open>Inspection\<close>

text \<open>
  \<open>defer func() { err = errors.Join(err, rows.Close()) }()\<close>: an error found while the rows are open is
  joined with the error of closing them; when the rows have ended they are closed already.
\<close>

definition joined :: "err \<Rightarrow> err option \<Rightarrow> err" where
  "joined e close_err = Join (e # (case close_err of None \<Rightarrow> [] | Some c \<Rightarrow> [c]))"

definition rows_joined ::
  "('a \<Rightarrow> sqlval list \<Rightarrow> err + 'a) \<Rightarrow> 'a \<Rightarrow> ('a \<Rightarrow> err + 'b) \<Rightarrow> rowset \<Rightarrow> err + 'b" where
  "rows_joined step acc fin rs =
     (case rows_fold step acc (rs_rows rs) of
        Inl e \<Rightarrow> Inl (joined e (rs_close rs))
      | Inr x \<Rightarrow>
          (case rs_err rs of
             Some e \<Rightarrow> Inl (joined e None)
           | None \<Rightarrow> (case fin x of Inl e \<Rightarrow> Inl (joined e None) | Inr y \<Rightarrow> Inr y)))"

definition tx_query :: "('d, 's) native \<Rightarrow> string \<Rightarrow> ('d, 's, rowset) step" where
  "tx_query N q = st_ask (eng_query (nv_engine N) q [])"

definition tx_query_row :: "('d, 's) native \<Rightarrow> string \<Rightarrow> (sqlval list \<Rightarrow> err + 'a) \<Rightarrow> ('d, 's, 'a) step" where
  "tx_query_row N q scan = st_bind (tx_query N q)
     (\<lambda>rs. case first_row rs scan of Inl e \<Rightarrow> st_fail e | Inr x \<Rightarrow> st_return x)"

definition st_result :: "err + 'a \<Rightarrow> ('d, 's, 'a) step" where
  "st_result r = (case r of Inl e \<Rightarrow> st_fail e | Inr x \<Rightarrow> st_return x)"

definition database_step :: "string \<Rightarrow> bool \<Rightarrow> sqlval list \<Rightarrow> err + bool" where
  "database_step filename seen row =
     result_bind (scan_row 3 (scan_col scan_int (scan_col scan_string (scan_col scan_string scan_nil))) row)
       (\<lambda>(sequence, name, file, _).
          if seen \<or> sequence \<noteq> 0 \<or> name \<noteq> ''main'' \<or> file \<noteq> filename
          then Inl (Wrapf ''%w: native database path or namespace differs'' [] Err_Table_Read_Profile)
          else Inr True)"

definition inspectTableReadDatabases :: "('d, 's) native \<Rightarrow> string \<Rightarrow> ('d, 's, unit) step" where
  "inspectTableReadDatabases N filename =
     st_bind (tx_query N ''PRAGMA database_list'')
       (\<lambda>rs. st_result (rows_joined (database_step filename) False
          (\<lambda>seen. if seen then Inr () else Inl Err_Table_Read_Profile) rs))"

definition column_step :: "limits \<Rightarrow> string list \<Rightarrow> sqlval list \<Rightarrow> err + string list" where
  "column_step lim columns row =
     result_bind
       (scan_row 7 (scan_col scan_int (scan_col scan_string (scan_col scan_string (scan_col scan_int
          (scan_col scan_null_string (scan_col scan_int (scan_col scan_int scan_nil))))))) row)
       (\<lambda>(cid, name, kind, notNull, defaultValue, key, hidden, _).
          if cid \<noteq> int (length columns) \<or> hidden \<noteq> 0 \<or> \<not> tableReadName name \<or>
             int (length columns) \<ge> uint (lim_MaxColumns lim)
          then Inl Err_Table_Read_Profile
          else if name \<in> set columns then Inl Err_Table_Read_Profile
          else Inr (columns @ [name]))"

definition quoted_pragma :: "string \<Rightarrow> string \<Rightarrow> string" where
  "quoted_pragma pragma table = ''PRAGMA main.'' @ pragma @ ''(\"'' @ table @ ''\")''"

definition inspectTableReadColumns :: "('d, 's) native \<Rightarrow> string \<Rightarrow> limits \<Rightarrow> ('d, 's, string list) step" where
  "inspectTableReadColumns N table lim =
     st_bind (tx_query N (quoted_pragma ''table_xinfo'' table))
       (\<lambda>rs. st_result (rows_joined (column_step lim) []
          (\<lambda>columns. if columns = [] then Inl (Wrapf ''%w: no ordinary columns'' [] Err_Table_Read_Profile)
             else Inr columns) rs))"

definition inspectTableRead ::
  "('d, 's) native \<Rightarrow> string \<Rightarrow> string \<Rightarrow> string \<Rightarrow> limits \<Rightarrow> ('d, 's, table_read_facts) step" where
  "inspectTableRead N filename namespace table lim =
     st_bind (inspectTableReadDatabases N filename)
     (\<lambda>_. st_bind (tx_query_row N ''PRAGMA main.encoding'' scan_name)
     (\<lambda>encoding. st_bind (st_check (encoding = ''UTF-8'') Err_Table_Read_Profile)
     (\<lambda>_. st_bind (tx_query_row N (quoted_pragma ''table_list'' table)
       (scan_row 6 (scan_col scan_string (scan_col scan_string (scan_col scan_string (scan_col scan_int
          (scan_col scan_int (scan_col scan_int scan_nil))))))))
     (\<lambda>(schema, name, kind, ncol, withoutRowID, strict, _).
       st_bind (st_check (\<not> (schema \<noteq> namespace \<or> name \<noteq> table \<or> kind \<noteq> ''table'' \<or> ncol < 1 \<or>
          ncol > uint (lim_MaxColumns lim))) Err_Table_Read_Profile)
     (\<lambda>_. st_bind (inspectTableReadColumns N table lim)
     (\<lambda>columns. st_bind (st_check (int (length columns) = ncol) Err_Table_Read_Profile)
     (\<lambda>_. st_return
        \<lparr>tf_Filename = filename, tf_Namespace = namespace, tf_Table = table, tf_Columns = columns,
         tf_MaxBytes = lim_MaxBytes lim, tf_MaxColumns = lim_MaxColumns lim, tf_MaxCellBytes = 0,
         tf_Encoding = encoding\<rparr>)))))))"

section \<open>Opening a span\<close>

text \<open>A limit is set, read back and compared.\<close>

definition set_limit :: "('d, 's) native \<Rightarrow> limit_id \<Rightarrow> int \<Rightarrow> ('d, 's, unit) step" where
  "set_limit N lid v =
     st_bind (st_ask (nv_limit N lid v)) (\<lambda>_. st_bind (st_ask (nv_limit N lid (-1)))
       (\<lambda>actual. st_check (actual = v) Err_Table_Read_Profile))"

definition cell_bytes :: "32 word \<Rightarrow> string list \<Rightarrow> 32 word" where
  "cell_bytes max_bytes columns = max_bytes div of_nat (length columns)"

definition open_handles :: "('d, 's) native \<Rightarrow> string \<Rightarrow> ('d, 's, unit) step" where
  "open_handles N filename =
     st_bind (st_native (nv_open N ''sqlite'' (table_read_uri filename)))
     (\<lambda>_. st_bind (st_update (\<lambda>s. s\<lparr>sp_db := True, sp_open_db := True\<rparr>))
     (\<lambda>_. st_bind (st_native (nv_conn N))
     (\<lambda>_. st_update (\<lambda>s. s\<lparr>sp_conn := True, sp_open_conn := True\<rparr>))))"

definition make_read_only :: "('d, 's) native \<Rightarrow> ('d, 's, unit) step" where
  "make_read_only N =
     st_bind (st_native (eng_exec (nv_engine N) ''PRAGMA query_only=ON'' []))
     (\<lambda>_. st_bind (tx_query_row N ''PRAGMA query_only'' (scan_row 1 (scan_col scan_int scan_nil)))
     (\<lambda>(queryOnly, _). st_bind (st_check (queryOnly = 1) Err_Table_Read_Profile)
     (\<lambda>_. st_bind (st_native (eng_begin (nv_engine N)))
     (\<lambda>_. st_update (\<lambda>s. s\<lparr>sp_tx := True, sp_open_tx := True\<rparr>)))))"

definition open_session :: "('d, 's) native \<Rightarrow> ('d, 's, unit) step" where
  "open_session N =
     st_bind (st_ask (nv_session N))
     (\<lambda>session. st_bind (st_check (session \<noteq> None) Err_Table_Read_Profile)
     (\<lambda>_. st_bind (st_update (\<lambda>s. s\<lparr>sp_session := session\<rparr>))
     (\<lambda>_. st_live N)))"

definition open_steps ::
  "('d, 's) native \<Rightarrow> string \<Rightarrow> string \<Rightarrow> string \<Rightarrow> limits \<Rightarrow> ('d, 's, unit) step" where
  "open_steps N filename namespace table lim =
     st_bind (open_handles N filename)
     (\<lambda>_. st_bind (set_limit N LIMIT_LENGTH (uint (lim_MaxBytes lim)))
     (\<lambda>_. st_bind (set_limit N LIMIT_COLUMN (uint (lim_MaxColumns lim)))
     (\<lambda>_. st_bind (make_read_only N)
     (\<lambda>_. st_bind (inspectTableRead N filename namespace table lim)
     (\<lambda>facts. st_bind (st_update (\<lambda>s. s\<lparr>sp_facts := facts\<rparr>))
     (\<lambda>_. let cellBytes = cell_bytes (lim_MaxBytes lim) (tf_Columns facts) in
       st_bind (st_check (\<not> cellBytes < 8) Err_Table_Read_Profile)
     (\<lambda>_. st_bind (set_limit N LIMIT_LENGTH (uint cellBytes))
     (\<lambda>_. st_bind (st_update (\<lambda>s. s\<lparr>sp_facts := facts\<lparr>tf_MaxCellBytes := cellBytes\<rparr>\<rparr>))
     (\<lambda>_. open_session N)))))))))"

text \<open>
  The result is the error, or nothing, and the span: the one that is returned, or what became of it when
  the deferred function closed it.
\<close>

definition openTableRead ::
  "('d, 's) native \<Rightarrow> bool \<Rightarrow> string \<Rightarrow> string \<Rightarrow> string \<Rightarrow> limits \<Rightarrow> 'd \<Rightarrow> (err + unit) \<times> ('d, 's) span" where
  "openTableRead N has_ctx filename namespace table lim d =
     (if \<not> admitted has_ctx filename namespace table lim then (Inl Err_Table_Read_Profile, new_span d)
      else case nv_ctx_err N d of
          Some e \<Rightarrow> (Inl e, new_span d)
        | None \<Rightarrow>
            (case open_steps N filename namespace table lim (new_span d) of
               (Inr _, s) \<Rightarrow> (Inr (), s)
             | (Inl e, s) \<Rightarrow> (case span_Close N s of (c, s) \<Rightarrow> (Inl (joined e c), s))))"

text \<open>OpenTableRead is openTableRead with the driver's own open, limit and session functions.\<close>

definition OpenTableRead ::
  "('d, 's) native \<Rightarrow> bool \<Rightarrow> string \<Rightarrow> string \<Rightarrow> string \<Rightarrow> limits \<Rightarrow> 'd \<Rightarrow> (err + unit) \<times> ('d, 's) span" where
  "OpenTableRead driver has_ctx filename namespace table lim d =
     openTableRead driver has_ctx filename namespace table lim d"

end
