(* ===== verification/Table_Read_Safety.thy ===== *)
theory Table_Read_Safety
  imports Table_Read
begin

text \<open>
  What the span promises: the URI opens exactly the named file and only for reading; a span that opens
  has a read table within its limits; one that does not open has closed what it opened; and Close is final.
\<close>

section \<open>The URI\<close>

text \<open>Percent-decoding, as a reader of the URI does it.\<close>

definition hex_value :: "char \<Rightarrow> nat option" where
  "hex_value c = (if is_digit c then Some (digit_value c)
     else if CHR ''A'' \<le> c \<and> c \<le> CHR ''F'' then Some (of_char c - 55) else None)"

fun url_unescape :: "string \<Rightarrow> string option" where
  "url_unescape [] = Some []"
| "url_unescape (c # s) =
     (if c = CHR ''%''
      then (case s of
          h # l # rest \<Rightarrow>
            (case (hex_value h, hex_value l, url_unescape rest) of
               (Some a, Some b, Some t) \<Rightarrow> Some (char_of (16 * a + b) # t)
             | _ \<Rightarrow> None)
        | _ \<Rightarrow> None)
      else map_option ((#) c) (url_unescape s))"

lemma hex_digit_value: "n < 16 \<Longrightarrow> hex_value (hex_digit n) = Some n"
proof -
  have "list_all (\<lambda>n. hex_value (hex_digit n) = Some n) [0..<16]" by code_simp
  then show "n < 16 \<Longrightarrow> hex_value (hex_digit n) = Some n" by (simp add: list_all_iff)
qed

lemma hex_digit_plain: "n < 16 \<Longrightarrow> hex_digit n \<noteq> CHR ''?'' \<and> hex_digit n \<noteq> CHR ''#''"
proof -
  have "list_all (\<lambda>n. hex_digit n \<noteq> CHR ''?'' \<and> hex_digit n \<noteq> CHR ''#'') [0..<16]" by code_simp
  then show "n < 16 \<Longrightarrow> hex_digit n \<noteq> CHR ''?'' \<and> hex_digit n \<noteq> CHR ''#''" by (simp add: list_all_iff)
qed

lemma char_halves: "of_char c div 16 < (16 :: nat)" "of_char c mod 16 < (16 :: nat)"
  "char_of (16 * (of_char c div 16) + of_char c mod 16 :: nat) = c"
proof -
  have "of_char c < (256 :: nat)" by (metis of_char_mod_256 mod_less_divisor zero_less_numeral)
  then show "of_char c div 16 < (16 :: nat)" by (simp add: div_less_iff_less_mult)
qed simp_all

lemma unescape_char: "url_unescape (url_escape_char c @ s) = map_option ((#) c) (url_unescape s)"
proof (cases "path_safe c")
  case True
  moreover have "\<not> path_safe (CHR ''%'')" by code_simp
  ultimately have "c \<noteq> CHR ''%''" by auto
  with True show ?thesis by (simp add: url_escape_char_def)
next
  case False
  then show ?thesis
    by (simp add: url_escape_char_def hex_digit_value char_halves split: option.split)
qed

lemma unescape_escape: "url_unescape (url_escape s) = Some s"
  by (induction s) (simp_all add: url_escape_def unescape_char)

lemma escape_plain: "c \<in> set (url_escape s) \<Longrightarrow> c \<noteq> CHR ''?'' \<and> c \<noteq> CHR ''#''"
proof -
  have "\<not> path_safe (CHR ''?'')" "\<not> path_safe (CHR ''#'')" by code_simp+
  then show "c \<in> set (url_escape s) \<Longrightarrow> c \<noteq> CHR ''?'' \<and> c \<noteq> CHR ''#''"
    using hex_digit_plain char_halves(1,2)
    by (auto simp: url_escape_def url_escape_char_def split: if_splits)
qed

text \<open>C35: No file name can change how the file is opened: the URI is the escaped name between "file://" and
  "?mode=ro", the escaped name holds no "?" and no "#", so that mode=ro is the whole query, and decoding
  it gives back exactly the file name.\<close>

theorem table_read_uri_exact:
  "\<exists>e. table_read_uri filename = ''file://'' @ e @ ''?mode=ro'' \<and>
     CHR ''?'' \<notin> set e \<and> CHR ''#'' \<notin> set e \<and> url_unescape e = Some filename"
  using escape_plain unescape_escape by (force simp: table_read_uri_def)

section \<open>Rules for steps\<close>

lemma st_bind_Inr: "st_bind m f s = (Inr y, t) \<longleftrightarrow> (\<exists>x u. m s = (Inr x, u) \<and> f x u = (Inr y, t))"
  by (auto simp: st_bind_def split: prod.splits sum.splits)

lemma st_check_Inr: "st_check b e s = (Inr y, t) \<longleftrightarrow> b \<and> t = s"
  by (auto simp: st_check_def st_return_def st_fail_def)

lemmas st_inversion = st_bind_Inr st_check_Inr

lemma st_simps [simp]: "st_return x s = (Inr x, s)" "st_fail e s = (Inl e, s)" "st_update f s = (Inr (), f s)"
  by (simp_all add: st_return_def st_fail_def st_update_def)

text \<open>Steps that change only the state outside.\<close>

definition native_only :: "('d, 's, 'a) step \<Rightarrow> bool" where
  "native_only m \<longleftrightarrow> (\<forall>s. \<exists>d. snd (m s) = s\<lparr>sp_native := d\<rparr>)"

named_theorems native_rules \<open>steps that change only the state outside\<close>

lemma same_native: "\<exists>d. s = s\<lparr>sp_native := d\<rparr>"
  by (rule exI [of _ "sp_native s"]) simp

lemma native_only_basic [native_rules]:
  "native_only (st_return x)" "native_only (st_fail e)" "native_only (st_check b e)" "native_only (st_native f)"
  "native_only (st_ask g)" "native_only (st_live N)" "native_only (st_result r)"
  by (auto simp: native_only_def st_check_def st_native_def st_ask_def st_live_def st_result_def same_native
      split: prod.splits option.splits sum.splits)

lemma native_only_bind [native_rules]:
  assumes "native_only m" "\<And>x. native_only (f x)"
  shows "native_only (st_bind m f)"
  unfolding native_only_def
proof
  fix s
  obtain r t where m: "m s = (r, t)" by fastforce
  with assms(1) obtain d where t: "t = s\<lparr>sp_native := d\<rparr>" unfolding native_only_def by (metis snd_conv)
  show "\<exists>d. snd (st_bind m f s) = s\<lparr>sp_native := d\<rparr>"
  proof (cases r)
    case (Inl e)
    then show ?thesis using m t by (auto simp: st_bind_def)
  next
    case (Inr x)
    obtain d' where "snd (f x t) = t\<lparr>sp_native := d'\<rparr>" using assms(2) unfolding native_only_def by blast
    then show ?thesis using m t Inr by (auto simp: st_bind_def)
  qed
qed

lemma native_only_queries [native_rules]:
  "native_only (tx_query N q)" "native_only (tx_query_row N q scan)" "native_only (set_limit N lid v)"
  by (auto simp: tx_query_def tx_query_row_def set_limit_def intro!: native_rules split: sum.splits)

lemma native_only_inspect [native_rules]:
  "native_only (inspectTableReadDatabases N filename)" "native_only (inspectTableReadColumns N table lim)"
  "native_only (inspectTableRead N filename namespace table lim)"
  by (auto simp: inspectTableReadDatabases_def inspectTableReadColumns_def inspectTableRead_def
      intro!: native_rules split: prod.splits)

lemma native_onlyD: "native_only m \<Longrightarrow> m s = (r, t) \<Longrightarrow> \<exists>d. t = s\<lparr>sp_native := d\<rparr>"
  unfolding native_only_def by (metis snd_conv)

text \<open>What is open is known to the span, and it is not closed: so Close reaches everything.\<close>

definition coherent :: "('d, 's) span \<Rightarrow> bool" where
  "coherent s \<longleftrightarrow> (sp_open_db s \<longrightarrow> sp_db s) \<and> (sp_open_conn s \<longrightarrow> sp_conn s) \<and> (sp_open_tx s \<longrightarrow> sp_tx s) \<and> \<not> sp_closed s"

definition keeps_coherent :: "('d, 's, 'a) step \<Rightarrow> bool" where
  "keeps_coherent m \<longleftrightarrow> (\<forall>s. coherent s \<longrightarrow> coherent (snd (m s)))"

lemma keeps_coherent_native: "native_only m \<Longrightarrow> keeps_coherent m"
  unfolding native_only_def keeps_coherent_def coherent_def
  by (metis (no_types, lifting) span.select_convs span.surjective span.update_convs(1))

lemma keeps_coherent_bind: "keeps_coherent m \<Longrightarrow> (\<And>x. keeps_coherent (f x)) \<Longrightarrow> keeps_coherent (st_bind m f)"
  unfolding keeps_coherent_def st_bind_def
  by (auto split: prod.split sum.split)

lemma keeps_coherent_update: "(\<And>s. coherent s \<Longrightarrow> coherent (f s)) \<Longrightarrow> keeps_coherent (st_update f)"
  by (simp add: keeps_coherent_def)

lemmas coherent_rules =
  native_only_basic [THEN keeps_coherent_native] native_only_queries [THEN keeps_coherent_native]
  native_only_inspect [THEN keeps_coherent_native] keeps_coherent_bind keeps_coherent_update

lemma keeps_coherent_open: "keeps_coherent (open_steps N filename namespace table lim)"
  unfolding open_steps_def open_handles_def make_read_only_def open_session_def Let_def
  by (auto intro!: coherent_rules simp: coherent_def split: prod.splits)

lemma coherent_new: "coherent (new_span d)"
  by (simp add: coherent_def new_span_def)

section \<open>Close\<close>

lemma span_close_parts:
  assumes "coherent s"
  shows "\<exists>e t. span_Close N s = (e, t) \<and> sp_closed t \<and> sp_life t \<noteq> None \<and>
    \<not> sp_open_db t \<and> \<not> sp_open_conn t \<and> \<not> sp_open_tx t"
  using assms unfolding span_Close_def coherent_def
  by (auto simp: when_set_def span_rollback_def span_close_conn_def span_close_db_def cancel_life_def split: prod.split)

text \<open>C16: A span that cannot be opened leaves nothing behind: whatever step of openTableRead fails and however
  the cleanup goes, afterwards the transaction is over, the connection and the handle are closed, and the
  span is closed; and an argument that is not admitted is refused before anything is opened.\<close>

theorem openTableRead_failure_closes:
  assumes "openTableRead N has_ctx filename namespace table lim d = (Inl e, s)"
  shows "\<not> sp_open_db s \<and> \<not> sp_open_conn s \<and> \<not> sp_open_tx s \<and> TableReadSpan_Close N (Some s) = (None, Some s) \<or>
    s = new_span d \<and> (\<not> admitted has_ctx filename namespace table lim \<and> e = Err_Table_Read_Profile \<or>
      nv_ctx_err N d = Some e)"
proof (cases "admitted has_ctx filename namespace table lim \<and> nv_ctx_err N d = None")
  case True
  obtain r t where steps: "open_steps N filename namespace table lim (new_span d) = (r, t)" by fastforce
  then have "coherent t"
    using keeps_coherent_open coherent_new unfolding keeps_coherent_def by (metis snd_conv)
  then obtain c u where "span_Close N t = (c, u)" "sp_closed u" "\<not> sp_open_db u" "\<not> sp_open_conn u" "\<not> sp_open_tx u"
    using span_close_parts by blast
  moreover have "s = u"
    using assms True steps calculation(1) by (auto simp: openTableRead_def split: sum.splits)
  ultimately show ?thesis
    by (simp add: TableReadSpan_Close_def span_Close_def)
next
  case False
  then show ?thesis
    using assms by (auto simp: openTableRead_def split: if_splits option.splits)
qed

text \<open>The operations of a span after it is open. \<open>Wait\<close> is anything that happens outside.\<close>

datatype 'd span_op = Op_Close | Op_Wait 'd

fun span_op_step :: "('d, 's) native \<Rightarrow> 'd span_op \<Rightarrow> ('d, 's) span \<Rightarrow> ('d, 's) span" where
  "span_op_step N Op_Close s = snd (span_Close N s)"
| "span_op_step N (Op_Wait d) s = s\<lparr>sp_native := d\<rparr>"

definition span_ops :: "('d, 's) native \<Rightarrow> 'd span_op list \<Rightarrow> ('d, 's) span \<Rightarrow> ('d, 's) span" where
  "span_ops N = fold (span_op_step N)"

definition dead :: "('d, 's) span \<Rightarrow> bool" where
  "dead s \<longleftrightarrow> sp_closed s \<and> sp_life s \<noteq> None \<and> \<not> sp_open_db s \<and> \<not> sp_open_conn s \<and> \<not> sp_open_tx s"

lemma dead_ops: "dead s \<Longrightarrow> dead (span_ops N ops s)"
proof (induction ops arbitrary: s)
  case (Cons a ops)
  have "dead (span_op_step N a s)"
    using Cons.prems by (cases a) (auto simp: dead_def span_Close_def)
  then show ?case using Cons.IH by (simp add: span_ops_def)
qed (simp add: span_ops_def)

lemma coherent_ops: "coherent s \<Longrightarrow> Op_Close \<notin> set ops \<Longrightarrow> coherent (span_ops N ops s)"
proof (induction ops arbitrary: s)
  case (Cons a ops)
  then have "coherent (span_op_step N a s)" by (cases a) (auto simp: coherent_def)
  then show ?case using Cons by (simp add: span_ops_def)
qed (simp add: span_ops_def)

lemma coherent_close_dead: "coherent s \<Longrightarrow> dead (snd (span_Close N s))"
  using span_close_parts [of s N] by (auto simp: dead_def)

lemma close_reaches_dead:
  assumes "coherent s" "Op_Close \<in> set ops"
  shows "dead (span_ops N ops s)"
proof -
  obtain before after where ops: "ops = before @ Op_Close # after" "Op_Close \<notin> set before"
    using assms(2) by (meson split_list_first)
  have "coherent (span_ops N before s)" by (rule coherent_ops [OF assms(1) ops(2)])
  from dead_ops [OF coherent_close_dead [OF this]] show ?thesis
    by (simp add: ops(1) span_ops_def)
qed

lemma openTableRead_coherent:
  assumes "openTableRead N has_ctx filename namespace table lim d = (Inr (), s)"
  shows "coherent s"
proof -
  have "open_steps N filename namespace table lim (new_span d) = (Inr (), s)"
    using assms by (auto simp: openTableRead_def split: if_splits option.splits prod.splits sum.splits)
  then show ?thesis
    using keeps_coherent_open coherent_new unfolding keeps_coherent_def by (metis snd_conv)
qed

text \<open>C26: Close is final: once it has been called on an open span, then however often it is called again and
  whatever happens outside, everything is closed, Session is nil, Facts is refused, and every further Close
  returns nil and changes nothing.\<close>

theorem Close_is_final:
  assumes "openTableRead N has_ctx filename namespace table lim d = (Inr (), s)" "Op_Close \<in> set ops"
  defines "t \<equiv> span_ops N ops s"
  shows "\<not> sp_open_db t \<and> \<not> sp_open_conn t \<and> \<not> sp_open_tx t \<and> TableReadSpan_Session N (Some t) = None \<and>
    (\<exists>e. TableReadSpan_Facts N (Some t) call_ctx = Inl e) \<and> TableReadSpan_Close N (Some t) = (None, Some t)"
proof -
  have "dead t"
    unfolding t_def by (rule close_reaches_dead [OF openTableRead_coherent [OF assms(1)] assms(2)])
  then show ?thesis
    by (auto simp: dead_def TableReadSpan_Session_def TableReadSpan_Facts_def TableReadSpan_Close_def span_Close_def
        life_err_def split: option.splits)
qed

section \<open>The bounds\<close>

definition readable_columns :: "limits \<Rightarrow> string list \<Rightarrow> bool" where
  "readable_columns lim columns \<longleftrightarrow> distinct columns \<and> list_all tableReadName columns \<and>
     length columns \<le> unat (lim_MaxColumns lim)"

lemma columns_fold:
  "rows_fold (column_step lim) columns rows = Inr out \<Longrightarrow> readable_columns lim columns \<Longrightarrow> readable_columns lim out"
proof (induction rows arbitrary: columns)
  case (Cons row rows)
  then obtain columns' where step: "column_step lim columns row = Inr columns'"
      and rest: "rows_fold (column_step lim) columns' rows = Inr out"
    by (auto split: sum.splits)
  then have "readable_columns lim columns'"
    using Cons.prems(2)
    by (auto simp: column_step_def readable_columns_def result_bind_Inr_iff not_le split: if_splits)
      (metis Suc_leI int_eq_iff nat_less_iff of_nat_0_le_iff uint_nat unat_eq_nat_uint)+
  then show ?case using Cons.IH [OF rest] by blast
qed simp

lemma inspect_columns_readable:
  "inspectTableReadColumns N table lim s = (Inr columns, t) \<Longrightarrow> readable_columns lim columns"
  by (auto simp: inspectTableReadColumns_def st_bind_Inr st_result_def rows_joined_def
      split: sum.splits option.splits if_splits dest!: columns_fold) (simp_all add: readable_columns_def)

lemma inspect_facts:
  assumes "inspectTableRead N filename namespace table lim s = (Inr facts, t)"
  shows "readable_columns lim (tf_Columns facts) \<and> 1 \<le> length (tf_Columns facts) \<and> tf_Encoding facts = ''UTF-8'' \<and>
    tf_Filename facts = filename \<and> tf_Namespace facts = namespace \<and> tf_Table facts = table \<and>
    tf_MaxBytes facts = lim_MaxBytes lim \<and> tf_MaxColumns facts = lim_MaxColumns lim"
  using assms
  by (auto simp: inspectTableRead_def st_inversion Suc_le_eq dest!: inspect_columns_readable split: prod.splits)

text \<open>The derived bound of a cell: eight bytes at least, and all cells of a row within the budget.\<close>

lemma cell_bytes_bounds:
  assumes "1 \<le> length columns" "length columns \<le> 128" "\<not> cell_bytes mb columns < 8"
  shows "8 \<le> unat (cell_bytes mb columns)" "length columns * unat (cell_bytes mb columns) \<le> unat mb"
    "unat mb < length columns * (unat (cell_bytes mb columns) + 1)"
proof -
  have n: "unat (of_nat (length columns) :: 32 word) = length columns"
    using assms(2) by (simp add: unat_of_nat)
  then have cell: "unat (cell_bytes mb columns) = unat mb div length columns"
    by (simp add: cell_bytes_def unat_div)
  show "8 \<le> unat (cell_bytes mb columns)"
    using assms(3) by (simp add: word_less_nat_alt)
  show "length columns * unat (cell_bytes mb columns) \<le> unat mb"
    by (simp add: cell)
  show "unat mb < length columns * (unat (cell_bytes mb columns) + 1)"
    using assms(1) by (simp add: cell) (metis dividend_less_times_div Suc_le_lessD add.commute)
qed

text \<open>What the steps of opening leave in the span.\<close>

lemma open_handles_span:
  "open_handles N filename s = (Inr (), t) \<Longrightarrow>
   \<exists>d. t = s\<lparr>sp_native := d, sp_db := True, sp_open_db := True, sp_conn := True, sp_open_conn := True\<rparr>"
  by (auto simp: open_handles_def st_inversion dest!: native_onlyD [OF native_only_basic(4)])
    (intro exI span.equality; simp)

lemma make_read_only_span:
  "make_read_only N s = (Inr (), t) \<Longrightarrow> \<exists>d. t = s\<lparr>sp_native := d, sp_tx := True, sp_open_tx := True\<rparr>"
  by (auto simp: make_read_only_def st_inversion
      dest!: native_onlyD [OF native_only_queries(2)] native_onlyD [OF native_only_basic(4)])

lemma open_session_span:
  "open_session N s = (Inr (), t) \<Longrightarrow>
   \<exists>d session. t = s\<lparr>sp_native := d, sp_session := Some session\<rparr> \<and> life_err N t = None"
  by (auto simp: open_session_def st_inversion st_live_def split: option.splits
      dest!: native_onlyD [OF native_only_basic(5)])

lemma set_limit_reads: "set_limit N lid v s = (Inr (), t) \<Longrightarrow>
  (\<exists>d d'. nv_limit N lid (-1) d = (Inr v, d')) \<and> (\<exists>d. t = s\<lparr>sp_native := d\<rparr>)"
  by (auto simp: set_limit_def st_inversion st_ask_def split: prod.splits)

lemma open_steps_span:
  assumes "open_steps N filename namespace table lim (new_span d) = (Inr (), s)"
  shows "\<exists>facts u v w session. inspectTableRead N filename namespace table lim u = (Inr facts, v) \<and>
    \<not> cell_bytes (lim_MaxBytes lim) (tf_Columns facts) < 8 \<and>
    (\<exists>e e'. nv_limit N LIMIT_LENGTH (-1) e = (Inr (uint (cell_bytes (lim_MaxBytes lim) (tf_Columns facts))), e')) \<and>
    s = (new_span w)\<lparr>sp_db := True, sp_open_db := True, sp_conn := True, sp_open_conn := True, sp_tx := True,
      sp_open_tx := True, sp_session := Some session,
      sp_facts := facts\<lparr>tf_MaxCellBytes := cell_bytes (lim_MaxBytes lim) (tf_Columns facts)\<rparr>\<rparr> \<and>
    life_err N s = None"
proof -
  from assms obtain s1 s2 s3 s4 facts s5 s6 where
    steps: "open_handles N filename (new_span d) = (Inr (), s1)"
      "set_limit N LIMIT_LENGTH (uint (lim_MaxBytes lim)) s1 = (Inr (), s2)"
      "set_limit N LIMIT_COLUMN (uint (lim_MaxColumns lim)) s2 = (Inr (), s3)"
      "make_read_only N s3 = (Inr (), s4)"
      "inspectTableRead N filename namespace table lim s4 = (Inr facts, s5)"
      "\<not> cell_bytes (lim_MaxBytes lim) (tf_Columns facts) < 8"
      "set_limit N LIMIT_LENGTH (uint (cell_bytes (lim_MaxBytes lim) (tf_Columns facts))) (s5\<lparr>sp_facts := facts\<rparr>) = (Inr (), s6)"
      "open_session N (s6\<lparr>sp_facts := facts\<lparr>tf_MaxCellBytes := cell_bytes (lim_MaxBytes lim) (tf_Columns facts)\<rparr>\<rparr>) = (Inr (), s)"
    by (auto simp: open_steps_def Let_def st_inversion)
  note spans = open_handles_span [OF steps(1)] set_limit_reads [OF steps(2), THEN conjunct2]
    set_limit_reads [OF steps(3), THEN conjunct2] make_read_only_span [OF steps(4)]
    native_onlyD [OF native_only_inspect(3) steps(5)] set_limit_reads [OF steps(7)] open_session_span [OF steps(8)]
  show ?thesis
    using spans steps(5,6) by (intro exI [of _ facts]) (fastforce simp: new_span_def)
qed

text \<open>C8: A span that opens is exactly the read that was asked for, within its bounds: it names the file, the
  namespace and the table of the call; the table has between one column and MaxColumns, all distinct plain
  names; the encoding is UTF-8; the bound of a cell, which the connection has confirmed, is at least eight
  bytes, and it is the largest for which all cells of a row together stay within MaxBytes, in 32-bit
  arithmetic without overflow; and everything is open and the session is there.\<close>

theorem openTableRead_bounds:
  assumes "openTableRead N has_ctx filename namespace table lim d = (Inr (), s)"
  defines "F \<equiv> sp_facts s"
  shows "tf_Filename F = filename \<and> tf_Namespace F = ''main'' \<and> tf_Table F = table \<and> tf_Encoding F = ''UTF-8'' \<and>
    1 \<le> length (tf_Columns F) \<and> length (tf_Columns F) \<le> unat (tf_MaxColumns F) \<and> unat (tf_MaxColumns F) \<le> 128 \<and>
    distinct (tf_Columns F) \<and> list_all tableReadName (tf_Columns F) \<and>
    8 \<le> unat (tf_MaxCellBytes F) \<and> length (tf_Columns F) * unat (tf_MaxCellBytes F) \<le> unat (tf_MaxBytes F) \<and>
    unat (tf_MaxBytes F) < length (tf_Columns F) * (unat (tf_MaxCellBytes F) + 1) \<and> unat (tf_MaxBytes F) \<le> 262144 \<and>
    (\<exists>e e'. nv_limit N LIMIT_LENGTH (-1) e = (Inr (uint (tf_MaxCellBytes F)), e')) \<and>
    sp_open_db s \<and> sp_open_conn s \<and> sp_open_tx s \<and> TableReadSpan_Session N (Some s) \<noteq> None"
proof -
  from assms(1) have admitted: "admitted has_ctx filename namespace table lim"
    and "open_steps N filename namespace table lim (new_span d) = (Inr (), s)"
    by (auto simp: openTableRead_def split: if_splits option.splits prod.splits sum.splits)
  from open_steps_span [OF this(2)] obtain facts u v w session where
    inspect: "inspectTableRead N filename namespace table lim u = (Inr facts, v)"
    and cell: "\<not> cell_bytes (lim_MaxBytes lim) (tf_Columns facts) < 8"
    and confirmed: "\<exists>e e'. nv_limit N LIMIT_LENGTH (-1) e = (Inr (uint (cell_bytes (lim_MaxBytes lim) (tf_Columns facts))), e')"
    and s: "s = (new_span w)\<lparr>sp_db := True, sp_open_db := True, sp_conn := True, sp_open_conn := True, sp_tx := True,
      sp_open_tx := True, sp_session := Some session,
      sp_facts := facts\<lparr>tf_MaxCellBytes := cell_bytes (lim_MaxBytes lim) (tf_Columns facts)\<rparr>\<rparr>"
    and live: "life_err N s = None"
    by blast
  have F: "F = facts\<lparr>tf_MaxCellBytes := cell_bytes (lim_MaxBytes lim) (tf_Columns facts)\<rparr>"
    by (simp add: F_def s)
  have max: "unat (lim_MaxColumns lim) \<le> 128" "unat (lim_MaxBytes lim) \<le> 262144"
    using admitted by (auto simp: admitted_def word_less_nat_alt not_less)
  note facts = inspect_facts [OF inspect]
  then have columns: "1 \<le> length (tf_Columns facts)" "length (tf_Columns facts) \<le> 128"
    using max(1) by (auto simp: readable_columns_def)
  note bounds = cell_bytes_bounds [OF columns cell]
  show ?thesis
    using facts columns bounds max admitted confirmed live
    by (simp add: F readable_columns_def admitted_def TableReadSpan_Session_def s new_span_def life_err_def)
qed

section \<open>A file with one table\<close>

text \<open>The state outside is the two limits of the connection; \<open>working\<close> says whether the session can be made.\<close>

definition column_row :: "int \<Rightarrow> string \<Rightarrow> sqlval list" where
  "column_row cid name = [V_Int cid, V_Text name, V_Text ''TEXT'', V_Int 0, V_Null, V_Int 0, V_Int 0]"

definition file_answers :: "string \<Rightarrow> sqlval list list" where
  "file_answers q =
     (if q = ''PRAGMA query_only'' then [[V_Int 1]]
      else if q = ''PRAGMA database_list'' then [[V_Int 0, V_Text ''main'', V_Text ''/data/a.db'']]
      else if q = ''PRAGMA main.encoding'' then [[V_Text ''UTF-8'']]
      else if q = quoted_pragma ''table_list'' ''t''
      then [[V_Text ''main'', V_Text ''t'', V_Text ''table'', V_Int 2, V_Int 0, V_Int 0]]
      else if q = quoted_pragma ''table_xinfo'' ''t'' then [column_row 0 ''id'', column_row 1 ''v'']
      else [])"

definition sample_native :: "bool \<Rightarrow> (int \<times> int, unit) native" where
  "sample_native working =
     \<lparr>nv_ctx_err = (\<lambda>d. None),
      nv_open = (\<lambda>drv uri d. (if uri = ''file:///data/a.db?mode=ro'' then None else Some (Foreign 0), d)),
      nv_limit = (\<lambda>lid v (a, b). case lid of
         LIMIT_LENGTH \<Rightarrow> (Inr a, (if v < 0 then a else v, b)) | LIMIT_COLUMN \<Rightarrow> (Inr b, (a, if v < 0 then b else v))),
      nv_session = (\<lambda>d. (if working then Inr (Some ()) else Inl (Foreign 1), d)),
      nv_conn = (\<lambda>d. (None, d)),
      nv_engine = \<lparr>eng_query = (\<lambda>q args d. (Inr (all_rows (file_answers q)), d)), eng_exec = (\<lambda>q args d. (None, d)),
        eng_begin = (\<lambda>d. (None, d)), eng_commit = (\<lambda>d. (None, d)), eng_rollback = (\<lambda>d. (Some Err_Tx_Done, d))\<rparr>,
      nv_close_conn = (\<lambda>d. (None, d)), nv_close_db = (\<lambda>d. (None, d))\<rparr>"

definition sample_limits :: limits where
  "sample_limits = \<lparr>lim_MaxBytes = 1001, lim_MaxColumns = 10\<rparr>"

definition sample_open :: "bool \<Rightarrow> (err + unit) \<times> (int \<times> int, unit) span" where
  "sample_open working = openTableRead (sample_native working) True ''/data/a.db'' ''main'' ''t'' sample_limits (0, 0)"

lemma sample_opens: "fst (sample_open True) = Inr ()"
  by code_simp

lemma sample_fails: "fst (sample_open False) = Inl (Join [Foreign 1])"
  by code_simp

lemma sample_bytes: "unat (tf_MaxCellBytes (sp_facts (snd (sample_open True)))) = 500"
  by code_simp

lemma sample_span: "openTableRead (sample_native working) True ''/data/a.db'' ''main'' ''t'' sample_limits (0, 0) =
    (fst (sample_open working), snd (sample_open working))"
  by (simp add: sample_open_def)

theorem openTableRead_bounds_witness:
  "fst (sample_open True) = Inr () \<and> tf_Table (sp_facts (snd (sample_open True))) = ''t'' \<and>
     unat (tf_MaxCellBytes (sp_facts (snd (sample_open True)))) = 500 \<and> sp_open_tx (snd (sample_open True))"
  using openTableRead_bounds [OF sample_span [of True, unfolded sample_opens]] sample_opens sample_bytes by blast

theorem openTableRead_failure_closes_witness:
  "fst (sample_open False) = Inl (Join [Foreign 1]) \<and> \<not> sp_open_tx (snd (sample_open False)) \<and>
     \<not> sp_open_db (snd (sample_open False))"
proof -
  have "sp_db (snd (sample_open False))" by code_simp
  then have "snd (sample_open False) \<noteq> new_span d" for d by (auto simp: new_span_def)
  with openTableRead_failure_closes [OF sample_span [of False, unfolded sample_fails]] sample_fails
  show ?thesis by blast
qed

theorem Close_is_final_witness:
  "TableReadSpan_Close (sample_native True)
     (Some (span_ops (sample_native True) [Op_Wait (7, 7), Op_Close, Op_Close] (snd (sample_open True)))) =
   (None, Some (span_ops (sample_native True) [Op_Wait (7, 7), Op_Close, Op_Close] (snd (sample_open True))))"
  using Close_is_final [OF sample_span [of True, unfolded sample_opens], of "[Op_Wait (7, 7), Op_Close, Op_Close]"]
  by simp

end
