(* ===== verification/Table_Read_Session.thy ===== *)
theory Table_Read_Session
  imports Table_Read_Safety
begin

text \<open>
  table_read_session.go: the session of a span, which binds every native call to the span's lifetime, and
  its readers, which close themselves on the first error. A native call takes time: its parameter also
  says what others do to the span and to the reader meanwhile (a Close, a cancellation), and every result
  is checked again before it is handed out.
\<close>

section \<open>Contexts of calls\<close>

text \<open>
  A context of a call is \<open>'c\<close>, absent when it is nil; \<open>link_err\<close> is the error of a call's context in a
  state. A linked context is done when the call's context is, when it was released, or with the span's
  lifetime; liveError looks at the lifetime itself next, so when the linked context notices the lifetime
  is not modelled.
\<close>

type_synonym ('d, 'c) call_err = "'c \<Rightarrow> 'd \<Rightarrow> err option"

definition linked_err :: "('d, 'c) call_err \<Rightarrow> 'c \<Rightarrow> bool \<Rightarrow> ('d, 's) span \<Rightarrow> err option" where
  "linked_err X ctx released s = (case X ctx (sp_native s) of Some e \<Rightarrow> Some e
     | None \<Rightarrow> if released then Some Err_Canceled else None)"

definition session_liveError ::
  "('d, 's) native \<Rightarrow> ('d, 'c) call_err \<Rightarrow> 'c \<Rightarrow> bool \<Rightarrow> ('d, 's) span \<Rightarrow> err option" where
  "session_liveError N X ctx released s =
     (case linked_err X ctx released s of Some e \<Rightarrow> Some e
      | None \<Rightarrow> (case life_err N s of Some e \<Rightarrow> Some e
         | None \<Rightarrow> if sp_closed s then Some Err_Table_Read_Profile else None))"

definition callContext :: "('d, 's) native \<Rightarrow> ('d, 'c) call_err \<Rightarrow> 'c option \<Rightarrow> ('d, 's) span \<Rightarrow> err + 'c" where
  "callContext N X ctx s =
     (case ctx of None \<Rightarrow> Inl Err_Table_Read_Profile
      | Some c \<Rightarrow>
          if sp_closed s then Inl Err_Table_Read_Profile
          else case X c (sp_native s) of Some e \<Rightarrow> Inl e
             | None \<Rightarrow> (case life_err N s of Some e \<Rightarrow> Inl e
                | None \<Rightarrow> (case session_liveError N X c False s of Some e \<Rightarrow> Inl e | None \<Rightarrow> Inr c)))"

section \<open>Calls without a reader\<close>

text \<open>dal.ReadSession of package dalgo2sql; a reader it returns is a handle \<open>'h\<close>, \<open>None\<close> for nil.\<close>

record ('w, 'k, 'r, 'q, 'h) inner_session =
  in_Exists :: "'k \<Rightarrow> 'w \<Rightarrow> (err + bool) \<times> 'w"
  in_Get :: "'r \<Rightarrow> 'w \<Rightarrow> err option \<times> 'w"
  in_GetMulti :: "'r list \<Rightarrow> 'w \<Rightarrow> err option \<times> 'w"
  in_RecordsReader :: "'q \<Rightarrow> 'w \<Rightarrow> ('h option \<times> err option) \<times> 'w"
  in_RecordsetReader :: "'q \<Rightarrow> 'w \<Rightarrow> ('h option \<times> err option) \<times> 'w"
  in_Close :: "'h \<Rightarrow> 'w \<Rightarrow> err option \<times> 'w"

definition session_Exists where
  "session_Exists N X I ctx key s =
     (case callContext N X ctx s of
        Inl e \<Rightarrow> (Inl e, s)
      | Inr c \<Rightarrow>
          (case in_Exists I key s of
             (Inl e, t) \<Rightarrow> (Inl e, t)
           | (Inr exists, t) \<Rightarrow>
               (case session_liveError N X c False t of Some e \<Rightarrow> (Inl e, t) | None \<Rightarrow> (Inr exists, t))))"

definition session_Get where
  "session_Get N X I ctx record' s =
     (case callContext N X ctx s of
        Inl e \<Rightarrow> (Some e, s)
      | Inr c \<Rightarrow>
          (case in_Get I record' s of (Some e, t) \<Rightarrow> (Some e, t) | (None, t) \<Rightarrow> (session_liveError N X c False t, t)))"

definition session_GetMulti where
  "session_GetMulti N X I ctx records s =
     (case callContext N X ctx s of
        Inl e \<Rightarrow> (Some e, s)
      | Inr c \<Rightarrow>
          (case in_GetMulti I records s of (Some e, t) \<Rightarrow> (Some e, t) | (None, t) \<Rightarrow> (session_liveError N X c False t, t)))"

section \<open>Readers\<close>

text \<open>
  tableReadReader: \<open>tr_result\<close> is the result of the native Close once it has returned; \<open>tr_calls\<close> records the
  native calls that were made through the reader, for the statements below.
\<close>

datatype native_call = Native_Next | Native_Cursor | Native_Recordset | Native_Close

record ('c, 'h) reader =
  tr_ctx :: 'c
  tr_native :: 'h
  tr_released :: bool
  tr_closed :: bool
  tr_result :: "err option option"
  tr_calls :: "native_call list"

definition new_reader :: "'c \<Rightarrow> 'h \<Rightarrow> ('c, 'h) reader" where
  "new_reader c h = \<lparr>tr_ctx = c, tr_native = h, tr_released = False, tr_closed = False, tr_result = None, tr_calls = []\<rparr>"

text \<open>The two query operations are the same code over the two kinds of native reader.\<close>

definition session_query ::
  "('d, 's) native \<Rightarrow> ('d, 'c) call_err \<Rightarrow> (('d, 's) span, 'k, 'r, 'q, 'h) inner_session \<Rightarrow>
   ('q \<Rightarrow> ('d, 's) span \<Rightarrow> ('h option \<times> err option) \<times> ('d, 's) span) \<Rightarrow>
   'c option \<Rightarrow> 'q \<Rightarrow> ('d, 's) span \<Rightarrow> (err + ('c, 'h) reader) \<times> ('d, 's) span" where
  "session_query N X I run ctx query s =
     (case callContext N X ctx s of
        Inl e \<Rightarrow> (Inl e, s)
      | Inr c \<Rightarrow>
          (case run query s of
             ((reader, Some e), t) \<Rightarrow>
               (case reader of None \<Rightarrow> (Inl e, t)
                | Some h \<Rightarrow> (case in_Close I h t of (e', u) \<Rightarrow> (Inl (joined e e'), u)))
           | ((None, None), t) \<Rightarrow> (Inl Err_Table_Read_Profile, t)
           | ((Some h, None), t) \<Rightarrow>
               (case session_liveError N X c False t of
                  Some e \<Rightarrow> (case in_Close I h t of (e', u) \<Rightarrow> (Inl (joined e e'), u))
                | None \<Rightarrow> (Inr (new_reader c h), t))))"

definition session_ExecuteQueryToRecordsReader where
  "session_ExecuteQueryToRecordsReader N X I = session_query N X I (in_RecordsReader I)"

definition session_ExecuteQueryToRecordsetReader where
  "session_ExecuteQueryToRecordsetReader N X I = session_query N X I (in_RecordsetReader I)"

text \<open>The native reader: its calls act on the span and on the reader, as others may do meanwhile.\<close>

record ('p, 'row) native_reader =
  nr_Next :: "'p \<Rightarrow> (err + 'row) \<times> 'p"
  nr_Cursor :: "'p \<Rightarrow> (err + string) \<times> 'p"
  nr_Recordset :: "'p \<Rightarrow> 'row option \<times> 'p"
  nr_Close :: "'p \<Rightarrow> err option \<times> 'p"

type_synonym ('d, 's, 'c, 'h) reading = "('d, 's) span \<times> ('c, 'h) reader"

definition record_call :: "native_call \<Rightarrow> ('d, 's, 'c, 'h) reading \<Rightarrow> ('d, 's, 'c, 'h) reading" where
  "record_call k = apsnd (\<lambda>r. r\<lparr>tr_calls := tr_calls r @ [k]\<rparr>)"

definition reader_liveError ::
  "('d, 's) native \<Rightarrow> ('d, 'c) call_err \<Rightarrow> ('d, 's, 'c, 'h) reading \<Rightarrow> err option" where
  "reader_liveError N X p =
     (case session_liveError N X (tr_ctx (snd p)) (tr_released (snd p)) (fst p) of Some e \<Rightarrow> Some e
      | None \<Rightarrow> if tr_closed (snd p) then Some Err_Table_Read_Profile else None)"

definition reader_Close ::
  "(('d, 's, 'c, 'h) reading, 'row) native_reader \<Rightarrow> ('d, 's, 'c, 'h) reading \<Rightarrow> err option \<times> ('d, 's, 'c, 'h) reading" where
  "reader_Close K p =
     (if tr_closed (snd p) then (case tr_result (snd p) of Some e \<Rightarrow> e | None \<Rightarrow> None, p)
      else case nr_Close K (record_call Native_Close (apsnd (\<lambda>r. r\<lparr>tr_closed := True, tr_released := True\<rparr>) p)) of
          (e, q) \<Rightarrow> (e, apsnd (\<lambda>r. r\<lparr>tr_result := Some e\<rparr>) q))"

definition reader_failed ::
  "(('d, 's, 'c, 'h) reading, 'row) native_reader \<Rightarrow> err \<Rightarrow> ('d, 's, 'c, 'h) reading \<Rightarrow> (err + 'a) \<times> ('d, 's, 'c, 'h) reading" where
  "reader_failed K e p = (case reader_Close K p of (e', q) \<Rightarrow> (Inl (joined e e'), q))"

text \<open>cursor, and Next of both readers: check, call, check again; any error closes the reader.\<close>

definition reader_guarded ::
  "('d, 's) native \<Rightarrow> ('d, 'c) call_err \<Rightarrow> (('d, 's, 'c, 'h) reading, 'row) native_reader \<Rightarrow> native_call \<Rightarrow>
   (('d, 's, 'c, 'h) reading \<Rightarrow> (err + 'a) \<times> ('d, 's, 'c, 'h) reading) \<Rightarrow>
   ('d, 's, 'c, 'h) reading \<Rightarrow> (err + 'a) \<times> ('d, 's, 'c, 'h) reading" where
  "reader_guarded N X K k call p =
     (case reader_liveError N X p of
        Some e \<Rightarrow> reader_failed K e p
      | None \<Rightarrow>
          (case call (record_call k p) of
             (Inl e, q) \<Rightarrow> reader_failed K e q
           | (Inr x, q) \<Rightarrow> (case reader_liveError N X q of Some e \<Rightarrow> reader_failed K e q | None \<Rightarrow> (Inr x, q))))"

definition reader_Next where
  "reader_Next N X K = reader_guarded N X K Native_Next (nr_Next K)"

definition recordset_Next where
  "recordset_Next N X K = reader_guarded N X K Native_Next (nr_Next K)"

definition reader_cursor where
  "reader_cursor N X K = reader_guarded N X K Native_Cursor (nr_Cursor K)"

definition reader_Recordset where
  "reader_Recordset N X K p =
     (if reader_liveError N X p \<noteq> None then (None, p) else nr_Recordset K (record_call Native_Recordset p))"

section \<open>What is handed out is alive\<close>

definition alive :: "('d, 's) native \<Rightarrow> ('d, 'c) call_err \<Rightarrow> 'c option \<Rightarrow> ('d, 's) span \<Rightarrow> bool" where
  "alive N X ctx s \<longleftrightarrow>
     \<not> sp_closed s \<and> life_err N s = None \<and> (case ctx of None \<Rightarrow> False | Some c \<Rightarrow> X c (sp_native s) = None)"

lemma session_liveError_None:
  "session_liveError N X c False s = None \<longleftrightarrow> alive N X (Some c) s"
  by (auto simp: session_liveError_def linked_err_def alive_def split: option.splits if_splits)

lemma callContext_Inr: "callContext N X ctx s = Inr c \<longleftrightarrow> ctx = Some c \<and> alive N X ctx s"
  by (auto simp: callContext_def session_liveError_def linked_err_def alive_def split: option.splits if_splits)

text \<open>C20: The session hands out nothing that is dead: when Exists, Get, GetMulti or a query succeeds, the span
  is open, its lifetime and the context of the call are not done, at the moment of the return, whatever
  happened during the native call; and a call without a context, or on a span that is closed or cancelled
  before it, fails without any native call.\<close>

theorem session_results_alive:
  "(\<not> alive N X ctx s \<longrightarrow>
      (\<exists>e. session_Exists N X I ctx key s = (Inl e, s)) \<and> (\<exists>e. session_Get N X I ctx record' s = (Some e, s)) \<and>
      (\<exists>e. session_GetMulti N X I ctx records s = (Some e, s)) \<and>
      (\<exists>e. session_ExecuteQueryToRecordsReader N X I ctx query s = (Inl e, s)) \<and>
      (\<exists>e. session_ExecuteQueryToRecordsetReader N X I ctx query s = (Inl e, s))) \<and>
   (session_Exists N X I ctx key s = (Inr b, t) \<longrightarrow> alive N X ctx t) \<and>
   (session_Get N X I ctx record' s = (None, t) \<longrightarrow> alive N X ctx t) \<and>
   (session_GetMulti N X I ctx records s = (None, t) \<longrightarrow> alive N X ctx t) \<and>
   (session_ExecuteQueryToRecordsReader N X I ctx query s = (Inr r, t) \<longrightarrow> alive N X ctx t \<and> ctx = Some (tr_ctx r)) \<and>
   (session_ExecuteQueryToRecordsetReader N X I ctx query s = (Inr r, t) \<longrightarrow> alive N X ctx t \<and> ctx = Some (tr_ctx r))"
proof (cases "callContext N X ctx s")
  case (Inl e)
  then have "\<not> alive N X ctx s" by (cases ctx) (auto simp: callContext_Inr [symmetric] alive_def callContext_def session_liveError_def linked_err_def split: option.splits if_splits)
  then show ?thesis
    by (simp add: Inl session_Exists_def session_Get_def session_GetMulti_def session_ExecuteQueryToRecordsReader_def
        session_ExecuteQueryToRecordsetReader_def session_query_def)
next
  case (Inr c)
  then have c: "ctx = Some c" "alive N X ctx s" by (auto simp: callContext_Inr)
  then have cc: "callContext N X (Some c) s = Inr c" by (simp add: callContext_Inr)
  have query: "session_query N X I run ctx query s = (Inr r, t) \<Longrightarrow> alive N X ctx t \<and> ctx = Some (tr_ctx r)" for run
    by (auto simp: session_query_def c(1) cc session_liveError_None new_reader_def
        split: prod.splits option.splits)
  show ?thesis
    using c(2) query
    by (auto simp: c(1) cc session_Exists_def session_Get_def session_GetMulti_def session_ExecuteQueryToRecordsReader_def
        session_ExecuteQueryToRecordsetReader_def session_liveError_None split: prod.splits option.splits sum.splits)
qed

text \<open>
  The handles that are closed: closing one adds it, and nothing reopens one while a query runs.
\<close>

definition closes ::
  "(('d, 's) span \<Rightarrow> 'h set) \<Rightarrow> (('d, 's) span, 'k, 'r, 'q, 'h) inner_session \<Rightarrow> bool" where
  "closes closed I \<longleftrightarrow> (\<forall>h s. h \<in> closed (snd (in_Close I h s)))"

text \<open>A query leaks no native reader: when it fails although the native query returned a reader, with or
  without an error, that reader has been closed; and when it succeeds, the reader it returns is the native
  one, fresh and open.\<close>

theorem query_leaks_no_reader:
  assumes "closes closed I" "callContext N X ctx s = Inr c" "run query s = ((Some h, err), t)"
    and "session_query N X I run ctx query s = (r, u)"
  shows "case r of Inl e \<Rightarrow> h \<in> closed u | Inr rd \<Rightarrow> rd = new_reader c h \<and> u = t \<and> err = None \<and> alive N X ctx u"
proof -
  have closed: "in_Close I h t = (e, v) \<Longrightarrow> h \<in> closed v" for e v
    using assms(1) unfolding closes_def by (metis snd_conv)
  have "ctx = Some c" using assms(2) by (simp add: callContext_Inr)
  then show ?thesis
    using assms(2-4) closed
    by (auto simp: session_query_def session_liveError_None split: option.splits prod.splits)
qed

section \<open>The life of a reader\<close>

text \<open>
  What others do while a native call runs, or between calls: they may close the reader, once, and close or
  cancel the span; they never reopen anything.
\<close>

definition meanwhile :: "('d, 's, 'c, 'h) reading \<Rightarrow> ('d, 's, 'c, 'h) reading \<Rightarrow> bool" where
  "meanwhile p q \<longleftrightarrow>
     (sp_closed (fst p) \<longrightarrow> sp_closed (fst q)) \<and>
     (sp_life (fst p) \<noteq> None \<longrightarrow> sp_life (fst q) = sp_life (fst p)) \<and>
     (snd q = snd p \<or> \<not> tr_closed (snd p) \<and>
        (\<exists>res. snd q = (snd p)\<lparr>tr_closed := True, tr_released := True, tr_result := res,
           tr_calls := tr_calls (snd p) @ [Native_Close]\<rparr>))"

definition polite :: "(('d, 's, 'c, 'h) reading, 'row) native_reader \<Rightarrow> bool" where
  "polite K \<longleftrightarrow> (\<forall>p. meanwhile p (snd (nr_Next K p)) \<and> meanwhile p (snd (nr_Cursor K p)) \<and>
     meanwhile p (snd (nr_Recordset K p)) \<and> meanwhile p (snd (nr_Close K p)))"

inductive reader_step ::
  "('d, 's) native \<Rightarrow> ('d, 'c) call_err \<Rightarrow> (('d, 's, 'c, 'h) reading, 'row) native_reader \<Rightarrow>
   ('d, 's, 'c, 'h) reading \<Rightarrow> ('d, 's, 'c, 'h) reading \<Rightarrow> bool"
  for N X K where
  step_next: "reader_Next N X K p = (r, q) \<Longrightarrow> reader_step N X K p q"
| step_cursor: "reader_cursor N X K p = (c, q) \<Longrightarrow> reader_step N X K p q"
| step_recordset: "reader_Recordset N X K p = (rs, q) \<Longrightarrow> reader_step N X K p q"
| step_close: "reader_Close K p = (e, q) \<Longrightarrow> reader_step N X K p q"
| step_other: "meanwhile p q \<Longrightarrow> reader_step N X K p q"

inductive_cases reader_stepE: "reader_step N X K p q"

text \<open>Before the native Close there is no other, and after it nothing.\<close>

definition proto :: "('c, 'h) reader \<Rightarrow> bool" where
  "proto r \<longleftrightarrow> (\<exists>calls. tr_calls r = calls @ (if tr_closed r then [Native_Close] else []) \<and> Native_Close \<notin> set calls) \<and>
     (tr_closed r \<longrightarrow> tr_released r)"

lemma proto_meanwhile: "meanwhile p q \<Longrightarrow> proto (snd p) \<Longrightarrow> proto (snd q)"
  by (auto simp: meanwhile_def proto_def)

lemma proto_record: "\<not> tr_closed (snd p) \<Longrightarrow> k \<noteq> Native_Close \<Longrightarrow> proto (snd p) \<Longrightarrow> proto (snd (record_call k p))"
  by (auto simp: proto_def record_call_def)

lemma meanwhile_closed: "meanwhile p q \<Longrightarrow> tr_closed (snd p) \<Longrightarrow> snd q = snd p"
  by (auto simp: meanwhile_def)

lemma reader_Close_closes:
  assumes "polite K" "proto (snd p)" "reader_Close K p = (e, q)"
  shows "proto (snd q) \<and> tr_closed (snd q)"
proof (cases "tr_closed (snd p)")
  case True
  then show ?thesis using assms by (simp add: reader_Close_def)
next
  case False
  let ?p = "record_call Native_Close (apsnd (\<lambda>r. r\<lparr>tr_closed := True, tr_released := True\<rparr>) p)"
  obtain e' q' where close: "nr_Close K ?p = (e', q')" by (cases "nr_Close K ?p")
  then have "meanwhile ?p q'" using assms(1) unfolding polite_def by (metis snd_conv)
  then have "snd q' = snd ?p" by (rule meanwhile_closed) (simp add: record_call_def)
  moreover have "proto (snd ?p)" "tr_closed (snd ?p)"
    using assms(2) False by (auto simp: proto_def record_call_def)
  ultimately show ?thesis
    using assms(3) False close by (auto simp: reader_Close_def proto_def)
qed

lemma reader_failed_closes:
  assumes "polite K" "proto (snd p)" "reader_failed K e p = (r, q)"
  shows "proto (snd q) \<and> tr_closed (snd q) \<and> (\<exists>e. r = Inl e)"
  using reader_Close_closes [OF assms(1,2)] assms(3)
  by (cases "reader_Close K p") (auto simp: reader_failed_def)

lemma liveError_open: "reader_liveError N X p = None \<Longrightarrow> \<not> tr_closed (snd p)"
  by (auto simp: reader_liveError_def split: option.splits if_splits)

lemma reader_guarded_proto:
  assumes "polite K" "proto (snd p)" "\<And>p. meanwhile p (snd (call p))" "k \<noteq> Native_Close"
    and "reader_guarded N X K k call p = (r, q)"
  shows "proto (snd q) \<and> (case r of Inl e \<Rightarrow> tr_closed (snd q) | Inr x \<Rightarrow> reader_liveError N X q = None)"
proof (cases "reader_liveError N X p")
  case (Some e)
  then show ?thesis
    using assms(5) reader_failed_closes [OF assms(1,2), of e r q] by (auto simp: reader_guarded_def)
next
  case None
  obtain r' q' where call: "call (record_call k p) = (r', q')" by (cases "call (record_call k p)")
  then have "meanwhile (record_call k p) q'" using assms(3) by (metis snd_conv)
  then have q': "proto (snd q')"
    by (rule proto_meanwhile) (rule proto_record [OF liveError_open [OF None] assms(4,2)])
  show ?thesis
  proof (cases r')
    case (Inl e)
    then show ?thesis
      using None call assms(5) reader_failed_closes [OF assms(1) q', of e r q] by (auto simp: reader_guarded_def)
  next
    case (Inr x)
    show ?thesis
    proof (cases "reader_liveError N X q'")
      case dead: (Some e)
      then show ?thesis
        using Inr None call assms(5) reader_failed_closes [OF assms(1) q', of e r q] by (auto simp: reader_guarded_def)
    qed (use Inr None call assms(5) q' in \<open>auto simp: reader_guarded_def\<close>)
  qed
qed

lemma polite_calls:
  "polite K \<Longrightarrow> meanwhile p (snd (nr_Next K p))" "polite K \<Longrightarrow> meanwhile p (snd (nr_Cursor K p))"
  "polite K \<Longrightarrow> meanwhile p (snd (nr_Recordset K p))"
  unfolding polite_def by blast+

lemma reader_Next_proto:
  assumes "polite K" "proto (snd p)"
  shows "reader_Next N X K p = (r, q) \<Longrightarrow> proto (snd q) \<and>
      (case r of Inl e \<Rightarrow> tr_closed (snd q) | Inr x \<Rightarrow> reader_liveError N X q = None)"
    and "reader_cursor N X K p = (c, q) \<Longrightarrow> proto (snd q) \<and>
      (case c of Inl e \<Rightarrow> tr_closed (snd q) | Inr x \<Rightarrow> reader_liveError N X q = None)"
  unfolding reader_Next_def reader_cursor_def
  by (erule reader_guarded_proto [OF assms polite_calls(1) [OF assms(1)], rotated], simp)
    (erule reader_guarded_proto [OF assms polite_calls(2) [OF assms(1)], rotated], simp)

lemma reader_step_proto: "reader_step N X K p q \<Longrightarrow> polite K \<Longrightarrow> proto (snd p) \<Longrightarrow> proto (snd q)"
proof (erule reader_stepE)
  fix rs assume "reader_Recordset N X K p = (rs, q)" "polite K" "proto (snd p)"
  then show "proto (snd q)"
    using proto_record [of p Native_Recordset] proto_meanwhile [OF polite_calls(3), of K "record_call Native_Recordset p"]
    by (auto simp: reader_Recordset_def liveError_open split: if_splits)
qed (auto dest: reader_Next_proto reader_Close_closes proto_meanwhile)

text \<open>C9: The protocol of a reader: however Next, Cursor, Recordset and Close are called on it, and whatever
  others do meanwhile, the native reader is closed at most once, exactly when the reader is closed, and
  no native call is made after that Close; and a closed reader has released its context.\<close>

theorem reader_protocol:
  assumes "(reader_step N X K)\<^sup>*\<^sup>* (s, new_reader c h) (t, r)" "polite K"
  shows "(\<exists>calls. tr_calls r = calls @ (if tr_closed r then [Native_Close] else []) \<and> Native_Close \<notin> set calls) \<and>
    (tr_closed r \<longrightarrow> tr_released r)"
proof -
  have "proto (snd (t, r))"
    using assms(1)
  proof (induction rule: rtranclp_induct)
    case base
    show ?case by (simp add: proto_def new_reader_def)
  next
    case (step p q)
    then show ?case using reader_step_proto [OF step(2) assms(2)] by blast
  qed
  then show ?thesis by (simp add: proto_def)
qed

lemma guarded_closed:
  assumes "tr_closed (snd p)" "reader_guarded N X K k call p = (r, q)"
  shows "q = p \<and> (\<exists>e. r = Inl e)"
proof -
  obtain e where "reader_liveError N X p = Some e"
    using liveError_open [of N X p] assms(1) by blast
  then show ?thesis
    using assms by (auto simp: reader_guarded_def reader_failed_def reader_Close_def)
qed

lemma closed_step: "reader_step N X K p q \<Longrightarrow> tr_closed (snd p) \<Longrightarrow> snd q = snd p"
proof (erule reader_stepE)
  fix rs assume "reader_Recordset N X K p = (rs, q)" "tr_closed (snd p)"
  then show "snd q = snd p"
    using liveError_open [of N X p] by (auto simp: reader_Recordset_def split: if_splits)
qed (auto simp: reader_Next_def reader_cursor_def reader_Close_def dest: guarded_closed meanwhile_closed)

lemma closed_steps: "(reader_step N X K)\<^sup>*\<^sup>* p q \<Longrightarrow> tr_closed (snd p) \<Longrightarrow> snd q = snd p"
  by (induction rule: rtranclp_induct) (auto dest: closed_step)


section \<open>A session and a reader of one row\<close>

text \<open>
  \<open>one_row\<close>: the first Next has a row and the second reports the end. The inner session answers Exists;
  \<open>closing\<close>: while it does, another caller closes the span.
\<close>

definition one_row :: "((int \<times> int, unit, unit, unit) reading, nat) native_reader" where
  "one_row = \<lparr>nr_Next = (\<lambda>p. (if length (tr_calls (snd p)) \<le> 1 then Inr 7 else Inl Err_EOF, p)),
     nr_Cursor = (\<lambda>p. (Inr [], p)), nr_Recordset = (\<lambda>p. (None, p)), nr_Close = (\<lambda>p. (None, p))\<rparr>"

lemma one_row_polite: "polite one_row"
  by (simp add: polite_def one_row_def meanwhile_def)

definition sample_inner :: "bool \<Rightarrow> ((int \<times> int, unit) span, unit, unit, unit, unit) inner_session" where
  "sample_inner closing = \<lparr>in_Exists = (\<lambda>k s. (Inr True, s\<lparr>sp_closed := closing\<rparr>)), in_Get = (\<lambda>r s. (None, s)),
     in_GetMulti = (\<lambda>r s. (None, s)), in_RecordsReader = (\<lambda>q s. ((Some (), None), s)),
     in_RecordsetReader = (\<lambda>q s. ((None, None), s)), in_Close = (\<lambda>h s. (None, s))\<rparr>"

definition no_err :: "unit \<Rightarrow> int \<times> int \<Rightarrow> err option" where
  "no_err c d = None"

theorem session_results_alive_witness:
  "\<exists>t. session_Exists (sample_native True) no_err (sample_inner False) (Some ()) () (new_span (0, 0)) = (Inr True, t) \<and>
     alive (sample_native True) no_err (Some ()) t \<and>
   fst (session_Exists (sample_native True) no_err (sample_inner True) (Some ()) () (new_span (0, 0))) = Inl Err_Table_Read_Profile"
proof -
  let ?s = "new_span (0, 0) :: (int \<times> int, unit) span"
  have "session_Exists (sample_native True) no_err (sample_inner False) (Some ()) () ?s = (Inr True, ?s)"
    "fst (session_Exists (sample_native True) no_err (sample_inner True) (Some ()) () ?s) = Inl Err_Table_Read_Profile"
    by (simp_all add: session_Exists_def callContext_def session_liveError_def linked_err_def life_err_def no_err_def
        new_span_def sample_native_def sample_inner_def)
  with session_results_alive [of "sample_native True" no_err "Some ()" ?s "sample_inner False" "()" "()" "[]" "()" True ?s]
  show ?thesis by blast
qed

text \<open>A native query that returns a reader and an error; closing it leaves a mark outside.\<close>

definition marking_inner :: "((int \<times> int, unit) span, unit, unit, unit, unit) inner_session" where
  "marking_inner = (sample_inner False)
     \<lparr>in_RecordsReader := (\<lambda>q s. ((Some (), Some (Foreign 3)), s)),
      in_Close := (\<lambda>h s. (None, s\<lparr>sp_native := (99, 0)\<rparr>))\<rparr>"

theorem query_leaks_no_reader_witness:
  "\<exists>u. session_ExecuteQueryToRecordsReader (sample_native True) no_err marking_inner (Some ()) () (new_span (0, 0)) =
     (Inl (Join [Foreign 3]), u) \<and> sp_native u = (99, 0)"
proof -
  let ?s = "new_span (0, 0) :: (int \<times> int, unit) span" and ?run = "in_RecordsReader marking_inner"
  let ?closed = "\<lambda>s :: (int \<times> int, unit) span. if sp_native s = (99, 0) then {()} else {}"
  have linked: "callContext (sample_native True) no_err (Some ()) ?s = Inr ()"
    by (simp add: callContext_Inr alive_def no_err_def new_span_def life_err_def sample_native_def)
  have "closes ?closed marking_inner" by (simp add: closes_def marking_inner_def)
  moreover obtain u where u: "session_query (sample_native True) no_err marking_inner ?run (Some ()) () ?s = (Inl (Join [Foreign 3]), u)"
    by (simp add: session_query_def linked marking_inner_def joined_def)
  moreover have "?run () ?s = ((Some (), Some (Foreign 3)), ?s)" by (simp add: marking_inner_def)
  ultimately have "() \<in> ?closed u"
    using query_leaks_no_reader [of ?closed marking_inner "sample_native True" no_err "Some ()" ?s "()" ?run "()"] linked
    by fastforce
  with u show ?thesis
    by (auto simp: session_ExecuteQueryToRecordsReader_def split: if_splits)
qed

definition reading_start :: "(int \<times> int, unit, unit, unit) reading" where
  "reading_start = (new_span (0, 0), new_reader () ())"

lemma one_row_runs:
  "\<exists>p1 p2. reader_Next (sample_native True) no_err one_row reading_start = (Inr 7, p1) \<and>
     reader_Next (sample_native True) no_err one_row p1 = (Inl (Join [Err_EOF]), p2) \<and>
     tr_calls (snd p2) = [Native_Next, Native_Next, Native_Close]"
  by (simp add: reader_Next_def reader_guarded_def reader_liveError_def session_liveError_def linked_err_def
      life_err_def no_err_def reading_start_def new_span_def new_reader_def sample_native_def one_row_def
      record_call_def reader_failed_def reader_Close_def joined_def)

theorem reader_protocol_witness:
  "\<exists>t r. (reader_step (sample_native True) no_err one_row)\<^sup>*\<^sup>* (new_span (0, 0), new_reader () ()) (t, r) \<and>
     tr_calls r = [Native_Next, Native_Next, Native_Close] \<and> tr_closed r"
proof -
  obtain p1 p2 where runs: "reader_Next (sample_native True) no_err one_row reading_start = (Inr 7, p1)"
      "reader_Next (sample_native True) no_err one_row p1 = (Inl (Join [Err_EOF]), p2)"
      "tr_calls (snd p2) = [Native_Next, Native_Next, Native_Close]"
    using one_row_runs by blast
  obtain t r where p2: "p2 = (t, r)" by (cases p2)
  have reached: "(reader_step (sample_native True) no_err one_row)\<^sup>*\<^sup>* (new_span (0, 0), new_reader () ()) (t, r)"
    using step_next [OF runs(1)] step_next [OF runs(2)] unfolding reading_start_def p2
    by (meson rtranclp.rtrancl_into_rtrancl rtranclp.rtrancl_refl)
  from reader_protocol [OF this one_row_polite] runs(3) have "tr_closed r"
    by (auto simp: p2 split: if_splits)
  with reached runs(3) show ?thesis by (auto simp: p2)
qed


end
