(* ===== verification/Spec2Isabelle.thy ===== *)
theory Spec2Isabelle
  imports Sql_Text Modify_Effects Alter_Examples Source_Checks Decimal_Text Database_Dal Borrowed_Reader Table_Read_Session
begin

text \<open>
  Verification of dalgo2sqlite, the SQLite driver of the DALgo data-access layer (Go, package
  dalgo2sqlite under src/).

  \<^bold>\<open>The program.\<close> A Database (database.go) wraps a handle of package database/sql. Around it the driver has
  six parts: the delegation of the data-access operations (database_dal.go); DDL, which turns portable
  collection definitions into SQL text (type_mapping.go, sql_gen.go) and executes it in transactions
  (schema_modifier.go); introspection, which turns the catalog of SQLite back into portable definitions
  (schema_reader.go, schema_foreign_keys.go, schema_source.go, schema_constraints.go), also over a borrowed
  handle (schema_reader_borrowed.go); the source checks (source_constraints.go) and the typed rows of a
  table (source_rows.go); the table read span, a bounded read over a private read-only connection
  (table_read.go) with its session and readers (table_read_session.go); and the classification of errors
  (errors.go, sqlite_classifier.go).

  \<^bold>\<open>What is a parameter.\<close> SQLite and its driver are the record \<open>engine\<close> of Sql_Store: what a query, an
  execution, Begin, Commit and Rollback return and how they change the database, of any type \<open>'d\<close>. What the
  code relies on is a predicate over it: \<open>serves\<close> (Catalog: the documented answers of sqlite_master and the
  pragma functions for a schema), \<open>transactional\<close> (Ddl_Transactions: Rollback restores what Begin saw),
  \<open>executes\<close> (Ddl_Statements: what the statements of CreateCollection, DropCollection and AlterCollection
  do to a catalog without triggers, up to the texts that ALTER TABLE rewrites), \<open>alters_tables\<close> (Alter_Sequence:
  that the markers are moved whenever nothing is in the way, and that a transaction SQLite has ended is not
  committed). Each has an engine or a catalog that satisfies it, in the witnesses. Package dalgo2sql is a parameter of Database, Database_Dal
  and Table_Read_Session.

  \<^bold>\<open>Theories, from the bottom.\<close>
  \<^item> Go_Prelude, Go_Float, Db_Types: strings, decimal numbers, float64 and its shortest rendering, errors as
    values with errors.Is, As and Join, and the definitions that callers exchange with the driver.
  \<^item> Type_Mapping: sqliteTypeFor and dbschemaTypeFromSQLite; the matcher of numericPrecisionRe accepts exactly its
    language, and the portable types that survive the way to SQLite and back.
  \<^item> Sql_Gen: every builder of SQL text. Sql_Text: a lexer and a reader of SQLite's text; a quoted identifier
    is one token that spells the name, and the text of CREATE TABLE declares the collection.
  \<^item> Sql_Store: values and Scan, result sets, a pool of connections with a limit, connections and transactions,
    as functions of the pool's state; a call that waits for a connection that never comes is \<open>Blocked\<close>.
    Pool_Safety: triples for the connections in use. Reader_Runs: the evaluation of readers.
  \<^item> Time_Markers: the sidecar table of Time columns. Pk_Order: the swapping loop is the stable sort.
  \<^item> Ddl_Transactions: inTx, and the locale \<open>tx_body\<close> of what may run in it. Schema_Modifier: Create, Drop and
    AlterCollection and the applier. Ddl_Plans: the locale \<open>applier_contract\<close>, the interpretations, and the
    properties: atomicity, the plan of statements, no blocking. Modify_Field: the rebuild of a table.
  \<^item> Schema_Foreign_Keys, Schema_Source, Schema_Reader, Schema_Constraints: the readers, query by query.
    Catalog, Catalog_Spec, Foreign_Key_Spec, Describe_Spec, Schema_Refinement: a catalog as a value, the
    specification of each reader over it, and the refinement. Schema_Examples: a catalog, and the witnesses.
    Lenient_Schema: the strict and the lenient reader compared.
  \<^item> Create_Describe: the table that the text of CREATE TABLE makes is described as the collection it was made
    from. Ddl_Statements: the effect of a statement on the catalog. Ddl_Catalog: the catalog after CreateCollection, and
    CreateCollection followed by DescribeCollection. Ddl_Effects: what Create and DropCollection change for a reader and
    what they leave alone, and the markers that a drop under another spelling leaves behind. Modify_Effects: what
    DescribeCollection returns after ModifyField.
  \<^item> Alter_Statements: the catalog after an ALTER TABLE, where the texts are left open. Alter_Effects, Rename_Effects,
    Index_Effects: what DescribeCollection returns after AddField, DropField, RenameField, AddIndex and DropIndex, and the
    marker that a rename under another spelling leaves behind. Alter_Sequence: a list of such changes is the composition
    of functions on the table and its markers. Alter_Examples: each of them run on an engine, the witnesses.
  \<^item> Source_Checks, Source_Rows: the checks with the setting they restore; the statement, the cursor and its
    conversions. Decimal_Text: the text of a decimal stored as REAL is the shortest that reads back as it.
  \<^item> Sqlite_Errors, Database, Database_Dal, Borrowed_Reader: classification of errors, the handles of databases as a
    transition relation, the delegation, and the locale \<open>reader_contract\<close> with its two readers.
  \<^item> Table_Read, Table_Read_Safety, Table_Read_Session: the span step by step, its bounds and its closing, and the
    session whose readers are a state machine.

  \<^bold>\<open>State and errors.\<close> A record stands for a struct. An operation that can fail returns \<open>err + 'a\<close> or an
  \<open>outcome\<close> with the new state; every early return of the source is a branch. Integers are \<open>int\<close> with the
  64-bit range checked where the code parses or scans one, and 32-bit words for the limits of a span.

  \<^bold>\<open>Bounds.\<close> The two searches in the rendering of a float64 (Go_Float) have fuel: 17 decimal digits always
  reach the rounding interval (seventeen_digits of Decimal_Text) and the decimal exponent of a positive float64
  is above -400 (decimal_point_bounds). Every other recursion is
  structural or has a termination proof.

  \<^bold>\<open>Not modelled.\<close> The _test.go files. The moment at which a context is cancelled: it is the parameter's choice
  at each call. Two goroutines inside one operation of a span: the effects of others appear between steps and
  during native calls only. Windows paths (filepath). That nilTableReadValue uses reflection: a nil session or
  reader is \<open>None\<close>. Letters beyond ASCII in strings.ToUpper where the driver compares with ASCII keywords: the
  result agrees on them. The data inside tables, except where a property speaks of it.
\<close>

end
